(* ===== verification/Prelude.thy ===== *)
theory Prelude
  imports Main "HOL-Library.Word"
begin

text \<open>
  Shared vocabulary of the Northstar64 development: the machine integers of
  \<^verbatim>\<open>include/northstar64/types.hpp\<close>, its three constant-expression helpers, the
  collections of facts the component theories add to, and the generic lemmas on words
  and bits that they use.

  A C++ \<^verbatim>\<open>std::uintN_t\<close> is \<open>N word\<close>; a \<^verbatim>\<open>std::int64_t\<close> is the 64-bit word with the
  same two's-complement pattern, read by \<open>sint\<close>. A \<^verbatim>\<open>std::size_t\<close> that only counts or
  indexes is a \<open>nat\<close>.
\<close>

unbundle bit_operations_syntax

subsection \<open>Machine integers\<close>

type_synonym u8 = "8 word"
type_synonym u16 = "16 word"
type_synonym u32 = "32 word"
type_synonym u64 = "64 word"
type_synonym i64 = "64 word"

text \<open>The C++ exceptions the sources throw, with their message.\<close>

datatype exn = InvalidArgument string | OutOfRange string | LogicError string
  | RuntimeError string | ElfError string

subsection \<open>The helpers of types.hpp\<close>

definition sign_extend :: "u64 \<Rightarrow> nat \<Rightarrow> i64" where
  "sign_extend v bits =
     (let sign_bit = push_bit (bits - 1) 1;
          m = (if bits = 64 then -1 else push_bit bits 1 - 1);
          narrowed = v AND m
      in (narrowed XOR sign_bit) - sign_bit)"

definition add_overflows :: "u64 \<Rightarrow> u64 \<Rightarrow> bool" where
  "add_overflows b s \<longleftrightarrow> s > -1 - b"

definition mask_for_width :: "nat \<Rightarrow> u64" where
  "mask_for_width w = (if w = 8 then -1 else push_bit (w * 8) 1 - 1)"

subsection \<open>Words and bits\<close>

lemma push_bit_1_minus_1: "push_bit n 1 - 1 = (mask n :: 'a::len word)"
  by (simp add: mask_eq_exp_minus_1 push_bit_eq_mult)

lemma mask_for_width_mask: "w \<le> 8 \<Longrightarrow> mask_for_width w = mask (w * 8)"
  by (auto simp: mask_for_width_def mask_eq_exp_minus_1)

lemma unat_u64_less: "unat (b :: u64) < 2 ^ 64"
proof -
  have "unat b < 2 ^ LENGTH(64)" by (rule unsigned_less)
  then show ?thesis by simp
qed

lemma unat_of_nat_u64: "n < 2 ^ 64 \<Longrightarrow> unat (of_nat n :: u64) = n"
  by (simp add: unat_of_nat take_bit_nat_eq_self_iff)

lemma add_overflows_iff: "add_overflows b s \<longleftrightarrow> unat b + unat s \<ge> 2 ^ 64"
proof -
  have "unat (-1 :: u64) = 2 ^ 64 - 1"
    by (simp add: unsigned_minus_1_eq_mask mask_eq_exp_minus_1)
  then have "unat (-1 - b) = 2 ^ 64 - 1 - unat b"
    using unat_u64_less [of b] by (auto simp: unat_sub_if')
  then show ?thesis
    using unat_u64_less [of b] by (auto simp: add_overflows_def word_less_nat_alt)
qed

lemma sign_extend_signed_take_bit:
  assumes "0 < b" "b \<le> 64"
  shows "sign_extend v b = signed_take_bit (b - 1) v"
proof -
  from assms(1) obtain k where k: "b = Suc k" by (cases b) auto
  with assms(2) have k64: "k < 64" by simp
  let ?s = "push_bit k 1 :: u64"
  have "(if b = 64 then -1 else push_bit b 1 - 1) = (mask b :: u64)"
    by (auto simp: mask_eq_exp_minus_1)
  then have *: "sign_extend v (Suc k) = ((v AND mask (Suc k)) XOR ?s) - ?s"
    unfolding sign_extend_def Let_def by (simp only: k diff_Suc_1)
  show ?thesis
  proof (cases "bit v k")
    case True
    have "((v AND mask (Suc k)) XOR ?s) = v AND mask k"
      using k64 True by (auto intro!: bit_word_eqI simp: bit_simps less_Suc_eq)
    moreover have "(v AND mask k) - ?s = (v AND mask k) OR NOT (mask k)"
    proof -
      have "(v AND mask k) OR NOT (mask k) = (v AND mask k) + NOT (mask k)"
        by (rule disjunctive_add [symmetric]) (auto simp: bit_simps)
      also have "\<dots> = (v AND mask k) - ?s"
        by (simp flip: minus_exp_eq_not_mask)
      finally show ?thesis by (rule sym)
    qed
    ultimately show ?thesis
      using k64 True unfolding k * by (auto intro!: bit_word_eqI simp: bit_simps min_def)
  next
    case False
    then have "((v AND mask (Suc k)) XOR ?s) = (v AND mask (Suc k)) + ?s"
      by (subst disjunctive_add_eq_xor) (auto intro!: bit_word_eqI simp: bit_simps)
    then show ?thesis
      using k64 False unfolding k *
      by (auto intro!: bit_word_eqI simp: bit_simps min_def less_Suc_eq split: if_splits)
  qed
qed

subsection \<open>Deciding equations on 32-bit words bit by bit\<close>

text \<open>
  An equation between words built from shifts and masks of one 32-bit word is decided
  by comparing the 32 bits; \<open>u32_bitwise\<close> is the simpset that does so.
\<close>

lemma all_less_32: "(\<forall>n<32. P n) \<longleftrightarrow>
    P 0 \<and> P 1 \<and> P 2 \<and> P 3 \<and> P 4 \<and> P 5 \<and> P 6 \<and> P 7 \<and> P 8 \<and> P 9 \<and> P 10 \<and> P 11 \<and>
    P 12 \<and> P 13 \<and> P 14 \<and> P 15 \<and> P 16 \<and> P 17 \<and> P 18 \<and> P 19 \<and> P 20 \<and> P 21 \<and> P 22 \<and>
    P 23 \<and> P 24 \<and> P 25 \<and> P 26 \<and> P 27 \<and> P 28 \<and> P 29 \<and> P 30 \<and> P (31::nat)"
  by (simp add: numeral_eq_Suc All_less_Suc2)

lemma u32_eq_iff_bits: "(a :: u32) = b \<longleftrightarrow> (\<forall>n<32. bit a n = bit b n)"
  by (auto intro: bit_word_eqI)

lemma u64_eq_iff_bits: "x = y \<longleftrightarrow> (\<forall>n. bit x n \<longleftrightarrow> bit y n)" for x y :: u64
  by (auto intro: bit_word_eqI)

lemma u64_bit_less: "bit x n \<Longrightarrow> n < 64" for x :: u64
  by (drule bit_imp_le_length) simp

lemma bit_single: "bit (push_bit k 1 :: u64) n \<longleftrightarrow> n = k \<and> k < 64"
  by (auto simp add: bit_push_bit_iff bit_1_iff simp del: push_bit_of_1)

lemma and_not_eq_0_iff: "x AND NOT m = 0 \<longleftrightarrow> (\<forall>n. bit x n \<longrightarrow> bit m n)" for x m :: u64
  by (auto simp: u64_eq_iff_bits bit_and_iff bit_not_iff dest: u64_bit_less)

lemma and_single_iff: "(\<And>n. bit m n \<longleftrightarrow> n = k) \<Longrightarrow> x AND m \<noteq> 0 \<longleftrightarrow> bit x k" for x m :: u64
  by (auto simp: u64_eq_iff_bits bit_and_iff)

lemma bit_three: "bit (3 :: u64) n \<longleftrightarrow> n < 2"
proof -
  have "(3 :: u64) = mask 2" by (simp add: mask_eq_exp_minus_1)
  then have "bit (3 :: u64) n = bit (mask 2 :: u64) n" by (rule arg_cong)
  then show ?thesis by (auto simp: bit_mask_iff)
qed

lemma bit_not_low2: "bit (NOT 3 :: u64) n \<longleftrightarrow> 2 \<le> n \<and> n < 64"
  unfolding bit_not_iff bit_three by auto

lemma and_low2_eq_0_iff: "x AND 3 = 0 \<longleftrightarrow> \<not> bit x 0 \<and> \<not> bit x 1" for x :: u64
  unfolding u64_eq_iff_bits bit_and_iff bit_three by (auto simp: less_2_cases_iff intro: gr0I)

lemma bit_times_two_iff: "bit (x * 2) n \<longleftrightarrow> n < LENGTH('a) \<and> 0 < n \<and> bit x (n - 1)"
  for x :: "'a::len word"
  by (simp add: mult.commute [of x 2] bit_simps)

lemma bit_beyond: "LENGTH('a) \<le> n \<Longrightarrow> \<not> bit w n" for w :: "'a::len word"
  by (auto dest: bit_imp_le_length)

lemmas u32_bitwise = u32_eq_iff_bits all_less_32 bit_simps bit_times_two_iff bit_beyond

lemma word_less_exp_iff: "n < LENGTH('a) \<Longrightarrow> w < 2 ^ n \<longleftrightarrow> take_bit n w = w" for w :: "'a::len word"
  by (simp add: take_bit_eq_mask mask_eq_iff_w2p word_size)

lemma less_exp_not_bit: "w < 2 ^ n \<Longrightarrow> n < LENGTH('a) \<Longrightarrow> n \<le> m \<Longrightarrow> \<not> bit w m" for w :: "'a::len word"
  by (metis bit_take_bit_iff leD word_less_exp_iff)

lemma u8_less_32_iff: "(r :: u8) < 32 \<longleftrightarrow> take_bit 5 r = r"
  using word_less_exp_iff [of 5 r] by simp

lemma all_less_8: "(\<forall>n<8. P n) \<longleftrightarrow> P 0 \<and> P 1 \<and> P 2 \<and> P 3 \<and> P 4 \<and> P 5 \<and> P 6 \<and> P (7::nat)"
  by (simp add: numeral_eq_Suc All_less_Suc2)

lemma u8_eq_iff_bits: "(a :: u8) = b \<longleftrightarrow> (\<forall>n<8. bit a n = bit b n)"
  by (auto intro: bit_word_eqI)

lemma sint_signed_take_bit: "sint (signed_take_bit n w) = signed_take_bit n (sint w)"
  for w :: i64
  by (rule bit_eqI) (auto simp: bit_simps min_def)

lemma signed_take_bit_eq_self_iff:
  "signed_take_bit n w = w \<longleftrightarrow> - (2 ^ n) \<le> sint w \<and> sint w < 2 ^ n" for w :: i64
  by (metis sint_signed_take_bit signed_take_bit_int_eq_self_iff signed_word_eqI)

lemma all_less_16: "(\<forall>n<16. P n) \<longleftrightarrow> P 0 \<and> P 1 \<and> P 2 \<and> P 3 \<and> P 4 \<and> P 5 \<and> P 6 \<and> P 7 \<and>
    P 8 \<and> P 9 \<and> P 10 \<and> P 11 \<and> P 12 \<and> P 13 \<and> P 14 \<and> P (15::nat)"
  by (simp add: numeral_eq_Suc All_less_Suc2)

lemma u16_eq_iff_bits: "(a :: u16) = b \<longleftrightarrow> (\<forall>n<16. bit a n = bit b n)"
  by (auto intro: bit_word_eqI)

subsection \<open>Little-endian values\<close>

text \<open>
  The value assembled from \<open>w\<close> bytes, and the byte of a value at an index: the loop
  bodies that the RAM model and the ELF loader share.
\<close>

definition le_value :: "(nat \<Rightarrow> u8) \<Rightarrow> nat \<Rightarrow> u64" where
  "le_value f w = fold (\<lambda>index v. v OR push_bit (index * 8) (ucast (f index))) [0..<w] 0"

definition le_byte :: "u64 \<Rightarrow> nat \<Rightarrow> u8" where
  "le_byte v index = ucast (drop_bit (index * 8) v AND 0xff)"

lemma le_value_0 [simp]: "le_value f 0 = 0"
  by (simp add: le_value_def)

lemma le_value_Suc [simp]:
  "le_value f (Suc w) = le_value f w OR push_bit (w * 8) (ucast (f w))"
  by (simp add: le_value_def)

lemma bit_le_value: "bit (le_value f w) n \<longleftrightarrow> n < 64 \<and> n < w * 8 \<and> bit (f (n div 8)) (n mod 8)"
proof (induction w)
  case (Suc w)
  have "bit (f w) (n - w * 8) \<longleftrightarrow> n < Suc w * 8 \<and> bit (f (n div 8)) (n mod 8)" if "w * 8 \<le> n"
  proof (cases "n < Suc w * 8")
    case True
    with that have "n div 8 = w" by (intro div_nat_eqI) auto
    moreover from this have "n mod 8 = n - w * 8" by (simp add: minus_div_mult_eq_mod [symmetric])
    ultimately show ?thesis using True by simp
  next
    case False
    then show ?thesis using bit_imp_le_length [of "f w" "n - w * 8"] by auto
  qed
  with Suc show ?case by (auto simp: bit_simps)
qed simp

lemma bit_le_byte: "bit (le_byte v i) n \<longleftrightarrow> n < 8 \<and> bit v (i * 8 + n)"
proof -
  have "(0xff :: u64) = mask 8" by (simp add: mask_eq_exp_minus_1)
  then have "le_byte v i = ucast (drop_bit (i * 8) v AND mask 8)" by (simp only: le_byte_def)
  then show ?thesis by (auto simp: bit_simps dest: bit_imp_le_length)
qed

lemma le_byte_le_value: "i < w \<Longrightarrow> w \<le> 8 \<Longrightarrow> le_byte (le_value f w) i = f i"
  by (rule bit_word_eqI) (auto simp: bit_le_byte bit_le_value)

lemma le_value_le_byte: "w \<le> 8 \<Longrightarrow> le_value (le_byte v) w = v AND mask (w * 8)"
  by (rule bit_word_eqI) (auto simp: bit_le_byte bit_le_value bit_simps)

lemma le_value_cong: "(\<And>i. i < w \<Longrightarrow> f i = g i) \<Longrightarrow> le_value f w = le_value g w"
  by (induction w) simp_all

lemma le_byte_ucast: "le_byte (ucast (b :: u8)) 0 = b"
  by (rule bit_word_eqI) (simp add: bit_le_byte bit_simps)

lemma unat_add_of_nat: "unat (a :: u64) + i < 2 ^ 64 \<Longrightarrow> unat (a + of_nat i) = unat a + i"
  by (simp add: unat_word_ariths unat_of_nat_u64)

end
