(* ===== verification/Arch.thy ===== *)
theory Arch
  imports Prelude
begin

text \<open>
  The architectural vocabulary: privilege levels (\<^verbatim>\<open>privilege.hpp\<close>, \<^verbatim>\<open>privilege.cpp\<close>)
  and synchronous trap causes (\<^verbatim>\<open>trap.hpp\<close>, \<^verbatim>\<open>trap.cpp\<close>). An \<^verbatim>\<open>enum class\<close> with
  explicit values is a datatype with a function to those values.
\<close>

subsection \<open>Privilege levels\<close>

datatype PrivilegeLevel = User | Supervisor | Machine

fun privilege_code :: "PrivilegeLevel \<Rightarrow> u8" where
  "privilege_code User = 0"
| "privilege_code Supervisor = 1"
| "privilege_code Machine = 3"

definition privilege_at_least :: "PrivilegeLevel \<Rightarrow> PrivilegeLevel \<Rightarrow> bool" where
  "privilege_at_least current required \<longleftrightarrow> privilege_code current \<ge> privilege_code required"

fun privilege_name :: "PrivilegeLevel \<Rightarrow> string" where
  "privilege_name User = ''U''"
| "privilege_name Supervisor = ''S''"
| "privilege_name Machine = ''M''"

text \<open>The order of the encoded levels, as an instance of the library's linear orders.\<close>

instantiation PrivilegeLevel :: linorder
begin

definition less_eq_PrivilegeLevel :: "PrivilegeLevel \<Rightarrow> PrivilegeLevel \<Rightarrow> bool" where
  "less_eq_PrivilegeLevel p q \<longleftrightarrow> privilege_code p \<le> privilege_code q"

definition less_PrivilegeLevel :: "PrivilegeLevel \<Rightarrow> PrivilegeLevel \<Rightarrow> bool" where
  "less_PrivilegeLevel p q \<longleftrightarrow> privilege_code p < privilege_code q"

instance
proof
  fix p q r :: PrivilegeLevel
  show "p < q \<longleftrightarrow> p \<le> q \<and> \<not> q \<le> p"
    by (auto simp: less_eq_PrivilegeLevel_def less_PrivilegeLevel_def)
  show "p \<le> p" by (simp add: less_eq_PrivilegeLevel_def)
  show "p \<le> q \<Longrightarrow> q \<le> r \<Longrightarrow> p \<le> r" by (auto simp: less_eq_PrivilegeLevel_def)
  show "p \<le> q \<Longrightarrow> q \<le> p \<Longrightarrow> p = q"
    by (cases p; cases q) (simp_all add: less_eq_PrivilegeLevel_def word_le_nat_alt)
  show "p \<le> q \<or> q \<le> p" by (auto simp: less_eq_PrivilegeLevel_def)
qed

end

lemma privilege_at_least_iff [simp]: "privilege_at_least p q \<longleftrightarrow> q \<le> p"
  by (simp add: privilege_at_least_def less_eq_PrivilegeLevel_def)

lemma privilege_le_simps [simp]:
  shows "User \<le> p" and "p \<le> Machine" and "\<not> Supervisor \<le> User"
    and "\<not> Machine \<le> User" and "\<not> Machine \<le> Supervisor"
proof -
  show "User \<le> p" and "p \<le> Machine"
    by (cases p; simp add: less_eq_PrivilegeLevel_def word_le_nat_alt)+
qed (simp_all add: less_eq_PrivilegeLevel_def word_le_nat_alt)

lemma Supervisor_le_iff: "Supervisor \<le> p \<longleftrightarrow> p \<noteq> User"
  by (cases p) (simp_all add: less_eq_PrivilegeLevel_def word_le_nat_alt)

lemma Machine_le_iff: "Machine \<le> p \<longleftrightarrow> p = Machine"
  by (cases p) simp_all

subsection \<open>Synchronous traps\<close>

datatype TrapCause =
    InstructionAddressMisaligned | InstructionAccessFault | IllegalInstruction | Breakpoint
  | LoadAddressMisaligned | LoadAccessFault | StoreAddressMisaligned | StoreAccessFault
  | EnvironmentCallFromUserMode | EnvironmentCallFromSupervisorMode
  | EnvironmentCallFromMachineMode
  | InstructionPageFault | LoadPageFault | StorePageFault

fun cause_code :: "TrapCause \<Rightarrow> u64" where
  "cause_code InstructionAddressMisaligned = 0"
| "cause_code InstructionAccessFault = 1"
| "cause_code IllegalInstruction = 2"
| "cause_code Breakpoint = 3"
| "cause_code LoadAddressMisaligned = 4"
| "cause_code LoadAccessFault = 5"
| "cause_code StoreAddressMisaligned = 6"
| "cause_code StoreAccessFault = 7"
| "cause_code EnvironmentCallFromUserMode = 8"
| "cause_code EnvironmentCallFromSupervisorMode = 9"
| "cause_code EnvironmentCallFromMachineMode = 11"
| "cause_code InstructionPageFault = 12"
| "cause_code LoadPageFault = 13"
| "cause_code StorePageFault = 15"

record Trap =
  trap_cause :: TrapCause
  trap_pc :: u64
  trap_value :: u64
  trap_detail :: string

fun trap_name :: "TrapCause \<Rightarrow> string" where
  "trap_name InstructionAddressMisaligned = ''instruction-address-misaligned''"
| "trap_name InstructionAccessFault = ''instruction-access-fault''"
| "trap_name IllegalInstruction = ''illegal-instruction''"
| "trap_name Breakpoint = ''breakpoint''"
| "trap_name LoadAddressMisaligned = ''load-address-misaligned''"
| "trap_name LoadAccessFault = ''load-access-fault''"
| "trap_name StoreAddressMisaligned = ''store-address-misaligned''"
| "trap_name StoreAccessFault = ''store-access-fault''"
| "trap_name EnvironmentCallFromUserMode = ''environment-call-from-user-mode''"
| "trap_name EnvironmentCallFromSupervisorMode = ''environment-call-from-supervisor-mode''"
| "trap_name EnvironmentCallFromMachineMode = ''environment-call-from-machine-mode''"
| "trap_name InstructionPageFault = ''instruction-page-fault''"
| "trap_name LoadPageFault = ''load-page-fault''"
| "trap_name StorePageFault = ''store-page-fault''"

lemma cause_code_inject [simp]: "cause_code c = cause_code d \<longleftrightarrow> c = d"
  by (cases c; cases d) simp_all

lemma cause_code_less [simp]: "cause_code c < 64"
  by (cases c) simp_all

end
