(* ===== verification/Decode.thy ===== *)
theory Decode
  imports Arch
begin

text \<open>
  The instruction decoder (\<^verbatim>\<open>decode.hpp\<close>, \<^verbatim>\<open>decode.cpp\<close>): field and immediate
  extraction, one function per major opcode group, and \<open>decode\<close>, which yields a
  decoded instruction or an error with its reason. The lemmas bound the register numbers
  of what it yields; theory \<open>Encoding\<close> relates it to the reference encoder.
\<close>

subsection \<open>Data\<close>

datatype (plugins only: code) Operation =
    Lui | Auipc | Jal | Jalr | Beq | Bne | Blt | Bge | Bltu | Bgeu
  | Lb | Lh | Lw | Ld | Lbu | Lhu | Lwu | Sb | Sh | Sw | Sd
  | Addi | Slti | Sltiu | Xori | Ori | Andi | Slli | Srli | Srai
  | Add | Sub | Sll | Slt | Sltu | Xor | Srl | Sra | Or | And
  | Addiw | Slliw | Srliw | Sraiw | Addw | Subw | Sllw | Srlw | Sraw
  | Fence | FenceI | SfenceVma | Ecall | Ebreak | Sret | Mret | Wfi
  | Csrrw | Csrrs | Csrrc | Csrrwi | Csrrsi | Csrrci

record DecodedInstruction =
  di_operation :: Operation
  di_raw :: u32
  di_rd :: u8
  di_rs1 :: u8
  di_rs2 :: u8
  di_immediate :: i64
  di_csr :: u16

record DecodeError =
  de_raw :: u32
  de_detail :: string

type_synonym DecodeResult = "DecodeError + DecodedInstruction"

subsection \<open>Fields and immediates\<close>

definition field :: "u32 \<Rightarrow> nat \<Rightarrow> u32 \<Rightarrow> u8" where
  "field raw shift m = ucast (drop_bit shift raw AND m)"

definition immediate_i :: "u32 \<Rightarrow> i64" where
  "immediate_i raw = sign_extend (ucast (drop_bit 20 raw)) 12"

definition immediate_s :: "u32 \<Rightarrow> i64" where
  "immediate_s raw =
     (let v = push_bit 5 (drop_bit 25 raw) OR (drop_bit 7 raw AND 0x1f)
      in sign_extend (ucast v) 12)"

definition immediate_b :: "u32 \<Rightarrow> i64" where
  "immediate_b raw =
     (let v = push_bit 12 (drop_bit 31 raw) OR push_bit 11 (drop_bit 7 raw AND 0x1) OR
              push_bit 5 (drop_bit 25 raw AND 0x3f) OR push_bit 1 (drop_bit 8 raw AND 0xf)
      in sign_extend (ucast v) 13)"

definition immediate_u :: "u32 \<Rightarrow> i64" where
  "immediate_u raw = sign_extend (ucast (raw AND 0xfffff000)) 32"

definition immediate_j :: "u32 \<Rightarrow> i64" where
  "immediate_j raw =
     (let v = push_bit 20 (drop_bit 31 raw) OR push_bit 12 (drop_bit 12 raw AND 0xff) OR
              push_bit 11 (drop_bit 20 raw AND 0x1) OR push_bit 1 (drop_bit 21 raw AND 0x3ff)
      in sign_extend (ucast v) 21)"

definition error :: "u32 \<Rightarrow> string \<Rightarrow> DecodeResult" where
  "error raw detail = Inl \<lparr>de_raw = raw, de_detail = detail\<rparr>"

definition instruction :: "u32 \<Rightarrow> Operation \<Rightarrow> i64 \<Rightarrow> DecodedInstruction" where
  "instruction raw op imm =
     \<lparr>di_operation = op, di_raw = raw, di_rd = field raw 7 0x1f, di_rs1 = field raw 15 0x1f,
      di_rs2 = field raw 20 0x1f, di_immediate = imm,
      di_csr = ucast (drop_bit 20 raw AND 0xfff)\<rparr>"

text \<open>The immediate argument of \<^verbatim>\<open>instruction\<close> defaults to zero in the source.\<close>

abbreviation ok :: "u32 \<Rightarrow> Operation \<Rightarrow> i64 \<Rightarrow> DecodeResult" where
  "ok raw op imm \<equiv> Inr (instruction raw op imm)"

subsection \<open>One function per opcode group\<close>

definition decode_branch :: "u32 \<Rightarrow> u8 \<Rightarrow> DecodeResult" where
  "decode_branch raw funct3 =
     (if funct3 = 0 then ok raw Beq (immediate_b raw)
      else if funct3 = 1 then ok raw Bne (immediate_b raw)
      else if funct3 = 4 then ok raw Blt (immediate_b raw)
      else if funct3 = 5 then ok raw Bge (immediate_b raw)
      else if funct3 = 6 then ok raw Bltu (immediate_b raw)
      else if funct3 = 7 then ok raw Bgeu (immediate_b raw)
      else error raw ''reserved branch funct3'')"

definition decode_load :: "u32 \<Rightarrow> u8 \<Rightarrow> DecodeResult" where
  "decode_load raw funct3 =
     (let operations = [Lb, Lh, Lw, Ld, Lbu, Lhu, Lwu]
      in if funct3 > 6 then error raw ''reserved load funct3''
         else ok raw (operations ! unat funct3) (immediate_i raw))"

definition decode_store :: "u32 \<Rightarrow> u8 \<Rightarrow> DecodeResult" where
  "decode_store raw funct3 =
     (let operations = [Sb, Sh, Sw, Sd]
      in if funct3 > 3 then error raw ''reserved store funct3''
         else ok raw (operations ! unat funct3) (immediate_s raw))"

definition decode_op_imm :: "u32 \<Rightarrow> u8 \<Rightarrow> DecodeResult" where
  "decode_op_imm raw funct3 =
     (if funct3 = 0 then ok raw Addi (immediate_i raw)
      else if funct3 = 2 then ok raw Slti (immediate_i raw)
      else if funct3 = 3 then ok raw Sltiu (immediate_i raw)
      else if funct3 = 4 then ok raw Xori (immediate_i raw)
      else if funct3 = 6 then ok raw Ori (immediate_i raw)
      else if funct3 = 7 then ok raw Andi (immediate_i raw)
      else if funct3 = 1 then
        (if drop_bit 26 raw \<noteq> 0 then error raw ''reserved SLLI encoding''
         else ok raw Slli (ucast (drop_bit 20 raw AND 0x3f)))
      else if funct3 = 5 then
        (let funct6 = drop_bit 26 raw AND 0x3f
         in if funct6 = 0 then ok raw Srli (ucast (drop_bit 20 raw AND 0x3f))
            else if funct6 = 0x10 then ok raw Srai (ucast (drop_bit 20 raw AND 0x3f))
            else error raw ''reserved right-shift immediate encoding'')
      else error raw ''reserved OP-IMM funct3'')"

definition decode_op :: "u32 \<Rightarrow> u8 \<Rightarrow> DecodeResult" where
  "decode_op raw funct3 =
     (let funct7 = drop_bit 25 raw AND 0x7f
      in if funct7 = 0x20 then
           (if funct3 = 0 then ok raw Sub 0
            else if funct3 = 5 then ok raw Sra 0
            else error raw ''reserved alternate OP encoding'')
         else if funct7 \<noteq> 0 then error raw ''unsupported OP extension encoding''
         else (let operations = [Add, Sll, Slt, Sltu, Xor, Srl, Or, And]
               in ok raw (operations ! unat funct3) 0))"

definition decode_op_imm_32 :: "u32 \<Rightarrow> u8 \<Rightarrow> DecodeResult" where
  "decode_op_imm_32 raw funct3 =
     (if funct3 = 0 then ok raw Addiw (immediate_i raw)
      else if funct3 = 1 \<and> drop_bit 25 raw = 0 then
        ok raw Slliw (ucast (drop_bit 20 raw AND 0x1f))
      else if funct3 = 5 \<and> drop_bit 25 raw = 0 then
        ok raw Srliw (ucast (drop_bit 20 raw AND 0x1f))
      else if funct3 = 5 \<and> drop_bit 25 raw = 0x20 then
        ok raw Sraiw (ucast (drop_bit 20 raw AND 0x1f))
      else error raw ''reserved OP-IMM-32 encoding'')"

definition decode_op_32 :: "u32 \<Rightarrow> u8 \<Rightarrow> DecodeResult" where
  "decode_op_32 raw funct3 =
     (let funct7 = drop_bit 25 raw
      in if funct7 = 0x20 then
           (if funct3 = 0 then ok raw Subw 0
            else if funct3 = 5 then ok raw Sraw 0
            else error raw ''reserved alternate OP-32 encoding'')
         else if funct7 \<noteq> 0 then error raw ''unsupported OP-32 extension encoding''
         else if funct3 = 0 then ok raw Addw 0
         else if funct3 = 1 then ok raw Sllw 0
         else if funct3 = 5 then ok raw Srlw 0
         else error raw ''reserved OP-32 funct3'')"

definition decode_system :: "u32 \<Rightarrow> u8 \<Rightarrow> DecodeResult" where
  "decode_system raw funct3 =
     (if funct3 = 0 then
        (if raw AND 0xfe007fff = 0x12000073 then ok raw SfenceVma 0
         else if raw = 0x00000073 then ok raw Ecall 0
         else if raw = 0x00100073 then ok raw Ebreak 0
         else if raw = 0x10200073 then ok raw Sret 0
         else if raw = 0x30200073 then ok raw Mret 0
         else if raw = 0x10500073 then ok raw Wfi 0
         else error raw ''unsupported privileged instruction'')
      else if funct3 = 1 then ok raw Csrrw 0
      else if funct3 = 2 then ok raw Csrrs 0
      else if funct3 = 3 then ok raw Csrrc 0
      else if funct3 = 5 then ok raw Csrrwi 0
      else if funct3 = 6 then ok raw Csrrsi 0
      else if funct3 = 7 then ok raw Csrrci 0
      else error raw ''reserved SYSTEM funct3'')"

definition decode :: "u32 \<Rightarrow> DecodeResult" where
  "decode raw =
     (if raw AND 0x3 \<noteq> 0x3 then error raw ''compressed instructions are not implemented''
      else
        let opcode = raw AND 0x7f; funct3 = field raw 12 0x7
        in if opcode = 0x37 then ok raw Lui (immediate_u raw)
           else if opcode = 0x17 then ok raw Auipc (immediate_u raw)
           else if opcode = 0x6f then ok raw Jal (immediate_j raw)
           else if opcode = 0x67 then
             (if funct3 \<noteq> 0 then error raw ''reserved JALR funct3''
              else ok raw Jalr (immediate_i raw))
           else if opcode = 0x63 then decode_branch raw funct3
           else if opcode = 0x03 then decode_load raw funct3
           else if opcode = 0x23 then decode_store raw funct3
           else if opcode = 0x13 then decode_op_imm raw funct3
           else if opcode = 0x33 then decode_op raw funct3
           else if opcode = 0x1b then decode_op_imm_32 raw funct3
           else if opcode = 0x3b then decode_op_32 raw funct3
           else if opcode = 0x0f then
             (if funct3 = 0 then ok raw Fence 0
              else if funct3 = 1 \<and> raw = 0x0000100f then ok raw FenceI 0
              else error raw ''reserved MISC-MEM encoding'')
           else if opcode = 0x73 then decode_system raw funct3
           else error raw ''unknown opcode'')"

subsection \<open>Selectors, register numbers and the three-bit function code\<close>

lemmas decode_groups = decode_branch_def decode_load_def decode_store_def decode_op_imm_def
  decode_op_def decode_op_imm_32_def decode_op_32_def decode_system_def

lemma instruction_sel [simp]:
  "di_operation (instruction raw op imm) = op" "di_raw (instruction raw op imm) = raw"
  "di_rd (instruction raw op imm) = field raw 7 0x1f"
  "di_rs1 (instruction raw op imm) = field raw 15 0x1f"
  "di_rs2 (instruction raw op imm) = field raw 20 0x1f"
  "di_immediate (instruction raw op imm) = imm"
  "di_csr (instruction raw op imm) = ucast (drop_bit 20 raw AND 0xfff)"
  by (simp_all add: instruction_def)

lemma error_neq_ok [simp]: "error raw s \<noteq> Inr d"
  by (simp add: error_def)

lemma field3_less: "unat (field raw s 0x7) < 8"
proof -
  have "field raw s 0x7 = take_bit 3 (field raw s 0x7)"
    by (rule bit_word_eqI) (auto simp: field_def bit_simps numeral_eq_Suc less_Suc_eq)
  then have "unat (field raw s 0x7) = take_bit 3 (unat (field raw s 0x7))"
    by (metis unsigned_take_bit_eq)
  then show ?thesis using take_bit_nat_less_exp [of 3 "unat (field raw s 0x7)"] by simp
qed

lemma field3_cases:
  obtains "field raw s 0x7 = 0" | "field raw s 0x7 = 1" | "field raw s 0x7 = 2"
  | "field raw s 0x7 = 3" | "field raw s 0x7 = 4" | "field raw s 0x7 = 5"
  | "field raw s 0x7 = 6" | "field raw s 0x7 = 7"
proof -
  have "unat (field raw s 0x7) \<in> {0, 1, 2, 3, 4, 5, 6, 7}"
    using field3_less [of raw s] by auto
  then have "field raw s 0x7 \<in> {0, 1, 2, 3, 4, 5, 6, 7}"
    by (auto simp: word_unat_eq_iff)
  then show ?thesis using that by blast
qed

lemma field5_less: "field raw s 0x1f < 32"
  unfolding u8_less_32_iff
  by (simp add: field_def u8_eq_iff_bits all_less_8 bit_simps)

lemma csr_field_less: "ucast (drop_bit 20 (raw :: u32) AND 0xfff) < (4096 :: u16)"
  using word_less_exp_iff [of 12 "ucast (drop_bit 20 raw AND 0xfff) :: u16"]
  by (simp add: u16_eq_iff_bits all_less_16 bit_simps)

lemma decode_group_instruction:
  "decode_branch raw f3 = Inr d \<Longrightarrow> \<exists>op imm. d = instruction raw op imm"
  "decode_load raw f3 = Inr d \<Longrightarrow> \<exists>op imm. d = instruction raw op imm"
  "decode_store raw f3 = Inr d \<Longrightarrow> \<exists>op imm. d = instruction raw op imm"
  "decode_op_imm raw f3 = Inr d \<Longrightarrow> \<exists>op imm. d = instruction raw op imm"
  "decode_op raw f3 = Inr d \<Longrightarrow> \<exists>op imm. d = instruction raw op imm"
  "decode_op_imm_32 raw f3 = Inr d \<Longrightarrow> \<exists>op imm. d = instruction raw op imm"
  "decode_op_32 raw f3 = Inr d \<Longrightarrow> \<exists>op imm. d = instruction raw op imm"
  "decode_system raw f3 = Inr d \<Longrightarrow> \<exists>op imm. d = instruction raw op imm"
  by (auto simp: decode_groups Let_def split: if_splits)

lemma decode_instruction: "decode raw = Inr d \<Longrightarrow> \<exists>op imm. d = instruction raw op imm"
  by (auto simp: decode_def Let_def dest: decode_group_instruction split: if_splits)

text \<open>What execution relies on: register numbers below 32.\<close>

definition valid_registers :: "DecodedInstruction \<Rightarrow> bool" where
  "valid_registers d \<longleftrightarrow> di_rd d < 32 \<and> di_rs1 d < 32 \<and> di_rs2 d < 32 \<and> di_csr d < 4096"

lemma decode_valid_registers: "decode raw = Inr d \<Longrightarrow> valid_registers d"
  by (auto simp: valid_registers_def field5_less csr_field_less dest!: decode_instruction)

end
