(* ===== verification/Encoding.thy ===== *)
theory Encoding
  imports Decode
begin

text \<open>
  The reference encoder of the test suite (\<^verbatim>\<open>tests/test_support.hpp\<close>), with the
  opcode map of the ISA manual on top of it, and the two theorems that make the decoder
  correct: whatever it accepts, it re-encodes to the same word, and every instruction
  with operands its format can carry is decoded back from its encoding.
\<close>

subsection \<open>The reference encoder of the test suite\<close>

definition encode_r :: "u8 \<Rightarrow> u8 \<Rightarrow> u8 \<Rightarrow> u8 \<Rightarrow> u8 \<Rightarrow> u8 \<Rightarrow> u32" where
  "encode_r opcode rd funct3 rs1 rs2 funct7 =
     push_bit 25 (ucast funct7) OR push_bit 20 (ucast rs2) OR push_bit 15 (ucast rs1) OR
     push_bit 12 (ucast funct3) OR push_bit 7 (ucast rd) OR ucast opcode"

definition encode_i :: "u8 \<Rightarrow> u8 \<Rightarrow> u8 \<Rightarrow> u8 \<Rightarrow> u32 \<Rightarrow> u32" where
  "encode_i opcode rd funct3 rs1 imm =
     push_bit 20 (imm AND 0xfff) OR push_bit 15 (ucast rs1) OR
     push_bit 12 (ucast funct3) OR push_bit 7 (ucast rd) OR ucast opcode"

definition encode_s :: "u8 \<Rightarrow> u8 \<Rightarrow> u8 \<Rightarrow> u8 \<Rightarrow> u32 \<Rightarrow> u32" where
  "encode_s opcode funct3 rs1 rs2 imm =
     (let encoded = imm AND 0xfff
      in push_bit 25 (drop_bit 5 encoded) OR push_bit 20 (ucast rs2) OR
         push_bit 15 (ucast rs1) OR push_bit 12 (ucast funct3) OR
         push_bit 7 (encoded AND 0x1f) OR ucast opcode)"

definition encode_b :: "u8 \<Rightarrow> u8 \<Rightarrow> u8 \<Rightarrow> u32 \<Rightarrow> u32" where
  "encode_b funct3 rs1 rs2 imm =
     (let encoded = imm AND 0x1fff
      in push_bit 31 (drop_bit 12 encoded AND 0x1) OR
         push_bit 25 (drop_bit 5 encoded AND 0x3f) OR
         push_bit 20 (ucast rs2) OR push_bit 15 (ucast rs1) OR push_bit 12 (ucast funct3) OR
         push_bit 8 (drop_bit 1 encoded AND 0xf) OR
         push_bit 7 (drop_bit 11 encoded AND 0x1) OR 0x63)"

definition encode_u :: "u8 \<Rightarrow> u8 \<Rightarrow> u32 \<Rightarrow> u32" where
  "encode_u opcode rd imm = (imm AND 0xfffff000) OR push_bit 7 (ucast rd) OR ucast opcode"

definition encode_j :: "u8 \<Rightarrow> u32 \<Rightarrow> u32" where
  "encode_j rd imm =
     (let encoded = imm AND 0x1fffff
      in push_bit 31 (drop_bit 20 encoded AND 0x1) OR
         push_bit 21 (drop_bit 1 encoded AND 0x3ff) OR
         push_bit 20 (drop_bit 11 encoded AND 0x1) OR
         push_bit 12 (drop_bit 12 encoded AND 0xff) OR
         push_bit 7 (ucast rd) OR 0x6f)"

definition encode_csr :: "u8 \<Rightarrow> u8 \<Rightarrow> u8 \<Rightarrow> u16 \<Rightarrow> u32" where
  "encode_csr rd funct3 rs1 address =
     push_bit 20 (ucast address) OR push_bit 15 (ucast rs1) OR
     push_bit 12 (ucast funct3) OR push_bit 7 (ucast rd) OR 0x73"

definition encode_sfence_vma :: "u8 \<Rightarrow> u8 \<Rightarrow> u32" where
  "encode_sfence_vma rs1 rs2 =
     0x12000073 OR push_bit 15 (ucast rs1) OR push_bit 20 (ucast rs2)"

text \<open>
  The encoding of a decoded instruction, from its operation and operands alone (never
  from the \<open>di_raw\<close> field): the RV64I opcode map of the ISA manual over the formats
  above. \<^verbatim>\<open>FENCE\<close> keeps its predecessor and successor sets in the bits the
  \<open>di_csr\<close> field copies.
\<close>

fun encode :: "Operation \<Rightarrow> u8 \<Rightarrow> u8 \<Rightarrow> u8 \<Rightarrow> u32 \<Rightarrow> u16 \<Rightarrow> u32" where
  "encode Lui rd rs1 rs2 imm csr = encode_u 0x37 rd imm"
| "encode Auipc rd rs1 rs2 imm csr = encode_u 0x17 rd imm"
| "encode Jal rd rs1 rs2 imm csr = encode_j rd imm"
| "encode Jalr rd rs1 rs2 imm csr = encode_i 0x67 rd 0 rs1 imm"
| "encode Beq rd rs1 rs2 imm csr = encode_b 0 rs1 rs2 imm"
| "encode Bne rd rs1 rs2 imm csr = encode_b 1 rs1 rs2 imm"
| "encode Blt rd rs1 rs2 imm csr = encode_b 4 rs1 rs2 imm"
| "encode Bge rd rs1 rs2 imm csr = encode_b 5 rs1 rs2 imm"
| "encode Bltu rd rs1 rs2 imm csr = encode_b 6 rs1 rs2 imm"
| "encode Bgeu rd rs1 rs2 imm csr = encode_b 7 rs1 rs2 imm"
| "encode Lb rd rs1 rs2 imm csr = encode_i 0x03 rd 0 rs1 imm"
| "encode Lh rd rs1 rs2 imm csr = encode_i 0x03 rd 1 rs1 imm"
| "encode Lw rd rs1 rs2 imm csr = encode_i 0x03 rd 2 rs1 imm"
| "encode Ld rd rs1 rs2 imm csr = encode_i 0x03 rd 3 rs1 imm"
| "encode Lbu rd rs1 rs2 imm csr = encode_i 0x03 rd 4 rs1 imm"
| "encode Lhu rd rs1 rs2 imm csr = encode_i 0x03 rd 5 rs1 imm"
| "encode Lwu rd rs1 rs2 imm csr = encode_i 0x03 rd 6 rs1 imm"
| "encode Sb rd rs1 rs2 imm csr = encode_s 0x23 0 rs1 rs2 imm"
| "encode Sh rd rs1 rs2 imm csr = encode_s 0x23 1 rs1 rs2 imm"
| "encode Sw rd rs1 rs2 imm csr = encode_s 0x23 2 rs1 rs2 imm"
| "encode Sd rd rs1 rs2 imm csr = encode_s 0x23 3 rs1 rs2 imm"
| "encode Addi rd rs1 rs2 imm csr = encode_i 0x13 rd 0 rs1 imm"
| "encode Slti rd rs1 rs2 imm csr = encode_i 0x13 rd 2 rs1 imm"
| "encode Sltiu rd rs1 rs2 imm csr = encode_i 0x13 rd 3 rs1 imm"
| "encode Xori rd rs1 rs2 imm csr = encode_i 0x13 rd 4 rs1 imm"
| "encode Ori rd rs1 rs2 imm csr = encode_i 0x13 rd 6 rs1 imm"
| "encode Andi rd rs1 rs2 imm csr = encode_i 0x13 rd 7 rs1 imm"
| "encode Slli rd rs1 rs2 imm csr = encode_i 0x13 rd 1 rs1 imm"
| "encode Srli rd rs1 rs2 imm csr = encode_i 0x13 rd 5 rs1 imm"
| "encode Srai rd rs1 rs2 imm csr = encode_i 0x13 rd 5 rs1 (0x400 OR imm)"
| "encode Add rd rs1 rs2 imm csr = encode_r 0x33 rd 0 rs1 rs2 0"
| "encode Sub rd rs1 rs2 imm csr = encode_r 0x33 rd 0 rs1 rs2 0x20"
| "encode Sll rd rs1 rs2 imm csr = encode_r 0x33 rd 1 rs1 rs2 0"
| "encode Slt rd rs1 rs2 imm csr = encode_r 0x33 rd 2 rs1 rs2 0"
| "encode Sltu rd rs1 rs2 imm csr = encode_r 0x33 rd 3 rs1 rs2 0"
| "encode Xor rd rs1 rs2 imm csr = encode_r 0x33 rd 4 rs1 rs2 0"
| "encode Srl rd rs1 rs2 imm csr = encode_r 0x33 rd 5 rs1 rs2 0"
| "encode Sra rd rs1 rs2 imm csr = encode_r 0x33 rd 5 rs1 rs2 0x20"
| "encode Or rd rs1 rs2 imm csr = encode_r 0x33 rd 6 rs1 rs2 0"
| "encode And rd rs1 rs2 imm csr = encode_r 0x33 rd 7 rs1 rs2 0"
| "encode Addiw rd rs1 rs2 imm csr = encode_i 0x1b rd 0 rs1 imm"
| "encode Slliw rd rs1 rs2 imm csr = encode_i 0x1b rd 1 rs1 imm"
| "encode Srliw rd rs1 rs2 imm csr = encode_i 0x1b rd 5 rs1 imm"
| "encode Sraiw rd rs1 rs2 imm csr = encode_i 0x1b rd 5 rs1 (0x400 OR imm)"
| "encode Addw rd rs1 rs2 imm csr = encode_r 0x3b rd 0 rs1 rs2 0"
| "encode Subw rd rs1 rs2 imm csr = encode_r 0x3b rd 0 rs1 rs2 0x20"
| "encode Sllw rd rs1 rs2 imm csr = encode_r 0x3b rd 1 rs1 rs2 0"
| "encode Srlw rd rs1 rs2 imm csr = encode_r 0x3b rd 5 rs1 rs2 0"
| "encode Sraw rd rs1 rs2 imm csr = encode_r 0x3b rd 5 rs1 rs2 0x20"
| "encode Fence rd rs1 rs2 imm csr = encode_i 0x0f rd 0 rs1 (ucast csr)"
| "encode FenceI rd rs1 rs2 imm csr = 0x0000100f"
| "encode SfenceVma rd rs1 rs2 imm csr = encode_sfence_vma rs1 rs2"
| "encode Ecall rd rs1 rs2 imm csr = 0x00000073"
| "encode Ebreak rd rs1 rs2 imm csr = 0x00100073"
| "encode Sret rd rs1 rs2 imm csr = 0x10200073"
| "encode Mret rd rs1 rs2 imm csr = 0x30200073"
| "encode Wfi rd rs1 rs2 imm csr = 0x10500073"
| "encode Csrrw rd rs1 rs2 imm csr = encode_csr rd 1 rs1 csr"
| "encode Csrrs rd rs1 rs2 imm csr = encode_csr rd 2 rs1 csr"
| "encode Csrrc rd rs1 rs2 imm csr = encode_csr rd 3 rs1 csr"
| "encode Csrrwi rd rs1 rs2 imm csr = encode_csr rd 5 rs1 csr"
| "encode Csrrsi rd rs1 rs2 imm csr = encode_csr rd 6 rs1 csr"
| "encode Csrrci rd rs1 rs2 imm csr = encode_csr rd 7 rs1 csr"

definition reencode :: "DecodedInstruction \<Rightarrow> u32" where
  "reencode d = encode (di_operation d) (di_rd d) (di_rs1 d) (di_rs2 d)
                  (ucast (di_immediate d)) (di_csr d)"

subsection \<open>Decoding is the inverse of encoding\<close>

lemma ucast_field5 [simp]: "ucast (field raw s 0x1f) = (drop_bit s raw AND 0x1f :: u32)"
  by (simp add: field_def u32_bitwise)

lemma ucast_field3: "ucast (field raw s 0x7) = (drop_bit s raw AND 0x7 :: u32)"
  by (simp add: field_def u32_bitwise)

lemma field3D: "field raw s 0x7 = f \<Longrightarrow> drop_bit s raw AND 0x7 = ucast f"
  using ucast_field3 [of raw s] by simp

text \<open>The six instruction formats, reassembled from the fields of a word.\<close>

lemma encode_r_format:
  "encode_r op (field raw 7 0x1f) f3 (field raw 15 0x1f) (field raw 20 0x1f) f7 = raw"
  if "raw AND 0x7f = ucast op" "drop_bit 12 raw AND 0x7 = ucast f3" "drop_bit 25 raw = ucast f7"
  unfolding encode_r_def ucast_field5 that [symmetric] by (simp add: u32_bitwise)

lemma encode_i_format: "encode_i op (field raw 7 0x1f) f3 (field raw 15 0x1f) imm = raw"
  if "raw AND 0x7f = ucast op" "drop_bit 12 raw AND 0x7 = ucast f3"
    "imm AND 0xfff = drop_bit 20 raw"
  unfolding encode_i_def ucast_field5 that(3) that(1,2) [symmetric] by (simp add: u32_bitwise)

lemma encode_s_format:
  "encode_s op f3 (field raw 15 0x1f) (field raw 20 0x1f) (ucast (immediate_s raw)) = raw"
  if "raw AND 0x7f = ucast op" "drop_bit 12 raw AND 0x7 = ucast f3"
  unfolding encode_s_def ucast_field5 that [symmetric] Let_def
  by (simp add: immediate_s_def sign_extend_signed_take_bit u32_bitwise min_def)

lemma encode_b_format:
  "encode_b f3 (field raw 15 0x1f) (field raw 20 0x1f) (ucast (immediate_b raw)) = raw"
  if "raw AND 0x7f = 0x63" "drop_bit 12 raw AND 0x7 = ucast f3"
  unfolding encode_b_def ucast_field5 that [symmetric] Let_def
  by (simp add: immediate_b_def sign_extend_signed_take_bit u32_bitwise min_def)

lemma encode_u_format:
  "encode_u op (field raw 7 0x1f) (ucast (immediate_u raw)) = raw"
  if "raw AND 0x7f = ucast op"
  unfolding encode_u_def ucast_field5 that [symmetric]
  by (simp add: immediate_u_def sign_extend_signed_take_bit u32_bitwise min_def)

lemma encode_j_format: "encode_j (field raw 7 0x1f) (ucast (immediate_j raw)) = raw"
  if "raw AND 0x7f = 0x6f"
  unfolding encode_j_def ucast_field5 that [symmetric] Let_def
  by (simp add: immediate_j_def sign_extend_signed_take_bit u32_bitwise min_def)

lemma encode_csr_format:
  "encode_csr (field raw 7 0x1f) f3 (field raw 15 0x1f) (ucast (drop_bit 20 raw AND 0xfff)) = raw"
  if "raw AND 0x7f = 0x73" "drop_bit 12 raw AND 0x7 = ucast f3"
  unfolding encode_csr_def ucast_field5 that [symmetric] by (simp add: u32_bitwise)

lemma encode_sfence_format:
  "encode_sfence_vma (field raw 15 0x1f) (field raw 20 0x1f) = raw"
  if "raw AND 0xfe007fff = 0x12000073"
  unfolding encode_sfence_vma_def ucast_field5 that [symmetric] by (simp add: u32_bitwise)

text \<open>The twelve immediate bits that the I-format instructions put back.\<close>

lemma immediate_i_bits: "ucast (immediate_i raw) AND 0xfff = drop_bit 20 raw"
  by (simp add: immediate_i_def sign_extend_signed_take_bit u32_bitwise min_def)

lemma csr_bits: "ucast (ucast (drop_bit 20 raw AND 0xfff) :: u16) AND 0xfff = drop_bit 20 (raw :: u32)"
  by (simp add: u32_bitwise)

lemma shift6_bits:
  "(push_bit 6 hi OR ucast (ucast (drop_bit 20 raw AND 0x3f) :: i64)) AND 0xfff = drop_bit 20 (raw :: u32)"
  if "drop_bit 26 raw AND 0x3f = hi"
  unfolding that [symmetric] by (simp add: u32_bitwise)

lemma shift5_bits:
  "(push_bit 5 hi OR ucast (ucast (drop_bit 20 raw AND 0x1f) :: i64)) AND 0xfff = drop_bit 20 (raw :: u32)"
  if "drop_bit 25 raw = hi"
  unfolding that [symmetric] by (simp add: u32_bitwise)


lemma reencode_instruction:
  "reencode (instruction raw op imm) =
     encode op (field raw 7 0x1f) (field raw 15 0x1f) (field raw 20 0x1f) (ucast imm)
       (ucast (drop_bit 20 raw AND 0xfff))"
  by (simp add: reencode_def)

lemma decode_branch_encode:
  "decode_branch raw (field raw 12 0x7) = Inr d \<Longrightarrow> raw AND 0x7f = 0x63 \<Longrightarrow> reencode d = raw"
  by (cases rule: field3_cases [of raw 12])
    (auto simp: decode_branch_def reencode_instruction encode_b_format dest!: field3D)

lemma decode_load_encode:
  "decode_load raw (field raw 12 0x7) = Inr d \<Longrightarrow> raw AND 0x7f = 0x03 \<Longrightarrow> reencode d = raw"
  by (cases rule: field3_cases [of raw 12])
    (auto simp: decode_load_def reencode_instruction encode_i_format immediate_i_bits dest!: field3D)


lemma shift_bits:
  "drop_bit 26 raw AND 0x3f = 0 \<Longrightarrow>
     ucast (ucast (drop_bit 20 raw AND 0x3f) :: i64) AND 0xfff = drop_bit 20 (raw :: u32)"
  "drop_bit 26 raw AND 0x3f = 0x10 \<Longrightarrow>
     (0x400 OR ucast (ucast (drop_bit 20 raw AND 0x3f) :: i64)) AND 0xfff = drop_bit 20 (raw :: u32)"
  "drop_bit 25 raw = 0 \<Longrightarrow>
     ucast (ucast (drop_bit 20 raw AND 0x1f) :: i64) AND 0xfff = drop_bit 20 (raw :: u32)"
  "drop_bit 25 raw = 0x20 \<Longrightarrow>
     (0x400 OR ucast (ucast (drop_bit 20 raw AND 0x1f) :: i64)) AND 0xfff = drop_bit 20 (raw :: u32)"
  using shift6_bits [where raw = raw and hi = 0] shift6_bits [where raw = raw and hi = "0x10"]
    shift5_bits [where raw = raw and hi = 0] shift5_bits [where raw = raw and hi = "0x20"] by simp_all

lemma funct7_mask: "drop_bit 25 raw AND 0x7f = drop_bit 25 (raw :: u32)"
  by (simp add: u32_bitwise)

lemma decode_store_encode:
  "decode_store raw (field raw 12 0x7) = Inr d \<Longrightarrow> raw AND 0x7f = 0x23 \<Longrightarrow> reencode d = raw"
  by (cases rule: field3_cases [of raw 12])
    (auto simp: decode_store_def reencode_instruction encode_s_format dest!: field3D)

lemma decode_op_imm_encode:
  "decode_op_imm raw (field raw 12 0x7) = Inr d \<Longrightarrow> raw AND 0x7f = 0x13 \<Longrightarrow> reencode d = raw"
  by (cases rule: field3_cases [of raw 12])
    (auto simp: decode_op_imm_def reencode_instruction encode_i_format immediate_i_bits shift_bits
       Let_def dest!: field3D split: if_splits)

lemma decode_op_encode:
  "decode_op raw (field raw 12 0x7) = Inr d \<Longrightarrow> raw AND 0x7f = 0x33 \<Longrightarrow> reencode d = raw"
  by (cases rule: field3_cases [of raw 12])
    (auto simp: decode_op_def reencode_instruction encode_r_format funct7_mask Let_def
       dest!: field3D split: if_splits)

lemma decode_op_imm_32_encode:
  "decode_op_imm_32 raw (field raw 12 0x7) = Inr d \<Longrightarrow> raw AND 0x7f = 0x1b \<Longrightarrow> reencode d = raw"
  by (cases rule: field3_cases [of raw 12])
    (auto simp: decode_op_imm_32_def reencode_instruction encode_i_format immediate_i_bits
       shift_bits dest!: field3D split: if_splits)

lemma decode_op_32_encode:
  "decode_op_32 raw (field raw 12 0x7) = Inr d \<Longrightarrow> raw AND 0x7f = 0x3b \<Longrightarrow> reencode d = raw"
  by (cases rule: field3_cases [of raw 12])
    (auto simp: decode_op_32_def reencode_instruction encode_r_format Let_def
       dest!: field3D split: if_splits)

lemma decode_system_encode:
  "decode_system raw (field raw 12 0x7) = Inr d \<Longrightarrow> raw AND 0x7f = 0x73 \<Longrightarrow> reencode d = raw"
  by (cases rule: field3_cases [of raw 12])
    (auto simp: decode_system_def reencode_instruction encode_csr_format encode_sfence_format
       dest!: field3D split: if_splits)

lemmas decode_group_encode = decode_branch_encode decode_load_encode decode_store_encode
  decode_op_imm_encode decode_op_encode decode_op_imm_32_encode decode_op_32_encode
  decode_system_encode

text \<open>
  C14: the encoder is a left inverse of the decoder. Whatever instruction word the decoder
  accepts, encoding the operation and operands it found gives the very same word back, so no
  bit of an accepted word is ignored or misread.
\<close>

theorem decode_encode: "decode raw = Inr d \<Longrightarrow> reencode d = raw"
  by (auto simp: decode_def Let_def reencode_instruction encode_u_format encode_j_format
      encode_i_format immediate_i_bits csr_bits dest!: decode_group_encode field3D split: if_splits)

lemma decode_encode_witness:
  "\<exists>d. decode 0x00500093 = Inr d \<and> di_operation d = Addi \<and> reencode d = 0x00500093"
proof -
  define d where "d = instruction 0x00500093 Addi 5"
  have "decode 0x00500093 = Inr d" unfolding d_def by code_simp
  moreover have "di_operation d = Addi" by (simp add: d_def instruction_def)
  ultimately show ?thesis using decode_encode [of "0x00500093" d] by blast
qed

subsection \<open>Every instruction is decoded back from its encoding\<close>

datatype Format = FormatR | FormatI | FormatShift6 | FormatShift5 | FormatS | FormatB | FormatU
  | FormatJ | FormatCsr | FormatFence | FormatSfence | FormatFixed

definition op_format :: "Operation \<Rightarrow> Format" where
  "op_format op =
     (if op \<in> {Lui, Auipc} then FormatU
      else if op = Jal then FormatJ
      else if op \<in> {Jalr, Lb, Lh, Lw, Ld, Lbu, Lhu, Lwu, Addi, Slti, Sltiu, Xori, Ori, Andi, Addiw}
        then FormatI
      else if op \<in> {Beq, Bne, Blt, Bge, Bltu, Bgeu} then FormatB
      else if op \<in> {Sb, Sh, Sw, Sd} then FormatS
      else if op \<in> {Slli, Srli, Srai} then FormatShift6
      else if op \<in> {Slliw, Srliw, Sraiw} then FormatShift5
      else if op \<in> {Csrrw, Csrrs, Csrrc, Csrrwi, Csrrsi, Csrrci} then FormatCsr
      else if op = Fence then FormatFence
      else if op = SfenceVma then FormatSfence
      else if op \<in> {FenceI, Ecall, Ebreak, Sret, Mret, Wfi} then FormatFixed
      else FormatR)"

text \<open>The operands a format can carry, and the operands a decoded instruction carries back.\<close>

fun operands_ok :: "Format \<Rightarrow> u8 \<Rightarrow> u8 \<Rightarrow> u8 \<Rightarrow> i64 \<Rightarrow> u16 \<Rightarrow> bool" where
  "operands_ok FormatR rd rs1 rs2 imm csr \<longleftrightarrow> rd < 32 \<and> rs1 < 32 \<and> rs2 < 32 \<and> imm = 0"
| "operands_ok FormatI rd rs1 rs2 imm csr \<longleftrightarrow> rd < 32 \<and> rs1 < 32 \<and> -2048 \<le> sint imm \<and> sint imm < 2048"
| "operands_ok FormatShift6 rd rs1 rs2 imm csr \<longleftrightarrow> rd < 32 \<and> rs1 < 32 \<and> imm < 64"
| "operands_ok FormatShift5 rd rs1 rs2 imm csr \<longleftrightarrow> rd < 32 \<and> rs1 < 32 \<and> imm < 32"
| "operands_ok FormatS rd rs1 rs2 imm csr \<longleftrightarrow> rs1 < 32 \<and> rs2 < 32 \<and> -2048 \<le> sint imm \<and> sint imm < 2048"
| "operands_ok FormatB rd rs1 rs2 imm csr \<longleftrightarrow>
     rs1 < 32 \<and> rs2 < 32 \<and> -4096 \<le> sint imm \<and> sint imm < 4096 \<and> even (sint imm)"
| "operands_ok FormatU rd rs1 rs2 imm csr \<longleftrightarrow>
     rd < 32 \<and> - (2 ^ 31) \<le> sint imm \<and> sint imm < 2 ^ 31 \<and> 4096 dvd sint imm"
| "operands_ok FormatJ rd rs1 rs2 imm csr \<longleftrightarrow>
     rd < 32 \<and> - (2 ^ 20) \<le> sint imm \<and> sint imm < 2 ^ 20 \<and> even (sint imm)"
| "operands_ok FormatCsr rd rs1 rs2 imm csr \<longleftrightarrow> rd < 32 \<and> rs1 < 32 \<and> csr < 4096 \<and> imm = 0"
| "operands_ok FormatFence rd rs1 rs2 imm csr \<longleftrightarrow> rd < 32 \<and> rs1 < 32 \<and> csr < 4096 \<and> imm = 0"
| "operands_ok FormatSfence rd rs1 rs2 imm csr \<longleftrightarrow> rs1 < 32 \<and> rs2 < 32 \<and> imm = 0"
| "operands_ok FormatFixed rd rs1 rs2 imm csr \<longleftrightarrow> imm = 0"

fun operands_agree :: "Format \<Rightarrow> DecodedInstruction \<Rightarrow> u8 \<Rightarrow> u8 \<Rightarrow> u8 \<Rightarrow> u16 \<Rightarrow> bool" where
  "operands_agree FormatR d rd rs1 rs2 csr \<longleftrightarrow> di_rd d = rd \<and> di_rs1 d = rs1 \<and> di_rs2 d = rs2"
| "operands_agree FormatI d rd rs1 rs2 csr \<longleftrightarrow> di_rd d = rd \<and> di_rs1 d = rs1"
| "operands_agree FormatShift6 d rd rs1 rs2 csr \<longleftrightarrow> di_rd d = rd \<and> di_rs1 d = rs1"
| "operands_agree FormatShift5 d rd rs1 rs2 csr \<longleftrightarrow> di_rd d = rd \<and> di_rs1 d = rs1"
| "operands_agree FormatS d rd rs1 rs2 csr \<longleftrightarrow> di_rs1 d = rs1 \<and> di_rs2 d = rs2"
| "operands_agree FormatB d rd rs1 rs2 csr \<longleftrightarrow> di_rs1 d = rs1 \<and> di_rs2 d = rs2"
| "operands_agree FormatU d rd rs1 rs2 csr \<longleftrightarrow> di_rd d = rd"
| "operands_agree FormatJ d rd rs1 rs2 csr \<longleftrightarrow> di_rd d = rd"
| "operands_agree FormatCsr d rd rs1 rs2 csr \<longleftrightarrow> di_rd d = rd \<and> di_rs1 d = rs1 \<and> di_csr d = csr"
| "operands_agree FormatFence d rd rs1 rs2 csr \<longleftrightarrow> di_rd d = rd \<and> di_rs1 d = rs1 \<and> di_csr d = csr"
| "operands_agree FormatSfence d rd rs1 rs2 csr \<longleftrightarrow> di_rs1 d = rs1 \<and> di_rs2 d = rs2"
| "operands_agree FormatFixed d rd rs1 rs2 csr \<longleftrightarrow> True"


lemma bit_sint_dvd: "2 ^ k dvd sint (w :: i64) \<Longrightarrow> n < k \<Longrightarrow> n < 64 \<Longrightarrow> \<not> bit w n"
proof -
  assume d: "2 ^ k dvd sint w" "n < k" "n < 64"
  then obtain z where "sint w = push_bit k z" by (auto simp: push_bit_eq_mult mult.commute elim: dvdE)
  then have "\<not> bit (sint w) n" using d(2) by (simp add: bit_simps)
  with d(3) show ?thesis by (simp add: bit_sint_iff min_def)
qed

lemma take_bit_eq_iff_bits32:
  "k \<le> 32 \<Longrightarrow> take_bit k a = take_bit k b \<longleftrightarrow> (\<forall>n<32. n < k \<longrightarrow> bit a n = bit b n)" for a b :: u64
proof
  assume "take_bit k a = take_bit k b"
  then show "\<forall>n<32. n < k \<longrightarrow> bit a n = bit b n" by (metis bit_take_bit_iff)
qed (auto intro!: bit_word_eqI simp: bit_take_bit_iff)

lemmas immediate_bits = sign_extend_signed_take_bit signed_take_bit_eq_iff_take_bit_eq
  take_bit_eq_iff_bits32 all_less_32 bit_simps bit_times_two_iff bit_beyond

lemma u8_less_bits:
  "r < 32 \<Longrightarrow> \<not> bit (r :: u8) 5 \<and> \<not> bit r 6 \<and> \<not> bit r 7"
  "f AND 0x7 = f \<Longrightarrow> \<not> bit (f :: u8) 3 \<and> \<not> bit f 4 \<and> \<not> bit f 5 \<and> \<not> bit f 6 \<and> \<not> bit f 7"
  using word_less_exp_iff [of 5 r]
  by (simp_all add: u8_eq_iff_bits all_less_8 bit_simps)

lemma encode_r_fields:
  fixes op rd f3 rs1 rs2 f7 :: u8
  assumes "\<not> bit op 7" "f3 AND 0x7 = f3" "rd < 32" "rs1 < 32" "rs2 < 32" "\<not> bit f7 7"
  defines "raw \<equiv> encode_r op rd f3 rs1 rs2 f7"
  shows "raw AND 0x7f = ucast op" "raw AND 0x3 = ucast op AND 0x3" "field raw 12 0x7 = f3" "field raw 7 0x1f = rd"
    "field raw 15 0x1f = rs1" "field raw 20 0x1f = rs2" "drop_bit 25 raw = ucast f7"
  using assms(1,6) u8_less_bits(1) [OF assms(3)] u8_less_bits(1) [OF assms(4)]
    u8_less_bits(1) [OF assms(5)] u8_less_bits(2) [OF assms(2)]
  by (simp_all add: raw_def encode_r_def field_def u8_eq_iff_bits all_less_8 u32_bitwise)

lemma encode_i_fields:
  fixes op rd f3 rs1 :: u8 and imm :: u32
  assumes "\<not> bit op 7" "f3 AND 0x7 = f3" "rd < 32" "rs1 < 32"
  defines "raw \<equiv> encode_i op rd f3 rs1 imm"
  shows "raw AND 0x7f = ucast op" "raw AND 0x3 = ucast op AND 0x3" "field raw 12 0x7 = f3" "field raw 7 0x1f = rd"
    "field raw 15 0x1f = rs1" "drop_bit 20 raw = imm AND 0xfff"
  using assms(1) u8_less_bits(1) [OF assms(3)] u8_less_bits(1) [OF assms(4)]
    u8_less_bits(2) [OF assms(2)]
  by (simp_all add: raw_def encode_i_def field_def u8_eq_iff_bits all_less_8 u32_bitwise)

lemma encode_s_fields:
  fixes op f3 rs1 rs2 :: u8 and imm :: i64
  assumes "\<not> bit op 7" "f3 AND 0x7 = f3" "rs1 < 32" "rs2 < 32"
  defines "raw \<equiv> encode_s op f3 rs1 rs2 (ucast imm)"
  shows "raw AND 0x7f = ucast op" "raw AND 0x3 = ucast op AND 0x3" "field raw 12 0x7 = f3"
    "field raw 15 0x1f = rs1" "field raw 20 0x1f = rs2"
    "immediate_s raw = signed_take_bit 11 imm"
  using assms(1) u8_less_bits(1) [OF assms(3)] u8_less_bits(1) [OF assms(4)]
    u8_less_bits(2) [OF assms(2)]
  by (simp_all add: raw_def encode_s_def field_def u8_eq_iff_bits all_less_8 u32_bitwise
      immediate_s_def immediate_bits Let_def)

lemma encode_b_fields:
  fixes f3 rs1 rs2 :: u8 and imm :: i64
  assumes "f3 AND 0x7 = f3" "rs1 < 32" "rs2 < 32" "\<not> bit imm 0"
  defines "raw \<equiv> encode_b f3 rs1 rs2 (ucast imm)"
  shows "raw AND 0x7f = 0x63" "raw AND 0x3 = 0x3" "field raw 12 0x7 = f3"
    "field raw 15 0x1f = rs1" "field raw 20 0x1f = rs2"
    "immediate_b raw = signed_take_bit 12 imm"
  using assms(4) u8_less_bits(1) [OF assms(2)] u8_less_bits(1) [OF assms(3)]
    u8_less_bits(2) [OF assms(1)]
  by (simp_all add: raw_def encode_b_def field_def u8_eq_iff_bits all_less_8 u32_bitwise
      immediate_b_def immediate_bits Let_def flip: numeral_2_eq_2)

lemma encode_u_fields:
  fixes op rd :: u8 and imm :: i64
  assumes "\<not> bit op 7" "rd < 32" "\<forall>n<12. \<not> bit imm n"
  defines "raw \<equiv> encode_u op rd (ucast imm)"
  shows "raw AND 0x7f = ucast op" "raw AND 0x3 = ucast op AND 0x3" "field raw 7 0x1f = rd"
    "immediate_u raw = signed_take_bit 31 imm"
  using assms(1,3) u8_less_bits(1) [OF assms(2)]
  by (simp_all add: raw_def encode_u_def field_def u8_eq_iff_bits all_less_8 u32_bitwise
      immediate_u_def immediate_bits)

lemma encode_j_fields:
  fixes rd :: u8 and imm :: i64
  assumes "rd < 32" "\<not> bit imm 0"
  defines "raw \<equiv> encode_j rd (ucast imm)"
  shows "raw AND 0x7f = 0x6f" "raw AND 0x3 = 0x3" "field raw 7 0x1f = rd"
    "immediate_j raw = signed_take_bit 20 imm"
  using assms(2) u8_less_bits(1) [OF assms(1)]
  by (simp_all add: raw_def encode_j_def field_def u8_eq_iff_bits all_less_8 u32_bitwise
      immediate_j_def immediate_bits Let_def flip: numeral_2_eq_2)


lemma u16_less_bits:
  "c < 4096 \<Longrightarrow> \<not> bit (c :: u16) 12 \<and> \<not> bit c 13 \<and> \<not> bit c 14 \<and> \<not> bit c 15"
  using word_less_exp_iff [of 12 c] by (simp add: u16_eq_iff_bits all_less_16 bit_simps)

lemma encode_csr_fields:
  fixes rd f3 rs1 :: u8 and csr :: u16
  assumes "f3 AND 0x7 = f3" "rd < 32" "rs1 < 32" "csr < 4096"
  defines "raw \<equiv> encode_csr rd f3 rs1 csr"
  shows "raw AND 0x7f = 0x73" "raw AND 0x3 = 0x3" "field raw 12 0x7 = f3" "field raw 7 0x1f = rd"
    "field raw 15 0x1f = rs1" "ucast (drop_bit 20 raw AND 0xfff) = csr"
  using u8_less_bits(1) [OF assms(2)] u8_less_bits(1) [OF assms(3)] u8_less_bits(2) [OF assms(1)]
    u16_less_bits [OF assms(4)]
  by (simp_all add: raw_def encode_csr_def field_def u8_eq_iff_bits all_less_8
      u16_eq_iff_bits all_less_16 u32_bitwise)

lemma encode_sfence_fields:
  fixes rs1 rs2 :: u8
  assumes "rs1 < 32" "rs2 < 32"
  defines "raw \<equiv> encode_sfence_vma rs1 rs2"
  shows "raw AND 0x7f = 0x73" "raw AND 0x3 = 0x3" "raw AND 0xfe007fff = 0x12000073" "field raw 12 0x7 = 0"
    "field raw 15 0x1f = rs1" "field raw 20 0x1f = rs2"
  using u8_less_bits(1) [OF assms(1)] u8_less_bits(1) [OF assms(2)]
  by (simp_all add: raw_def encode_sfence_vma_def field_def u8_eq_iff_bits all_less_8 u32_bitwise)

lemma operands_imm:
  "-2048 \<le> sint imm \<Longrightarrow> sint imm < 2048 \<Longrightarrow> signed_take_bit 11 imm = imm"
  "-4096 \<le> sint imm \<Longrightarrow> sint imm < 4096 \<Longrightarrow> signed_take_bit 12 imm = imm"
  "- (2 ^ 31) \<le> sint imm \<Longrightarrow> sint imm < 2 ^ 31 \<Longrightarrow> signed_take_bit 31 imm = imm"
  "- (2 ^ 20) \<le> sint imm \<Longrightarrow> sint imm < 2 ^ 20 \<Longrightarrow> signed_take_bit 20 imm = imm"
  for imm :: i64
  by (simp_all add: signed_take_bit_eq_self_iff)

lemma immediate_i_encode:
  "drop_bit 20 raw = ucast imm AND 0xfff \<Longrightarrow> immediate_i raw = signed_take_bit 11 imm"
  for imm :: i64
  by (simp add: immediate_i_def immediate_bits)


lemma fence_csr_bits:
  "csr < 4096 \<Longrightarrow> ucast ((ucast csr :: u32) AND 0xfff) = (csr :: u16)"
  using u16_less_bits [of csr]
  by (simp add: u16_eq_iff_bits all_less_16 bit_simps bit_beyond)

lemma shift_imm_bits:
  "imm < 64 \<Longrightarrow> 6 \<le> n \<Longrightarrow> \<not> bit (imm :: i64) n"
  "imm < 32 \<Longrightarrow> 5 \<le> n \<Longrightarrow> \<not> bit (imm :: i64) n"
  using less_exp_not_bit [of imm 6 n] less_exp_not_bit [of imm 5 n] by simp_all

lemma shift_imm_back:
  "imm < 64 \<Longrightarrow> ucast (ucast imm AND 0x3f :: u32) = (imm :: i64)"
  "imm < 32 \<Longrightarrow> ucast (ucast imm AND 0x1f :: u32) = (imm :: i64)"
proof -
  have m: "(0x3f :: u32) = mask 6" "(0x1f :: u32) = mask 5"
    by (simp_all add: mask_eq_exp_minus_1)
  show "imm < 64 \<Longrightarrow> ucast (ucast imm AND 0x3f :: u32) = imm"
    unfolding m by (rule bit_word_eqI) (use shift_imm_bits(1) [of imm] in \<open>auto simp: bit_simps not_le [symmetric]\<close>)
  show "imm < 32 \<Longrightarrow> ucast (ucast imm AND 0x1f :: u32) = imm"
    unfolding m by (rule bit_word_eqI) (use shift_imm_bits(2) [of imm] in \<open>auto simp: bit_simps not_le [symmetric]\<close>)
qed

lemma encode_shift6_fields:
  fixes rd f3 rs1 :: u8 and imm :: i64
  assumes "\<not> bit op 7" "f3 AND 0x7 = f3" "rd < 32" "rs1 < 32" "imm < 64"
  shows "drop_bit 26 (encode_i op rd f3 rs1 (ucast imm)) = 0"
    "drop_bit 26 (encode_i op rd f3 rs1 (0x400 OR ucast imm)) = 0x10"
    "drop_bit 20 (encode_i op rd f3 rs1 (ucast imm)) AND 0x3f = ucast imm AND 0x3f"
    "drop_bit 20 (encode_i op rd f3 rs1 (0x400 OR ucast imm)) AND 0x3f = ucast imm AND 0x3f"
  using assms(1) u8_less_bits(1) [OF assms(3)] u8_less_bits(1) [OF assms(4)]
    u8_less_bits(2) [OF assms(2)] shift_imm_bits(1) [OF assms(5)]
  by (simp_all add: encode_i_def u32_bitwise)

lemma encode_shift5_fields:
  fixes rd f3 rs1 :: u8 and imm :: i64
  assumes "\<not> bit op 7" "f3 AND 0x7 = f3" "rd < 32" "rs1 < 32" "imm < 32"
  shows "drop_bit 25 (encode_i op rd f3 rs1 (ucast imm)) = 0"
    "drop_bit 25 (encode_i op rd f3 rs1 (0x400 OR ucast imm)) = 0x20"
    "drop_bit 20 (encode_i op rd f3 rs1 (ucast imm)) AND 0x1f = ucast imm AND 0x1f"
    "drop_bit 20 (encode_i op rd f3 rs1 (0x400 OR ucast imm)) AND 0x1f = ucast imm AND 0x1f"
  using assms(1) u8_less_bits(1) [OF assms(3)] u8_less_bits(1) [OF assms(4)]
    u8_less_bits(2) [OF assms(2)] shift_imm_bits(2) [OF assms(5)]
  by (simp_all add: encode_i_def u32_bitwise)

text \<open>The dispatch on the opcode, one equation per group.\<close>

lemma decode_dispatch:
  fixes raw :: u32
  assumes "raw AND 0x3 = 0x3"
  shows "raw AND 0x7f = 0x37 \<Longrightarrow> decode raw = ok raw Lui (immediate_u raw)"
    and "raw AND 0x7f = 0x17 \<Longrightarrow> decode raw = ok raw Auipc (immediate_u raw)"
    and "raw AND 0x7f = 0x6f \<Longrightarrow> decode raw = ok raw Jal (immediate_j raw)"
    and "raw AND 0x7f = 0x67 \<Longrightarrow> field raw 12 0x7 = 0 \<Longrightarrow> decode raw = ok raw Jalr (immediate_i raw)"
    and "raw AND 0x7f = 0x63 \<Longrightarrow> decode raw = decode_branch raw (field raw 12 0x7)"
    and "raw AND 0x7f = 0x03 \<Longrightarrow> decode raw = decode_load raw (field raw 12 0x7)"
    and "raw AND 0x7f = 0x23 \<Longrightarrow> decode raw = decode_store raw (field raw 12 0x7)"
    and "raw AND 0x7f = 0x13 \<Longrightarrow> decode raw = decode_op_imm raw (field raw 12 0x7)"
    and "raw AND 0x7f = 0x33 \<Longrightarrow> decode raw = decode_op raw (field raw 12 0x7)"
    and "raw AND 0x7f = 0x1b \<Longrightarrow> decode raw = decode_op_imm_32 raw (field raw 12 0x7)"
    and "raw AND 0x7f = 0x3b \<Longrightarrow> decode raw = decode_op_32 raw (field raw 12 0x7)"
    and "raw AND 0x7f = 0x0f \<Longrightarrow> field raw 12 0x7 = 0 \<Longrightarrow> decode raw = ok raw Fence 0"
    and "raw AND 0x7f = 0x73 \<Longrightarrow> decode raw = decode_system raw (field raw 12 0x7)"
  using assms by (simp_all add: decode_def Let_def)

lemma decode_encode_r:
  "rd < 32 \<Longrightarrow> rs1 < 32 \<Longrightarrow> rs2 < 32 \<Longrightarrow> f3 AND 0x7 = f3 \<Longrightarrow> \<not> bit f7 7 \<Longrightarrow>
   decode (encode_r 0x33 rd f3 rs1 rs2 f7) = decode_op (encode_r 0x33 rd f3 rs1 rs2 f7) f3"
  "rd < 32 \<Longrightarrow> rs1 < 32 \<Longrightarrow> rs2 < 32 \<Longrightarrow> f3 AND 0x7 = f3 \<Longrightarrow> \<not> bit f7 7 \<Longrightarrow>
   decode (encode_r 0x3b rd f3 rs1 rs2 f7) = decode_op_32 (encode_r 0x3b rd f3 rs1 rs2 f7) f3"
  by (simp_all add: decode_dispatch encode_r_fields)

lemma decode_encode_i:
  "rd < 32 \<Longrightarrow> rs1 < 32 \<Longrightarrow>
   decode (encode_i 0x67 rd 0 rs1 v) = ok (encode_i 0x67 rd 0 rs1 v) Jalr (immediate_i (encode_i 0x67 rd 0 rs1 v))"
  "rd < 32 \<Longrightarrow> rs1 < 32 \<Longrightarrow> f3 AND 0x7 = f3 \<Longrightarrow>
   decode (encode_i 0x03 rd f3 rs1 v) = decode_load (encode_i 0x03 rd f3 rs1 v) f3"
  "rd < 32 \<Longrightarrow> rs1 < 32 \<Longrightarrow> f3 AND 0x7 = f3 \<Longrightarrow>
   decode (encode_i 0x13 rd f3 rs1 v) = decode_op_imm (encode_i 0x13 rd f3 rs1 v) f3"
  "rd < 32 \<Longrightarrow> rs1 < 32 \<Longrightarrow> f3 AND 0x7 = f3 \<Longrightarrow>
   decode (encode_i 0x1b rd f3 rs1 v) = decode_op_imm_32 (encode_i 0x1b rd f3 rs1 v) f3"
  "rd < 32 \<Longrightarrow> rs1 < 32 \<Longrightarrow>
   decode (encode_i 0x0f rd 0 rs1 v) = ok (encode_i 0x0f rd 0 rs1 v) Fence 0"
  by (simp_all add: decode_dispatch encode_i_fields)

definition decodes_back :: "Operation \<Rightarrow> u8 \<Rightarrow> u8 \<Rightarrow> u8 \<Rightarrow> i64 \<Rightarrow> u16 \<Rightarrow> bool" where
  "decodes_back op rd rs1 rs2 imm csr \<longleftrightarrow>
     (case decode (encode op rd rs1 rs2 (ucast imm) csr) of
        Inl e \<Rightarrow> False
      | Inr d \<Rightarrow> di_operation d = op \<and> di_immediate d = imm \<and>
                 operands_agree (op_format op) d rd rs1 rs2 csr)"

lemma decodes_back_r:
  "op_format op = FormatR \<Longrightarrow> operands_ok FormatR rd rs1 rs2 imm csr \<Longrightarrow>
   decodes_back op rd rs1 rs2 imm csr"
  unfolding decodes_back_def
  by (cases op)
     (simp_all add: op_format_def decode_encode_r decode_op_def decode_op_32_def Let_def encode_r_fields)

lemma decodes_back_i:
  "op_format op = FormatI \<Longrightarrow> operands_ok FormatI rd rs1 rs2 imm csr \<Longrightarrow>
   decodes_back op rd rs1 rs2 imm csr"
  unfolding decodes_back_def
  by (cases op)
     (simp_all add: op_format_def decode_encode_i decode_load_def decode_op_imm_def
       decode_op_imm_32_def Let_def encode_i_fields immediate_i_encode operands_imm)

lemma decodes_back_s:
  "op_format op = FormatS \<Longrightarrow> operands_ok FormatS rd rs1 rs2 imm csr \<Longrightarrow>
   decodes_back op rd rs1 rs2 imm csr"
  unfolding decodes_back_def
  by (cases op)
     (simp_all add: op_format_def decode_dispatch decode_store_def
       Let_def encode_s_fields operands_imm)

lemma decodes_back_b:
  "op_format op = FormatB \<Longrightarrow> operands_ok FormatB rd rs1 rs2 imm csr \<Longrightarrow>
   decodes_back op rd rs1 rs2 imm csr"
  unfolding decodes_back_def
  using bit_sint_dvd [of 1 imm 0]
  by (cases op)
     (simp_all add: op_format_def decode_dispatch decode_branch_def
       Let_def encode_b_fields operands_imm)

lemma decodes_back_u:
  "op_format op = FormatU \<Longrightarrow> operands_ok FormatU rd rs1 rs2 imm csr \<Longrightarrow>
   decodes_back op rd rs1 rs2 imm csr"
  unfolding decodes_back_def
  using bit_sint_dvd [of 12 imm]
  by (cases op)
     (simp_all add: op_format_def decode_dispatch encode_u_fields operands_imm)

lemma decodes_back_j:
  "op_format op = FormatJ \<Longrightarrow> operands_ok FormatJ rd rs1 rs2 imm csr \<Longrightarrow>
   decodes_back op rd rs1 rs2 imm csr"
  unfolding decodes_back_def
  using bit_sint_dvd [of 1 imm 0]
  by (cases op)
     (simp_all add: op_format_def decode_dispatch encode_j_fields operands_imm)

lemma decodes_back_csr:
  "op_format op = FormatCsr \<Longrightarrow> operands_ok FormatCsr rd rs1 rs2 imm csr \<Longrightarrow>
   decodes_back op rd rs1 rs2 imm csr"
  unfolding decodes_back_def
  by (cases op)
     (simp_all add: op_format_def decode_dispatch decode_system_def encode_csr_fields)

lemma decodes_back_misc:
  "op_format op = FormatSfence \<Longrightarrow> operands_ok FormatSfence rd rs1 rs2 imm csr \<Longrightarrow>
   decodes_back op rd rs1 rs2 imm csr"
  "op_format op = FormatFixed \<Longrightarrow> operands_ok FormatFixed rd rs1 rs2 imm csr \<Longrightarrow>
   decodes_back op rd rs1 rs2 imm csr"
  "op_format op = FormatFence \<Longrightarrow> operands_ok FormatFence rd rs1 rs2 imm csr \<Longrightarrow>
   decodes_back op rd rs1 rs2 imm csr"
  unfolding decodes_back_def
  apply (cases op;
     simp add: op_format_def decode_dispatch decode_system_def encode_sfence_fields)
  apply (cases op;
     simp add: op_format_def decode_def decode_system_def Let_def field_def)
  apply (cases op;
     simp add: op_format_def decode_encode_i encode_i_fields fence_csr_bits)
  done


lemma decodes_back_shift6:
  "op_format op = FormatShift6 \<Longrightarrow> operands_ok FormatShift6 rd rs1 rs2 imm csr \<Longrightarrow>
   decodes_back op rd rs1 rs2 imm csr"
  unfolding decodes_back_def
  by (cases op)
     (simp_all add: op_format_def decode_encode_i decode_op_imm_def Let_def encode_i_fields(2-5)
       encode_shift6_fields shift_imm_back)

lemma decodes_back_shift5:
  "op_format op = FormatShift5 \<Longrightarrow> operands_ok FormatShift5 rd rs1 rs2 imm csr \<Longrightarrow>
   decodes_back op rd rs1 rs2 imm csr"
  unfolding decodes_back_def
  by (cases op)
     (simp_all add: op_format_def decode_encode_i decode_op_imm_32_def Let_def encode_i_fields(2-5)
       encode_shift5_fields shift_imm_back)

text \<open>
  C37: the decoder is a left inverse of the encoder. Every operation with operands that its
  format can carry is decoded from its encoding to the same operation and operands.
\<close>

theorem encode_decode:
  "operands_ok (op_format op) rd rs1 rs2 imm csr \<Longrightarrow> decodes_back op rd rs1 rs2 imm csr"
  by (cases "op_format op")
    (simp_all add: decodes_back_r decodes_back_i decodes_back_s decodes_back_b decodes_back_u
       decodes_back_j decodes_back_csr decodes_back_misc decodes_back_shift5 decodes_back_shift6
       del: operands_ok.simps)

lemma encode_decode_witness: "decodes_back Addi 1 2 0 (-16) 0 \<and> decodes_back Csrrw 5 6 0 0 0x300"
  using encode_decode [of Addi 1 2 0 "-16" 0] encode_decode [of Csrrw 5 6 0 0 "0x300"]
  by (simp add: op_format_def sign_extend_def Let_def)

end
