(* ===== verification/Text.thy ===== *)
theory Text
  imports Prelude "HOL-Library.Char_ord"
begin

text \<open>
  Number formatting of the C++ standard library, as the sources use it: decimal and
  lower-case hexadecimal digits, zero padding to a width (\<^verbatim>\<open>setw\<close>, \<^verbatim>\<open>setfill('0')\<close>), signed
  decimals. The lemmas give the value back from the digits.
\<close>

definition digit_char :: "nat \<Rightarrow> char" where
  "digit_char d = (if d < 10 then char_of (48 + d) else char_of (87 + d))"

definition digit_value :: "char \<Rightarrow> nat option" where
  "digit_value c =
     (let n = of_char c :: nat
      in if 48 \<le> n \<and> n \<le> 57 then Some (n - 48)
         else if 97 \<le> n \<and> n \<le> 122 then Some (n - 87)
         else if 65 \<le> n \<and> n \<le> 90 then Some (n - 55)
         else None)"

fun show_base :: "nat \<Rightarrow> nat \<Rightarrow> string" where
  "show_base b n =
     (if b < 2 \<or> n < b then [digit_char n] else show_base b (n div b) @ [digit_char (n mod b)])"

declare show_base.simps [simp del]

definition show_dec :: "nat \<Rightarrow> string" where
  "show_dec n = show_base 10 n"

definition show_hex :: "nat \<Rightarrow> string" where
  "show_hex n = show_base 16 n"

definition show_int :: "int \<Rightarrow> string" where
  "show_int i = (if i < 0 then ''-'' @ show_dec (nat (- i)) else show_dec (nat i))"

text \<open>\<^verbatim>\<open>std::setw(width) << std::setfill('0')\<close>: padding on the left, never a truncation.\<close>

definition pad_zero :: "nat \<Rightarrow> string \<Rightarrow> string" where
  "pad_zero width s = replicate (width - length s) (digit_char 0) @ s"

subsection \<open>Digits and their values\<close>

fun value_base :: "nat \<Rightarrow> nat \<Rightarrow> string \<Rightarrow> nat option" where
  "value_base b acc [] = Some acc"
| "value_base b acc (c # cs) =
     (case digit_value c of
        None \<Rightarrow> None
      | Some d \<Rightarrow> if d < b then value_base b (acc * b + d) cs else None)"

lemma digit_value_char: "d < 36 \<Longrightarrow> digit_value (digit_char d) = Some d"
  by (auto simp: digit_value_def digit_char_def Let_def)

lemma digit_char_inject: "d < 36 \<Longrightarrow> e < 36 \<Longrightarrow> digit_char d = digit_char e \<longleftrightarrow> d = e"
  by (metis digit_value_char option.inject)

lemma value_base_append:
  "value_base b acc (xs @ ys) = Option.bind (value_base b acc xs) (\<lambda>a. value_base b a ys)"
  by (induction xs arbitrary: acc) (auto split: option.split)

lemma value_show_base:
  "2 \<le> b \<Longrightarrow> b \<le> 36 \<Longrightarrow> value_base b 0 (show_base b n) = Some n"
proof (induction b n rule: show_base.induct)
  case (1 b n)
  show ?case
  proof (cases "n < b")
    case True
    with 1 show ?thesis by (simp add: show_base.simps [of b n] digit_value_char)
  next
    case False
    with 1 have "value_base b 0 (show_base b (n div b)) = Some (n div b)" by simp
    moreover have "digit_value (digit_char (n mod b)) = Some (n mod b)"
      using 1(2,3) mod_less_divisor [of b n] by (intro digit_value_char) linarith
    ultimately show ?thesis
      using False 1(2,3) by (simp add: show_base.simps [of b n] value_base_append)
  qed
qed

lemma show_base_nonempty [simp]: "show_base b n \<noteq> []"
  by (simp add: show_base.simps [of b n])

lemma value_base_zeros: "0 < b \<Longrightarrow> value_base b 0 (replicate k (digit_char 0) @ s) = value_base b 0 s"
  by (induction k) (simp_all add: digit_value_char)

lemma value_pad_zero: "0 < b \<Longrightarrow> value_base b 0 (pad_zero w s) = value_base b 0 s"
  by (simp add: pad_zero_def value_base_zeros)

lemma length_show_base:
  "2 \<le> b \<Longrightarrow> n < b ^ k \<Longrightarrow> 0 < k \<Longrightarrow> length (show_base b n) \<le> k"
proof (induction b n arbitrary: k rule: show_base.induct)
  case (1 b n)
  show ?case
  proof (cases "n < b")
    case True
    with 1 show ?thesis by (simp add: show_base.simps [of b n])
  next
    case False
    then obtain j where k: "k = Suc j" "0 < j"
      using 1 by (cases k; cases "k - 1") auto
    have "n div b < b ^ j" using 1(3) k by (simp add: less_mult_imp_div_less mult.commute)
    with 1 False k have "length (show_base b (n div b)) \<le> j" by simp
    with False 1 k show ?thesis by (simp add: show_base.simps [of b n])
  qed
qed

lemma length_pad_zero: "length (pad_zero w s) = max w (length s)"
  by (simp add: pad_zero_def)

lemma digit_char_set:
  "2 \<le> b \<Longrightarrow> b \<le> 36 \<Longrightarrow> set (show_base b n) \<subseteq> digit_char ` {..<b}"
proof (induction b n rule: show_base.induct)
  case (1 b n)
  then show ?case by (cases "n < b") (auto simp: show_base.simps [of b n])
qed

lemma set_pad_zero: "0 < b \<Longrightarrow> set s \<subseteq> digit_char ` {..<b} \<Longrightarrow> set (pad_zero w s) \<subseteq> digit_char ` {..<b}"
  by (auto simp: pad_zero_def)

end
