(* ===== verification/Disasm.thy ===== *)
theory Disasm
  imports Decode Text
begin

text \<open>
  The disassembler (\<^verbatim>\<open>operation_name\<close> and \<^verbatim>\<open>disassemble\<close> of \<^verbatim>\<open>decode.cpp\<close>), whose text goes
  into every execution record.
\<close>

fun operation_name :: "Operation \<Rightarrow> string" where
  "operation_name Lui = ''lui''"
| "operation_name Auipc = ''auipc''"
| "operation_name Jal = ''jal''"
| "operation_name Jalr = ''jalr''"
| "operation_name Beq = ''beq''"
| "operation_name Bne = ''bne''"
| "operation_name Blt = ''blt''"
| "operation_name Bge = ''bge''"
| "operation_name Bltu = ''bltu''"
| "operation_name Bgeu = ''bgeu''"
| "operation_name Lb = ''lb''"
| "operation_name Lh = ''lh''"
| "operation_name Lw = ''lw''"
| "operation_name Ld = ''ld''"
| "operation_name Lbu = ''lbu''"
| "operation_name Lhu = ''lhu''"
| "operation_name Lwu = ''lwu''"
| "operation_name Sb = ''sb''"
| "operation_name Sh = ''sh''"
| "operation_name Sw = ''sw''"
| "operation_name Sd = ''sd''"
| "operation_name Addi = ''addi''"
| "operation_name Slti = ''slti''"
| "operation_name Sltiu = ''sltiu''"
| "operation_name Xori = ''xori''"
| "operation_name Ori = ''ori''"
| "operation_name Andi = ''andi''"
| "operation_name Slli = ''slli''"
| "operation_name Srli = ''srli''"
| "operation_name Srai = ''srai''"
| "operation_name Add = ''add''"
| "operation_name Sub = ''sub''"
| "operation_name Sll = ''sll''"
| "operation_name Slt = ''slt''"
| "operation_name Sltu = ''sltu''"
| "operation_name Xor = ''xor''"
| "operation_name Srl = ''srl''"
| "operation_name Sra = ''sra''"
| "operation_name Or = ''or''"
| "operation_name And = ''and''"
| "operation_name Addiw = ''addiw''"
| "operation_name Slliw = ''slliw''"
| "operation_name Srliw = ''srliw''"
| "operation_name Sraiw = ''sraiw''"
| "operation_name Addw = ''addw''"
| "operation_name Subw = ''subw''"
| "operation_name Sllw = ''sllw''"
| "operation_name Srlw = ''srlw''"
| "operation_name Sraw = ''sraw''"
| "operation_name Fence = ''fence''"
| "operation_name FenceI = ''fence.i''"
| "operation_name SfenceVma = ''sfence.vma''"
| "operation_name Ecall = ''ecall''"
| "operation_name Ebreak = ''ebreak''"
| "operation_name Sret = ''sret''"
| "operation_name Mret = ''mret''"
| "operation_name Wfi = ''wfi''"
| "operation_name Csrrw = ''csrrw''"
| "operation_name Csrrs = ''csrrs''"
| "operation_name Csrrc = ''csrrc''"
| "operation_name Csrrwi = ''csrrwi''"
| "operation_name Csrrsi = ''csrrsi''"
| "operation_name Csrrci = ''csrrci''"

definition show_reg :: "u8 \<Rightarrow> string" where
  "show_reg r = ''x'' @ show_dec (unat r)"

definition operands_registers :: "DecodedInstruction \<Rightarrow> string" where
  "operands_registers decoded =
     '' '' @ show_reg (di_rd decoded) @ '', '' @ show_reg (di_rs1 decoded) @ '', '' @
     show_reg (di_rs2 decoded)"

definition operands_immediate :: "DecodedInstruction \<Rightarrow> string" where
  "operands_immediate decoded =
     '' '' @ show_reg (di_rd decoded) @ '', '' @ show_reg (di_rs1 decoded) @ '', '' @
     show_int (sint (di_immediate decoded))"

definition operands :: "DecodedInstruction \<Rightarrow> string" where
  "operands decoded =
     (let op = di_operation decoded;
          imm = show_int (sint (di_immediate decoded))
      in if op \<in> {Lui, Auipc} then '' '' @ show_reg (di_rd decoded) @ '', '' @ imm
         else if op = Jal then '' '' @ show_reg (di_rd decoded) @ '', '' @ imm
         else if op \<in> {Jalr, Addi, Slti, Sltiu, Xori, Ori, Andi, Slli, Srli, Srai, Addiw, Slliw,
                       Srliw, Sraiw} then operands_immediate decoded
         else if op \<in> {Lb, Lh, Lw, Ld, Lbu, Lhu, Lwu} then
           '' '' @ show_reg (di_rd decoded) @ '', '' @ imm @ ''('' @ show_reg (di_rs1 decoded) @ '')''
         else if op \<in> {Sb, Sh, Sw, Sd} then
           '' '' @ show_reg (di_rs2 decoded) @ '', '' @ imm @ ''('' @ show_reg (di_rs1 decoded) @ '')''
         else if op \<in> {Beq, Bne, Blt, Bge, Bltu, Bgeu} then
           '' '' @ show_reg (di_rs1 decoded) @ '', '' @ show_reg (di_rs2 decoded) @ '', '' @ imm
         else if op \<in> {Add, Sub, Sll, Slt, Sltu, Xor, Srl, Sra, Or, And, Addw, Subw, Sllw, Srlw,
                       Sraw} then operands_registers decoded
         else if op \<in> {Csrrw, Csrrs, Csrrc, Csrrwi, Csrrsi, Csrrci} then
           '' '' @ show_reg (di_rd decoded) @ '', 0x'' @ show_hex (unat (di_csr decoded)) @ '', '' @
           (if op = Csrrwi \<or> op = Csrrsi \<or> op = Csrrci then show_dec (unat (di_rs1 decoded))
            else ''x'' @ show_dec (unat (di_rs1 decoded)))
         else if op \<in> {Fence, FenceI, Ecall, Ebreak, Sret, Mret, Wfi} then []
         else '' '' @ show_reg (di_rs1 decoded) @ '', '' @ show_reg (di_rs2 decoded))"

definition disassemble :: "DecodedInstruction \<Rightarrow> string" where
  "disassemble decoded = operation_name (di_operation decoded) @ operands decoded"

end
