(* ===== verification/Trace.thy ===== *)
theory Trace
  imports Disasm
begin

text \<open>
  Execution records and traces (\<^verbatim>\<open>trace.hpp\<close>, \<^verbatim>\<open>trace.cpp\<close>): the record of one step, its JSON
  line, the sink that appends lines to a stream, and the comparison of two trace files. A file
  is its contents; the stream's own failures are an argument of the sink.
\<close>

subsection \<open>Records\<close>

record RegisterWrite =
  rw_index :: u8
  rw_value :: u64

record MemoryWrite =
  mw_address :: u64
  mw_width :: nat
  mw_value :: u64
  mw_physical_address :: u64

record AddressTranslation =
  at_virtual_address :: u64
  at_physical_address :: u64

record StepRecord =
  sr_sequence :: u64
  sr_pc :: u64
  sr_privilege :: PrivilegeLevel
  sr_instruction :: u32
  sr_assembly :: string
  sr_next_pc :: u64
  sr_next_privilege :: PrivilegeLevel
  sr_retired :: bool
  sr_halted :: bool
  sr_register_write :: "RegisterWrite option"
  sr_memory_write :: "MemoryWrite option"
  sr_trap :: "Trap option"
  sr_instruction_translation :: "AddressTranslation option"
  sr_data_translation :: "AddressTranslation option"

text \<open>\<^verbatim>\<open>StepRecord record;\<close> with the default member initialisers.\<close>

definition empty_record :: StepRecord where
  "empty_record =
     \<lparr>sr_sequence = 0, sr_pc = 0, sr_privilege = Machine, sr_instruction = 0, sr_assembly = [],
      sr_next_pc = 0, sr_next_privilege = Machine, sr_retired = False, sr_halted = False,
      sr_register_write = None, sr_memory_write = None, sr_trap = None,
      sr_instruction_translation = None, sr_data_translation = None\<rparr>"

subsection \<open>The JSON line of a record\<close>

definition quote :: char where "quote = CHR 0x22"
definition backslash :: char where "backslash = CHR 0x5C"
definition newline :: char where "newline = CHR 0x0A"

definition escape_char :: "char \<Rightarrow> string" where
  "escape_char c =
     (if c = quote then [backslash, quote]
      else if c = backslash then [backslash, backslash]
      else if c = CHR 0x08 then backslash # ''b''
      else if c = CHR 0x0C then backslash # ''f''
      else if c = CHR 0x0A then backslash # ''n''
      else if c = CHR 0x0D then backslash # ''r''
      else if c = CHR 0x09 then backslash # ''t''
      else if of_char c < (0x20 :: nat) then backslash # ''u'' @ pad_zero 4 (show_hex (of_char c))
      else [c])"

definition escape_json :: "string \<Rightarrow> string" where
  "escape_json input = concat (map escape_char input)"

definition hex_value :: "u64 \<Rightarrow> nat \<Rightarrow> string" where
  "hex_value v digits = ''0x'' @ pad_zero digits (show_hex (unat v))"

definition quoted_text :: "string \<Rightarrow> string" where
  "quoted_text s = quote # s @ [quote]"

text \<open>A key of a JSON object with its colon.\<close>

definition key :: "string \<Rightarrow> string" where
  "key name = quoted_text name @ '':''"

definition format_bool :: "bool \<Rightarrow> string" where
  "format_bool b = (if b then ''true'' else ''false'')"

definition format_register_write :: "RegisterWrite option \<Rightarrow> string" where
  "format_register_write w =
     (case w of None \<Rightarrow> ''null''
      | Some w \<Rightarrow> ''{'' @ key ''index'' @ show_dec (unat (rw_index w)) @ '','' @ key ''value'' @
          quoted_text (hex_value (rw_value w) 16) @ ''}'')"

definition format_translation :: "AddressTranslation option \<Rightarrow> string" where
  "format_translation t =
     (case t of None \<Rightarrow> ''null''
      | Some t \<Rightarrow> ''{'' @ key ''virtual_address'' @ quoted_text (hex_value (at_virtual_address t) 16) @
          '','' @ key ''physical_address'' @ quoted_text (hex_value (at_physical_address t) 16) @ ''}'')"

definition format_memory_write :: "MemoryWrite option \<Rightarrow> string" where
  "format_memory_write w =
     (case w of None \<Rightarrow> ''null''
      | Some w \<Rightarrow> ''{'' @ key ''address'' @ quoted_text (hex_value (mw_address w) 16) @ '','' @
          key ''width'' @ show_dec (mw_width w) @ '','' @
          key ''value'' @ quoted_text (hex_value (mw_value w) (mw_width w * 2)) @ '','' @
          key ''physical_address'' @ quoted_text (hex_value (mw_physical_address w) 16) @ ''}'')"

definition format_trap :: "Trap option \<Rightarrow> string" where
  "format_trap t =
     (case t of None \<Rightarrow> ''null''
      | Some t \<Rightarrow> ''{'' @ key ''cause'' @ show_dec (unat (cause_code (trap_cause t))) @ '','' @
          key ''name'' @ quoted_text (trap_name (trap_cause t)) @ '','' @
          key ''value'' @ quoted_text (hex_value (trap_value t) 16) @ '','' @
          key ''detail'' @ quoted_text (escape_json (trap_detail t)) @ ''}'')"

definition format_trace_record :: "StepRecord \<Rightarrow> string" where
  "format_trace_record r =
     ''{'' @ key ''sequence'' @ show_dec (unat (sr_sequence r)) @ '','' @
     key ''pc'' @ quoted_text (hex_value (sr_pc r) 16) @ '','' @
     key ''privilege'' @ quoted_text (privilege_name (sr_privilege r)) @ '','' @
     key ''instruction'' @ quoted_text (hex_value (ucast (sr_instruction r)) 8) @ '','' @
     key ''assembly'' @ quoted_text (escape_json (sr_assembly r)) @ '','' @
     key ''next_pc'' @ quoted_text (hex_value (sr_next_pc r) 16) @ '','' @
     key ''next_privilege'' @ quoted_text (privilege_name (sr_next_privilege r)) @ '','' @
     key ''retired'' @ format_bool (sr_retired r) @ '','' @
     key ''halted'' @ format_bool (sr_halted r) @ '','' @
     key ''register_write'' @ format_register_write (sr_register_write r) @ '','' @
     key ''instruction_translation'' @ format_translation (sr_instruction_translation r) @ '','' @
     key ''data_translation'' @ format_translation (sr_data_translation r) @ '','' @
     key ''memory_write'' @ format_memory_write (sr_memory_write r) @ '','' @
     key ''trap'' @ format_trap (sr_trap r) @ ''}''"

subsection \<open>The JSONL sink\<close>

text \<open>
  The stream state is abstract: \<open>put\<close> writes text to it and \<open>good\<close> tells whether it is still
  usable, as \<^verbatim>\<open>std::ofstream\<close> does.
\<close>

definition jsonl_append :: "('f \<Rightarrow> string \<Rightarrow> 'f) \<Rightarrow> ('f \<Rightarrow> bool) \<Rightarrow> 'f \<Rightarrow> StepRecord \<Rightarrow> exn + 'f" where
  "jsonl_append put good output r =
     (let output' = put output (format_trace_record r @ [newline])
      in if \<not> good output' then Inl (RuntimeError ''failed while writing execution trace'')
         else Inr output')"

definition jsonl_flush :: "('f \<Rightarrow> 'f) \<Rightarrow> ('f \<Rightarrow> bool) \<Rightarrow> 'f \<Rightarrow> exn + 'f" where
  "jsonl_flush flush good output =
     (let output' = flush output
      in if \<not> good output' then Inl (RuntimeError ''failed while flushing execution trace'')
         else Inr output')"

subsection \<open>Comparing trace files\<close>

record TraceDifference =
  td_line :: nat
  td_left :: string
  td_right :: string

text \<open>\<^verbatim>\<open>std::getline\<close> on the rest of a file: the next line and what follows it.\<close>

definition getline :: "string \<Rightarrow> (string \<times> string) option" where
  "getline s =
     (if s = [] then None
      else Some (takeWhile (\<lambda>c. c \<noteq> newline) s, drop 1 (dropWhile (\<lambda>c. c \<noteq> newline) s)))"

lemma getline_shorter: "getline s = Some (l, r) \<Longrightarrow> length r < length s"
proof -
  assume "getline s = Some (l, r)"
  then have "s \<noteq> []" "r = drop 1 (dropWhile (\<lambda>c. c \<noteq> newline) s)"
    by (auto simp: getline_def split: if_splits)
  moreover have "length (dropWhile (\<lambda>c. c \<noteq> newline) s) \<le> length s"
    by (rule length_dropWhile_le)
  ultimately show ?thesis by (cases s) (auto simp: min_def)
qed

function compare_loop :: "nat \<Rightarrow> string \<Rightarrow> string \<Rightarrow> TraceDifference option" where
  "compare_loop line_number left_input right_input =
     (case (getline left_input, getline right_input) of
        (None, None) \<Rightarrow> None
      | (Some (left_line, left_rest), Some (right_line, right_rest)) \<Rightarrow>
          if left_line \<noteq> right_line
          then Some \<lparr>td_line = line_number + 1, td_left = left_line, td_right = right_line\<rparr>
          else compare_loop (line_number + 1) left_rest right_rest
      | (Some (left_line, left_rest), None) \<Rightarrow>
          Some \<lparr>td_line = line_number + 1, td_left = left_line, td_right = ''<end-of-file>''\<rparr>
      | (None, Some (right_line, right_rest)) \<Rightarrow>
          Some \<lparr>td_line = line_number + 1, td_left = ''<end-of-file>'', td_right = right_line\<rparr>)"
  by pat_completeness auto

termination
  by (relation "measure (\<lambda>(_, l, _). length l)") (auto dest: getline_shorter [OF sym])

declare compare_loop.simps [simp del]

text \<open>A file that cannot be opened is \<open>None\<close>.\<close>

definition compare_trace_files ::
  "string \<Rightarrow> string option \<Rightarrow> string \<Rightarrow> string option \<Rightarrow> exn + TraceDifference option" where
  "compare_trace_files left_path left_file right_path right_file =
     (case left_file of
        None \<Rightarrow> Inl (RuntimeError (''cannot open left trace: '' @ left_path))
      | Some left_input \<Rightarrow>
          (case right_file of
             None \<Rightarrow> Inl (RuntimeError (''cannot open right trace: '' @ right_path))
           | Some right_input \<Rightarrow> Inr (compare_loop 0 left_input right_input)))"

end
