(* ===== verification/Csr.thy ===== *)
theory Csr
  imports Arch Text
begin

text \<open>
  The control and status registers (\<^verbatim>\<open>csr.hpp\<close>, \<^verbatim>\<open>csr.cpp\<close>): address-encoded access
  checks, the machine and supervisor register banks with their legalising writes, and the
  two trap transitions, entry and return.
\<close>

subsection \<open>Register addresses and status bits\<close>

abbreviation csr_kSstatus :: u16 where "csr_kSstatus \<equiv> 0x100"
abbreviation csr_kSie :: u16 where "csr_kSie \<equiv> 0x104"
abbreviation csr_kStvec :: u16 where "csr_kStvec \<equiv> 0x105"
abbreviation csr_kScounteren :: u16 where "csr_kScounteren \<equiv> 0x106"
abbreviation csr_kSscratch :: u16 where "csr_kSscratch \<equiv> 0x140"
abbreviation csr_kSepc :: u16 where "csr_kSepc \<equiv> 0x141"
abbreviation csr_kScause :: u16 where "csr_kScause \<equiv> 0x142"
abbreviation csr_kStval :: u16 where "csr_kStval \<equiv> 0x143"
abbreviation csr_kSip :: u16 where "csr_kSip \<equiv> 0x144"
abbreviation csr_kSatp :: u16 where "csr_kSatp \<equiv> 0x180"
abbreviation csr_kMstatus :: u16 where "csr_kMstatus \<equiv> 0x300"
abbreviation csr_kMisa :: u16 where "csr_kMisa \<equiv> 0x301"
abbreviation csr_kMedeleg :: u16 where "csr_kMedeleg \<equiv> 0x302"
abbreviation csr_kMideleg :: u16 where "csr_kMideleg \<equiv> 0x303"
abbreviation csr_kMie :: u16 where "csr_kMie \<equiv> 0x304"
abbreviation csr_kMtvec :: u16 where "csr_kMtvec \<equiv> 0x305"
abbreviation csr_kMcounteren :: u16 where "csr_kMcounteren \<equiv> 0x306"
abbreviation csr_kMscratch :: u16 where "csr_kMscratch \<equiv> 0x340"
abbreviation csr_kMepc :: u16 where "csr_kMepc \<equiv> 0x341"
abbreviation csr_kMcause :: u16 where "csr_kMcause \<equiv> 0x342"
abbreviation csr_kMtval :: u16 where "csr_kMtval \<equiv> 0x343"
abbreviation csr_kMip :: u16 where "csr_kMip \<equiv> 0x344"
abbreviation csr_kMcycle :: u16 where "csr_kMcycle \<equiv> 0xB00"
abbreviation csr_kMinstret :: u16 where "csr_kMinstret \<equiv> 0xB02"
abbreviation csr_kCycle :: u16 where "csr_kCycle \<equiv> 0xC00"
abbreviation csr_kInstret :: u16 where "csr_kInstret \<equiv> 0xC02"
abbreviation csr_kMhartid :: u16 where "csr_kMhartid \<equiv> 0xF14"

definition status_kSie :: u64 where "status_kSie = push_bit 1 1"
definition status_kMie :: u64 where "status_kMie = push_bit 3 1"
definition status_kSpie :: u64 where "status_kSpie = push_bit 5 1"
definition status_kMpie :: u64 where "status_kMpie = push_bit 7 1"
definition status_kSpp :: u64 where "status_kSpp = push_bit 8 1"
definition status_kMppMask :: u64 where "status_kMppMask = push_bit 11 3"
definition status_kMprv :: u64 where "status_kMprv = push_bit 17 1"
definition status_kSum :: u64 where "status_kSum = push_bit 18 1"
definition status_kMxr :: u64 where "status_kMxr = push_bit 19 1"
definition status_kUxl64 :: u64 where "status_kUxl64 = push_bit 32 2"
definition status_kSxl64 :: u64 where "status_kSxl64 = push_bit 34 2"

definition status_kSstatusWritableMask :: u64 where
  "status_kSstatusWritableMask = status_kSie OR status_kSpie OR status_kSpp OR status_kSum OR status_kMxr"

definition status_kMstatusWritableMask :: u64 where
  "status_kMstatusWritableMask =
     status_kSie OR status_kMie OR status_kSpie OR status_kMpie OR status_kSpp OR
     status_kMppMask OR status_kMprv OR status_kSum OR status_kMxr"

definition status_kMstatusFixedValue :: u64 where
  "status_kMstatusFixedValue = status_kUxl64 OR status_kSxl64"

definition kMisa :: u64 where "kMisa = push_bit 62 2 OR push_bit 8 1"
definition kCounterCycle :: u64 where "kCounterCycle = push_bit 0 1"
definition kCounterTime :: u64 where "kCounterTime = push_bit 1 1"
definition kCounterInstret :: u64 where "kCounterInstret = push_bit 2 1"
definition kCounterEnableMask :: u64 where
  "kCounterEnableMask = kCounterCycle OR kCounterTime OR kCounterInstret"
definition kSupervisorSoftwareInterrupt :: u64 where "kSupervisorSoftwareInterrupt = push_bit 1 1"
definition kSupervisorTimerInterrupt :: u64 where "kSupervisorTimerInterrupt = push_bit 5 1"
definition kSupervisorExternalInterrupt :: u64 where "kSupervisorExternalInterrupt = push_bit 9 1"
definition kMachineSoftwareInterrupt :: u64 where "kMachineSoftwareInterrupt = push_bit 3 1"
definition kMachineTimerInterrupt :: u64 where "kMachineTimerInterrupt = push_bit 7 1"
definition kMachineExternalInterrupt :: u64 where "kMachineExternalInterrupt = push_bit 11 1"
definition kSupervisorInterruptMask :: u64 where
  "kSupervisorInterruptMask =
     kSupervisorSoftwareInterrupt OR kSupervisorTimerInterrupt OR kSupervisorExternalInterrupt"
definition kImplementedInterruptMask :: u64 where
  "kImplementedInterruptMask =
     kSupervisorInterruptMask OR kMachineSoftwareInterrupt OR kMachineTimerInterrupt OR
     kMachineExternalInterrupt"
definition kDelegatableExceptionMask :: u64 where
  "kDelegatableExceptionMask =
     push_bit 0 1 OR push_bit 1 1 OR push_bit 2 1 OR push_bit 3 1 OR push_bit 4 1 OR
     push_bit 5 1 OR push_bit 6 1 OR push_bit 7 1 OR push_bit 8 1 OR push_bit 9 1 OR
     push_bit 12 1 OR push_bit 13 1 OR push_bit 15 1"
definition kSatpModeMask :: u64 where "kSatpModeMask = push_bit 60 0xf"
definition kSatpModeSv39 :: u64 where "kSatpModeSv39 = push_bit 60 8"

subsection \<open>The register file\<close>

datatype CsrErrorKind = Unimplemented | PrivilegeViolation | ReadOnly | InvalidValue | CounterDisabled

record CsrError =
  ce_kind :: CsrErrorKind
  ce_address :: u16
  ce_privilege :: PrivilegeLevel
  ce_detail :: string

record TrapEntry =
  te_target :: PrivilegeLevel
  te_vector :: u64

datatype TrapReturnMode = SupervisorReturn | MachineReturn

record TrapReturn =
  tr_target :: PrivilegeLevel
  tr_pc :: u64

record CsrFile =
  mstatus :: u64
  medeleg :: u64
  mideleg :: u64
  mie :: u64
  mtvec :: u64
  mcounteren :: u64
  mscratch :: u64
  mepc :: u64
  mcause :: u64
  mtval :: u64
  mip :: u64
  stvec :: u64
  scounteren :: u64
  sscratch :: u64
  sepc :: u64
  scause :: u64
  stval :: u64
  satp :: u64
  mcycle :: u64
  minstret :: u64

definition csr_minimum_privilege :: "u16 \<Rightarrow> PrivilegeLevel" where
  "csr_minimum_privilege address =
     (let encoded = (ucast (drop_bit 8 address AND 0x3) :: u8)
      in if encoded = 0 then User else if encoded = 1 then Supervisor else Machine)"

definition csr_is_read_only :: "u16 \<Rightarrow> bool" where
  "csr_is_read_only address \<longleftrightarrow> drop_bit 10 address AND 0x3 = 0x3"

definition is_implemented :: "u16 \<Rightarrow> bool" where
  "is_implemented address \<longleftrightarrow>
     address \<in> {csr_kSstatus, csr_kSie, csr_kStvec, csr_kScounteren, csr_kSscratch, csr_kSepc,
       csr_kScause, csr_kStval, csr_kSip, csr_kSatp, csr_kMstatus, csr_kMisa, csr_kMedeleg,
       csr_kMideleg, csr_kMie, csr_kMtvec, csr_kMcounteren, csr_kMscratch, csr_kMepc, csr_kMcause,
       csr_kMtval, csr_kMip, csr_kMcycle, csr_kMinstret, csr_kCycle, csr_kInstret, csr_kMhartid}"

definition counter_bit :: "u16 \<Rightarrow> u64" where
  "counter_bit address =
     (if address = csr_kCycle then kCounterCycle
      else if address = csr_kInstret then kCounterInstret
      else 0)"

definition make_error :: "CsrErrorKind \<Rightarrow> u16 \<Rightarrow> PrivilegeLevel \<Rightarrow> string \<Rightarrow> CsrError" where
  "make_error kind address privilege detail =
     \<lparr>ce_kind = kind, ce_address = address, ce_privilege = privilege, ce_detail = detail\<rparr>"

definition csr_hex :: "u16 \<Rightarrow> string" where
  "csr_hex address = ''0x'' @ show_hex (unat address)"

definition normalize_mstatus :: "u64 \<Rightarrow> u64" where
  "normalize_mstatus value =
     (let normalized = value AND status_kMstatusWritableMask;
          mpp = drop_bit 11 (normalized AND status_kMppMask)
      in if mpp = 2 then normalized AND NOT status_kMppMask else normalized)"

definition csr_reset :: CsrFile where
  "csr_reset =
     \<lparr>mstatus = 0, medeleg = 0, mideleg = 0, mie = 0, mtvec = 0, mcounteren = 0, mscratch = 0,
      mepc = 0, mcause = 0, mtval = 0, mip = 0, stvec = 0, scounteren = 0, sscratch = 0, sepc = 0,
      scause = 0, stval = 0, satp = 0, mcycle = 0, minstret = 0\<rparr>"

definition validate_access :: "CsrFile \<Rightarrow> u16 \<Rightarrow> PrivilegeLevel \<Rightarrow> bool \<Rightarrow> CsrError option" where
  "validate_access f address privilege is_write =
     (let required = csr_minimum_privilege address
      in if \<not> privilege_at_least privilege required then
           Some (make_error PrivilegeViolation address privilege
             (''CSR '' @ csr_hex address @ '' requires '' @ privilege_name required @
              '' privilege, current mode is '' @ privilege_name privilege))
         else if \<not> is_implemented address then
           Some (make_error Unimplemented address privilege
             (''CSR '' @ csr_hex address @ '' is not implemented''))
         else if is_write \<and> csr_is_read_only address then
           Some (make_error ReadOnly address privilege (''CSR '' @ csr_hex address @ '' is read-only''))
         else
           let requested_counter = counter_bit address
           in if \<not> is_write \<and> requested_counter \<noteq> 0 \<and> privilege \<noteq> Machine then
                let machine_enabled = mcounteren f AND requested_counter \<noteq> 0;
                    supervisor_enabled = privilege \<noteq> User \<or> scounteren f AND requested_counter \<noteq> 0
                in if \<not> machine_enabled \<or> \<not> supervisor_enabled then
                     Some (make_error CounterDisabled address privilege
                       (''CSR '' @ csr_hex address @ '' is disabled by counter-enable state''))
                   else None
              else None)"

definition csr_read :: "CsrFile \<Rightarrow> u16 \<Rightarrow> PrivilegeLevel \<Rightarrow> CsrError + u64" where
  "csr_read f address privilege =
     (case validate_access f address privilege False of
        Some e \<Rightarrow> Inl e
      | None \<Rightarrow>
          if address = csr_kSstatus then
            Inr ((mstatus f AND status_kSstatusWritableMask) OR status_kUxl64)
          else if address = csr_kSie then Inr (mie f AND mideleg f AND kSupervisorInterruptMask)
          else if address = csr_kStvec then Inr (stvec f)
          else if address = csr_kScounteren then Inr (scounteren f)
          else if address = csr_kSscratch then Inr (sscratch f)
          else if address = csr_kSepc then Inr (sepc f)
          else if address = csr_kScause then Inr (scause f)
          else if address = csr_kStval then Inr (stval f)
          else if address = csr_kSip then Inr (mip f AND mideleg f AND kSupervisorInterruptMask)
          else if address = csr_kSatp then Inr (satp f)
          else if address = csr_kMstatus then Inr (mstatus f OR status_kMstatusFixedValue)
          else if address = csr_kMisa then Inr kMisa
          else if address = csr_kMedeleg then Inr (medeleg f)
          else if address = csr_kMideleg then Inr (mideleg f)
          else if address = csr_kMie then Inr (mie f)
          else if address = csr_kMtvec then Inr (mtvec f)
          else if address = csr_kMcounteren then Inr (mcounteren f)
          else if address = csr_kMscratch then Inr (mscratch f)
          else if address = csr_kMepc then Inr (mepc f)
          else if address = csr_kMcause then Inr (mcause f)
          else if address = csr_kMtval then Inr (mtval f)
          else if address = csr_kMip then Inr (mip f)
          else if address = csr_kMcycle \<or> address = csr_kCycle then Inr (mcycle f)
          else if address = csr_kMinstret \<or> address = csr_kInstret then Inr (minstret f)
          else if address = csr_kMhartid then Inr 0
          else Inl (make_error Unimplemented address privilege
                      (''CSR '' @ csr_hex address @ '' is not implemented'')))"

definition csr_write :: "CsrFile \<Rightarrow> u16 \<Rightarrow> u64 \<Rightarrow> PrivilegeLevel \<Rightarrow> CsrFile \<times> CsrError option" where
  "csr_write f address value privilege =
     (case validate_access f address privilege True of
        Some e \<Rightarrow> (f, Some e)
      | None \<Rightarrow>
          if address = csr_kSstatus then
            (f\<lparr>mstatus := (mstatus f AND NOT status_kSstatusWritableMask) OR
                           (value AND status_kSstatusWritableMask)\<rparr>, None)
          else if address = csr_kSie then
            (let visible = mideleg f AND kSupervisorInterruptMask
             in (f\<lparr>mie := (mie f AND NOT visible) OR (value AND visible)\<rparr>, None))
          else if address = csr_kStvec then (f\<lparr>stvec := value AND NOT 0x3\<rparr>, None)
          else if address = csr_kScounteren then (f\<lparr>scounteren := value AND kCounterEnableMask\<rparr>, None)
          else if address = csr_kSscratch then (f\<lparr>sscratch := value\<rparr>, None)
          else if address = csr_kSepc then (f\<lparr>sepc := value AND NOT 0x3\<rparr>, None)
          else if address = csr_kScause then (f\<lparr>scause := value\<rparr>, None)
          else if address = csr_kStval then (f\<lparr>stval := value\<rparr>, None)
          else if address = csr_kSip then
            (let writable = mideleg f AND kSupervisorSoftwareInterrupt
             in (f\<lparr>mip := (mip f AND NOT writable) OR (value AND writable)\<rparr>, None))
          else if address = csr_kSatp then
            (let mode = value AND kSatpModeMask
             in if mode = 0 then (f\<lparr>satp := 0\<rparr>, None)
                else if mode = kSatpModeSv39 then (f\<lparr>satp := value\<rparr>, None)
                else (f, None))
          else if address = csr_kMstatus then (f\<lparr>mstatus := normalize_mstatus value\<rparr>, None)
          else if address = csr_kMisa then (f, None)
          else if address = csr_kMedeleg then
            (f\<lparr>medeleg := value AND kDelegatableExceptionMask\<rparr>, None)
          else if address = csr_kMideleg then
            (f\<lparr>mideleg := value AND kSupervisorInterruptMask\<rparr>, None)
          else if address = csr_kMie then (f\<lparr>mie := value AND kImplementedInterruptMask\<rparr>, None)
          else if address = csr_kMtvec then (f\<lparr>mtvec := value AND NOT 0x3\<rparr>, None)
          else if address = csr_kMcounteren then (f\<lparr>mcounteren := value AND kCounterEnableMask\<rparr>, None)
          else if address = csr_kMscratch then (f\<lparr>mscratch := value\<rparr>, None)
          else if address = csr_kMepc then (f\<lparr>mepc := value AND NOT 0x3\<rparr>, None)
          else if address = csr_kMcause then (f\<lparr>mcause := value\<rparr>, None)
          else if address = csr_kMtval then (f\<lparr>mtval := value\<rparr>, None)
          else if address = csr_kMip then (f\<lparr>mip := value AND kImplementedInterruptMask\<rparr>, None)
          else if address = csr_kMcycle then (f\<lparr>mcycle := value\<rparr>, None)
          else if address = csr_kMinstret then (f\<lparr>minstret := value\<rparr>, None)
          else (f, Some (make_error Unimplemented address privilege
                           (''CSR '' @ csr_hex address @ '' is not implemented''))))"

definition tick_cycle :: "CsrFile \<Rightarrow> CsrFile" where
  "tick_cycle f = f\<lparr>mcycle := mcycle f + 1\<rparr>"

definition retire_instruction :: "CsrFile \<Rightarrow> CsrFile" where
  "retire_instruction f = f\<lparr>minstret := minstret f + 1\<rparr>"

definition mstatus_value :: "CsrFile \<Rightarrow> u64" where
  "mstatus_value f = mstatus f OR status_kMstatusFixedValue"

subsection \<open>Trap entry and return\<close>

definition trap_delegated :: "CsrFile \<Rightarrow> TrapCause \<Rightarrow> PrivilegeLevel \<Rightarrow> bool" where
  "trap_delegated f c origin \<longleftrightarrow>
     (let cause = cause_code c
      in origin \<noteq> Machine \<and> cause < 64 \<and> medeleg f AND push_bit (unat cause) 1 \<noteq> 0)"

definition enter_supervisor :: "CsrFile \<Rightarrow> Trap \<Rightarrow> PrivilegeLevel \<Rightarrow> CsrFile" where
  "enter_supervisor f trap origin =
     (let m0 = mstatus f;
          m1 = (if m0 AND status_kSie \<noteq> 0 then m0 OR status_kSpie else m0 AND NOT status_kSpie);
          m2 = m1 AND NOT status_kSie;
          m3 = (if origin = Supervisor then m2 OR status_kSpp else m2 AND NOT status_kSpp)
      in f\<lparr>mstatus := m3, sepc := trap_pc trap AND NOT 0x3,
           scause := cause_code (trap_cause trap), stval := trap_value trap\<rparr>)"

definition enter_machine :: "CsrFile \<Rightarrow> Trap \<Rightarrow> PrivilegeLevel \<Rightarrow> CsrFile" where
  "enter_machine f trap origin =
     (let m0 = mstatus f;
          m1 = (if m0 AND status_kMie \<noteq> 0 then m0 OR status_kMpie else m0 AND NOT status_kMpie);
          m2 = m1 AND NOT status_kMie;
          m3 = (m2 AND NOT status_kMppMask) OR push_bit 11 (ucast (privilege_code origin))
      in f\<lparr>mstatus := m3, mepc := trap_pc trap AND NOT 0x3,
           mcause := cause_code (trap_cause trap), mtval := trap_value trap\<rparr>)"

definition enter_trap :: "CsrFile \<Rightarrow> Trap \<Rightarrow> PrivilegeLevel \<Rightarrow> CsrFile \<times> TrapEntry" where
  "enter_trap f trap origin =
     (if trap_delegated f (trap_cause trap) origin
      then let f' = enter_supervisor f trap origin
           in (f', \<lparr>te_target = Supervisor, te_vector = stvec f' AND NOT 0x3\<rparr>)
      else let f' = enter_machine f trap origin
           in (f', \<lparr>te_target = Machine, te_vector = mtvec f' AND NOT 0x3\<rparr>))"

definition return_supervisor :: "CsrFile \<Rightarrow> CsrFile \<times> TrapReturn" where
  "return_supervisor f =
     (let m0 = mstatus f;
          target = (if m0 AND status_kSpp \<noteq> 0 then Supervisor else User);
          m1 = (if m0 AND status_kSpie \<noteq> 0 then m0 OR status_kSie else m0 AND NOT status_kSie);
          m2 = m1 OR status_kSpie;
          m3 = m2 AND NOT status_kSpp;
          m4 = m3 AND NOT status_kMprv
      in (f\<lparr>mstatus := m4\<rparr>, \<lparr>tr_target = target, tr_pc = sepc f\<rparr>))"

definition return_machine :: "CsrFile \<Rightarrow> CsrFile \<times> TrapReturn" where
  "return_machine f =
     (let m0 = mstatus f;
          mpp = (ucast (drop_bit 11 (m0 AND status_kMppMask)) :: u8);
          target = (if mpp = privilege_code Machine then Machine
                    else if mpp = privilege_code Supervisor then Supervisor
                    else User);
          m1 = (if m0 AND status_kMpie \<noteq> 0 then m0 OR status_kMie else m0 AND NOT status_kMie);
          m2 = m1 OR status_kMpie;
          m3 = m2 AND NOT status_kMppMask;
          m4 = (if target \<noteq> Machine then m3 AND NOT status_kMprv else m3)
      in (f\<lparr>mstatus := m4\<rparr>, \<lparr>tr_target = target, tr_pc = mepc f\<rparr>))"

definition return_from_trap :: "CsrFile \<Rightarrow> TrapReturnMode \<Rightarrow> CsrFile \<times> TrapReturn" where
  "return_from_trap f mode =
     (if mode = SupervisorReturn then return_supervisor f else return_machine f)"

subsection \<open>The masks, bit by bit\<close>

named_theorems csr_bits \<open>the bits of the CSR masks\<close>

lemma bit_two: "bit (2 :: u64) n \<longleftrightarrow> n = 1"
  using bit_single [of 1 n] by simp

lemma bit_eight: "bit (8 :: u64) n \<longleftrightarrow> n = 3"
  using bit_single [of 3 n] by simp

lemma bit_status_masks [csr_bits]:
  "bit status_kSie n \<longleftrightarrow> n = 1" "bit status_kMie n \<longleftrightarrow> n = 3" "bit status_kSpie n \<longleftrightarrow> n = 5"
  "bit status_kMpie n \<longleftrightarrow> n = 7" "bit status_kSpp n \<longleftrightarrow> n = 8" "bit status_kMprv n \<longleftrightarrow> n = 17"
  "bit status_kSum n \<longleftrightarrow> n = 18" "bit status_kMxr n \<longleftrightarrow> n = 19"
  unfolding status_kSie_def status_kMie_def status_kSpie_def status_kMpie_def status_kSpp_def
    status_kMprv_def status_kSum_def status_kMxr_def bit_single
  by auto

lemma bit_status_fields [csr_bits]:
  "bit status_kMppMask n \<longleftrightarrow> n = 11 \<or> n = 12"
  "bit status_kUxl64 n \<longleftrightarrow> n = 33" "bit status_kSxl64 n \<longleftrightarrow> n = 35"
  unfolding status_kMppMask_def status_kUxl64_def status_kSxl64_def bit_push_bit_iff bit_three bit_two
  by auto

lemma bit_status_writable [csr_bits]:
  "bit status_kSstatusWritableMask n \<longleftrightarrow> n \<in> {1, 5, 8, 18, 19}"
  "bit status_kMstatusWritableMask n \<longleftrightarrow> n \<in> {1, 3, 5, 7, 8, 11, 12, 17, 18, 19}"
  "bit status_kMstatusFixedValue n \<longleftrightarrow> n \<in> {33, 35}"
  by (auto simp: status_kSstatusWritableMask_def status_kMstatusWritableMask_def
      status_kMstatusFixedValue_def bit_or_iff csr_bits)

lemma bit_counter_masks [csr_bits]:
  "bit kCounterCycle n \<longleftrightarrow> n = 0" "bit kCounterTime n \<longleftrightarrow> n = 1" "bit kCounterInstret n \<longleftrightarrow> n = 2"
  "bit kCounterEnableMask n \<longleftrightarrow> n \<in> {0, 1, 2}"
  unfolding kCounterEnableMask_def kCounterCycle_def kCounterTime_def kCounterInstret_def
    bit_or_iff bit_single by auto

lemma bit_interrupt_masks [csr_bits]:
  "bit kSupervisorSoftwareInterrupt n \<longleftrightarrow> n = 1"
  "bit kSupervisorInterruptMask n \<longleftrightarrow> n \<in> {1, 5, 9}"
  "bit kImplementedInterruptMask n \<longleftrightarrow> n \<in> {1, 3, 5, 7, 9, 11}"
  unfolding kImplementedInterruptMask_def kSupervisorInterruptMask_def
    kSupervisorSoftwareInterrupt_def kSupervisorTimerInterrupt_def kSupervisorExternalInterrupt_def
    kMachineSoftwareInterrupt_def kMachineTimerInterrupt_def kMachineExternalInterrupt_def
    bit_or_iff bit_single by auto

lemma bit_delegatable [csr_bits]:
  "bit kDelegatableExceptionMask n \<longleftrightarrow> n \<in> {0, 1, 2, 3, 4, 5, 6, 7, 8, 9, 12, 13, 15}"
  unfolding kDelegatableExceptionMask_def bit_or_iff bit_single by auto

lemma bit_satp_masks [csr_bits]:
  "bit kSatpModeMask n \<longleftrightarrow> 60 \<le> n \<and> n < 64" "bit kSatpModeSv39 n \<longleftrightarrow> n = 63"
proof -
  have "(0xf :: u64) = mask 4" by (simp add: mask_eq_exp_minus_1)
  then have "kSatpModeMask = push_bit 60 (mask 4)" by (simp only: kSatpModeMask_def)
  then have "bit kSatpModeMask n = bit (push_bit 60 (mask 4) :: u64) n" by (rule arg_cong)
  then show "bit kSatpModeMask n \<longleftrightarrow> 60 \<le> n \<and> n < 64" by (auto simp: bit_push_bit_iff bit_mask_iff)
  show "bit kSatpModeSv39 n \<longleftrightarrow> n = 63"
    unfolding kSatpModeSv39_def bit_push_bit_iff bit_eight by auto
qed

lemma status_test:
  "x AND status_kSie = 0 \<longleftrightarrow> \<not> bit x 1" "x AND status_kMie = 0 \<longleftrightarrow> \<not> bit x 3"
  "x AND status_kSpie = 0 \<longleftrightarrow> \<not> bit x 5" "x AND status_kMpie = 0 \<longleftrightarrow> \<not> bit x 7"
  "x AND status_kSpp = 0 \<longleftrightarrow> \<not> bit x 8"
  by (simp_all only: and_single_iff [symmetric, OF bit_status_masks(1)]
      and_single_iff [symmetric, OF bit_status_masks(2)] and_single_iff [symmetric, OF bit_status_masks(3)]
      and_single_iff [symmetric, OF bit_status_masks(4)] and_single_iff [symmetric, OF bit_status_masks(5)]
      not_not)

subsection \<open>Well-formed register files\<close>

definition mpp :: "u64 \<Rightarrow> u64" where
  "mpp m = drop_bit 11 (m AND status_kMppMask)"

definition csr_ok :: "CsrFile \<Rightarrow> bool" where
  "csr_ok f \<longleftrightarrow>
     mstatus f AND NOT status_kMstatusWritableMask = 0 \<and> mpp (mstatus f) \<noteq> 2 \<and>
     medeleg f AND NOT kDelegatableExceptionMask = 0 \<and>
     mideleg f AND NOT kSupervisorInterruptMask = 0 \<and>
     mie f AND NOT kImplementedInterruptMask = 0 \<and> mip f AND NOT kImplementedInterruptMask = 0 \<and>
     mtvec f AND 3 = 0 \<and> mepc f AND 3 = 0 \<and> stvec f AND 3 = 0 \<and> sepc f AND 3 = 0 \<and>
     mcounteren f AND NOT kCounterEnableMask = 0 \<and> scounteren f AND NOT kCounterEnableMask = 0 \<and>
     (satp f = 0 \<or> satp f AND kSatpModeMask = kSatpModeSv39)"

lemma mpp_eq_2_iff: "mpp m = 2 \<longleftrightarrow> bit m 12 \<and> \<not> bit m 11"
proof -
  have "bit (mpp m) n \<longleftrightarrow> n = 0 \<and> bit m 11 \<or> n = 1 \<and> bit m 12" for n
    by (auto simp: mpp_def bit_simps csr_bits)
  then have "mpp m = 2 \<longleftrightarrow> (\<forall>n::nat. (n = 0 \<and> bit m 11 \<or> n = 1 \<and> bit m 12) = (n = 1))"
    by (simp only: u64_eq_iff_bits bit_two)
  then show ?thesis by (simp del: One_nat_def) (metis zero_neq_one)
qed

lemma csr_reset_ok: "csr_ok csr_reset"
  by (simp add: csr_ok_def csr_reset_def mpp_def)

lemma mstatus_legal_iff:
  "m AND NOT status_kMstatusWritableMask = 0 \<and> mpp m \<noteq> 2 \<longleftrightarrow>
     (\<forall>n. bit m n \<longrightarrow> n \<in> {1, 3, 5, 7, 8, 11, 12, 17, 18, 19}) \<and> (bit m 12 \<longrightarrow> bit m 11)"
  by (auto simp: and_not_eq_0_iff csr_bits mpp_eq_2_iff)

lemma normalize_mstatus_legal:
  "normalize_mstatus v AND NOT status_kMstatusWritableMask = 0 \<and> mpp (normalize_mstatus v) \<noteq> 2"
  unfolding mstatus_legal_iff normalize_mstatus_def Let_def mpp_def [symmetric]
  by (auto simp: mpp_eq_2_iff bit_simps csr_bits)


lemma csr_okI:
  assumes "csr_ok f" "csr_ok g"
  shows "csr_ok (f\<lparr>mstatus := mstatus g\<rparr>)"
  using assms by (simp add: csr_ok_def)

lemma and_not_idem: "(x AND m) AND NOT m = 0" "(x AND NOT m) AND m = 0" for x m :: u64
  by (simp_all add: u64_eq_iff_bits bit_simps)

lemma and_aligned [simp]: "(x AND - 4) AND 3 = 0" for x :: u64
  using and_not_idem(2) [of x 3] by simp

lemma tick_cycle_ok: "csr_ok f \<Longrightarrow> csr_ok (tick_cycle f)"
  by (simp add: csr_ok_def tick_cycle_def)

lemma retire_instruction_ok: "csr_ok f \<Longrightarrow> csr_ok (retire_instruction f)"
  by (simp add: csr_ok_def retire_instruction_def)

definition mstatus_legal :: "u64 \<Rightarrow> bool" where
  "mstatus_legal m \<longleftrightarrow> m AND NOT status_kMstatusWritableMask = 0 \<and> mpp m \<noteq> 2"

lemma sstatus_write_legal:
  "mstatus_legal m \<Longrightarrow>
   mstatus_legal ((m AND NOT status_kSstatusWritableMask) OR (v AND status_kSstatusWritableMask))"
  unfolding mstatus_legal_def mstatus_legal_iff by (auto simp: bit_simps csr_bits)

lemma merge_masked:
  "m AND NOT k = 0 \<Longrightarrow> v AND NOT k = 0 \<Longrightarrow> ((m AND NOT x) OR (v AND x)) AND NOT k = 0" for m :: u64
  by (auto simp: and_not_eq_0_iff bit_simps)

lemma merge_masked':
  "m AND NOT k = 0 \<Longrightarrow> x AND NOT k = 0 \<Longrightarrow> ((m AND NOT x) OR (v AND x)) AND NOT k = 0" for m :: u64
  by (auto simp: and_not_eq_0_iff bit_simps)

lemma supervisor_masks_implemented:
  "d AND NOT kSupervisorInterruptMask = 0 \<Longrightarrow>
     (d AND kSupervisorInterruptMask) AND NOT kImplementedInterruptMask = 0"
  "(d AND kSupervisorSoftwareInterrupt) AND NOT kImplementedInterruptMask = 0"
  by (auto simp: and_not_eq_0_iff bit_simps csr_bits)

lemma csr_ok_updates:
  assumes "csr_ok f"
  shows
    "mstatus_legal m \<Longrightarrow> csr_ok (f\<lparr>mstatus := m\<rparr>)"
    "csr_ok (f\<lparr>medeleg := v AND kDelegatableExceptionMask\<rparr>)"
    "csr_ok (f\<lparr>mideleg := v AND kSupervisorInterruptMask\<rparr>)"
    "m AND NOT kImplementedInterruptMask = 0 \<Longrightarrow> csr_ok (f\<lparr>mie := m\<rparr>)"
    "m AND NOT kImplementedInterruptMask = 0 \<Longrightarrow> csr_ok (f\<lparr>mip := m\<rparr>)"
    "csr_ok (f\<lparr>mtvec := v AND - 4\<rparr>)" "csr_ok (f\<lparr>mepc := v AND - 4\<rparr>)"
    "csr_ok (f\<lparr>stvec := v AND - 4\<rparr>)" "csr_ok (f\<lparr>sepc := v AND - 4\<rparr>)"
    "csr_ok (f\<lparr>mcounteren := v AND kCounterEnableMask\<rparr>)"
    "csr_ok (f\<lparr>scounteren := v AND kCounterEnableMask\<rparr>)"
    "s = 0 \<or> s AND kSatpModeMask = kSatpModeSv39 \<Longrightarrow> csr_ok (f\<lparr>satp := s\<rparr>)"
    "csr_ok (f\<lparr>mscratch := v\<rparr>)" "csr_ok (f\<lparr>sscratch := v\<rparr>)"
    "csr_ok (f\<lparr>mcause := v\<rparr>)" "csr_ok (f\<lparr>scause := v\<rparr>)"
    "csr_ok (f\<lparr>mtval := v\<rparr>)" "csr_ok (f\<lparr>stval := v\<rparr>)"
    "csr_ok (f\<lparr>mcycle := v\<rparr>)" "csr_ok (f\<lparr>minstret := v\<rparr>)"
  using assms by (simp_all add: csr_ok_def mstatus_legal_def and_not_idem)

lemma csr_ok_mstatus: "csr_ok f \<Longrightarrow> mstatus_legal (mstatus f)"
  by (simp add: csr_ok_def mstatus_legal_def)

lemma csr_ok_masked:
  assumes "csr_ok f"
  shows "mideleg f AND NOT kSupervisorInterruptMask = 0"
    "mie f AND NOT kImplementedInterruptMask = 0" "mip f AND NOT kImplementedInterruptMask = 0"
  using assms by (simp_all add: csr_ok_def)

lemma csr_ok_if:
  "(c \<Longrightarrow> csr_ok (fst x)) \<Longrightarrow> (\<not> c \<Longrightarrow> csr_ok (fst y)) \<Longrightarrow> csr_ok (fst (if c then x else y))"
  by simp

lemma csr_write_ok:
  assumes "csr_ok f"
  shows "csr_ok (fst (csr_write f a v p))"
proof (cases "validate_access f a p True")
  case None
  note facts = csr_ok_updates [OF assms] csr_ok_mstatus [OF assms] csr_ok_masked [OF assms]
    sstatus_write_legal normalize_mstatus_legal [folded mstatus_legal_def] merge_masked'
    supervisor_masks_implemented and_not_idem assms
  show ?thesis
    unfolding csr_write_def None option.case Let_def
    by (intro csr_ok_if) (simp_all add: facts del: bit.de_Morgan_conj)
qed (simp add: csr_write_def assms)


subsection \<open>The trap transitions, bit by bit\<close>

lemma bit_privilege_code:
  "bit (push_bit 11 (ucast (privilege_code p)) :: u64) n \<longleftrightarrow> n = 11 \<and> p \<noteq> User \<or> n = 12 \<and> p = Machine"
proof -
  have bits: "bit (push_bit 11 v :: u64) n \<longleftrightarrow> 11 \<le> n \<and> n < 64 \<and> bit v (n - 11)" for v
    by (auto simp: bit_push_bit_iff)
  have codes: "ucast (privilege_code User) = (0 :: u64)" "ucast (privilege_code Supervisor) = (1 :: u64)"
    "ucast (privilege_code Machine) = (3 :: u64)" by simp_all
  show ?thesis unfolding bits by (cases p) (simp_all only: codes bit_three bit_1_iff bit_0_eq, auto)
qed

lemma bit_enter_machine:
  "bit (mstatus (enter_machine f t p)) n \<longleftrightarrow>
     (if n = 3 then False else if n = 7 then bit (mstatus f) 3 else if n = 11 then p \<noteq> User
      else if n = 12 then p = Machine else bit (mstatus f) n)"
  by (auto simp: enter_machine_def Let_def status_test bit_or_iff bit_and_iff bit_not_iff csr_bits
      bit_privilege_code dest: u64_bit_less)

lemma bit_enter_supervisor:
  "bit (mstatus (enter_supervisor f t p)) n \<longleftrightarrow>
     (if n = 1 then False else if n = 5 then bit (mstatus f) 1 else if n = 8 then p = Supervisor
      else bit (mstatus f) n)"
  by (auto simp: enter_supervisor_def Let_def status_test bit_or_iff bit_and_iff bit_not_iff csr_bits
      dest: u64_bit_less)

lemma bit_return_supervisor:
  "bit (mstatus (fst (return_supervisor f))) n \<longleftrightarrow>
     (if n = 1 then bit (mstatus f) 5 else if n = 5 then True else if n = 8 \<or> n = 17 then False
      else bit (mstatus f) n)"
  by (auto simp: return_supervisor_def Let_def status_test bit_or_iff bit_and_iff bit_not_iff csr_bits
      dest: u64_bit_less)

definition mpp_level :: "u64 \<Rightarrow> PrivilegeLevel" where
  "mpp_level m = (if bit m 11 then if bit m 12 then Machine else Supervisor else User)"

lemma bit_mpp_field:
  "bit (ucast (drop_bit 11 (m AND status_kMppMask)) :: u8) n \<longleftrightarrow> n = 0 \<and> bit m 11 \<or> n = 1 \<and> bit m 12"
  by (auto simp: bit_simps csr_bits)

lemma mpp_field_iff:
  "(ucast (drop_bit 11 (m AND status_kMppMask)) :: u8) = 3 \<longleftrightarrow> bit m 11 \<and> bit m 12"
  "(ucast (drop_bit 11 (m AND status_kMppMask)) :: u8) = 1 \<longleftrightarrow> bit m 11 \<and> \<not> bit m 12"
  unfolding u8_eq_iff_bits bit_mpp_field all_less_8 by simp_all

lemma return_machine_target: "tr_target (snd (return_machine f)) = mpp_level (mstatus f)"
  by (simp add: return_machine_def Let_def mpp_field_iff mpp_level_def del: drop_bit_and)

lemma bit_return_machine:
  "bit (mstatus (fst (return_machine f))) n \<longleftrightarrow>
     (if n = 3 then bit (mstatus f) 7 else if n = 7 then True else if n = 11 \<or> n = 12 then False
      else if n = 17 then bit (mstatus f) 17 \<and> tr_target (snd (return_machine f)) = Machine
      else bit (mstatus f) n)"
  by (auto simp: return_machine_def Let_def status_test bit_or_iff bit_and_iff bit_not_iff csr_bits
      dest: u64_bit_less)


lemma enter_machine_ok: "csr_ok f \<Longrightarrow> csr_ok (enter_machine f t p)"
proof -
  assume ok: "csr_ok f"
  have "mstatus_legal (mstatus (enter_machine f t p))"
    using csr_ok_mstatus [OF ok] unfolding mstatus_legal_def mstatus_legal_iff bit_enter_machine
    by (auto split: if_splits)
  moreover have "enter_machine f t p = f\<lparr>mstatus := mstatus (enter_machine f t p),
      mepc := trap_pc t AND - 4, mcause := cause_code (trap_cause t), mtval := trap_value t\<rparr>"
    by (simp add: enter_machine_def Let_def)
  ultimately show ?thesis using ok by (metis csr_ok_updates)
qed

lemma enter_supervisor_ok: "csr_ok f \<Longrightarrow> csr_ok (enter_supervisor f t p)"
proof -
  assume ok: "csr_ok f"
  have "mstatus_legal (mstatus (enter_supervisor f t p))"
    using csr_ok_mstatus [OF ok] unfolding mstatus_legal_def mstatus_legal_iff bit_enter_supervisor
    by (auto split: if_splits)
  moreover have "enter_supervisor f t p = f\<lparr>mstatus := mstatus (enter_supervisor f t p),
      sepc := trap_pc t AND - 4, scause := cause_code (trap_cause t), stval := trap_value t\<rparr>"
    by (simp add: enter_supervisor_def Let_def)
  ultimately show ?thesis using ok by (metis csr_ok_updates)
qed

lemma enter_trap_ok: "csr_ok f \<Longrightarrow> csr_ok (fst (enter_trap f t p))"
  by (simp add: enter_trap_def Let_def enter_machine_ok enter_supervisor_ok)

lemma return_fields:
  "fst (return_machine f) = f\<lparr>mstatus := mstatus (fst (return_machine f))\<rparr>"
  "fst (return_supervisor f) = f\<lparr>mstatus := mstatus (fst (return_supervisor f))\<rparr>"
  "tr_pc (snd (return_machine f)) = mepc f" "tr_pc (snd (return_supervisor f)) = sepc f"
  "tr_target (snd (return_supervisor f)) = (if bit (mstatus f) 8 then Supervisor else User)"
  by (simp_all add: return_machine_def return_supervisor_def Let_def status_test)

lemma return_from_trap_ok: "csr_ok f \<Longrightarrow> csr_ok (fst (return_from_trap f mode))"
proof -
  assume ok: "csr_ok f"
  have "mstatus_legal (mstatus (fst (return_machine f)))"
    "mstatus_legal (mstatus (fst (return_supervisor f)))"
    using csr_ok_mstatus [OF ok]
    unfolding mstatus_legal_def mstatus_legal_iff bit_return_machine bit_return_supervisor
    by (auto split: if_splits)
  then show ?thesis using ok return_fields(1,2) [of f] csr_ok_updates(1) [OF ok]
    by (cases mode) (metis return_from_trap_def TrapReturnMode.distinct(1))+
qed


subsection \<open>Trap stacks: entry and return of one register bank\<close>

text \<open>
  What both banks promise: entry pushes the interrupt enable and the origin mode, return pops
  them. \<open>frame\<close> is what a handler has to leave alone for its return to work.
\<close>

locale trap_stack =
  fixes enter :: "'s \<Rightarrow> Trap \<Rightarrow> PrivilegeLevel \<Rightarrow> 's"
    and leave :: "'s \<Rightarrow> 's \<times> TrapReturn"
    and enabled :: "'s \<Rightarrow> bool"
    and previous :: "'s \<Rightarrow> bool \<times> PrivilegeLevel \<times> u64"
    and origins :: "PrivilegeLevel set"
  assumes enter_enabled: "\<not> enabled (enter s t p)"
    and enter_previous: "p \<in> origins \<Longrightarrow> previous (enter s t p) = (enabled s, p, trap_pc t AND - 4)"
    and leave_result:
      "previous s = (e, p, pc) \<Longrightarrow> enabled (fst (leave s)) = e \<and> snd (leave s) = \<lparr>tr_target = p, tr_pc = pc\<rparr>"
    and leave_previous: "\<exists>pc. previous (fst (leave s)) = (True, User, pc)"
begin

lemma handler_returns:
  assumes "p \<in> origins" "previous s' = previous (enter s t p)"
  shows "snd (leave s') = \<lparr>tr_target = p, tr_pc = trap_pc t AND - 4\<rparr> \<and> enabled (fst (leave s')) = enabled s"
  using leave_result assms by (simp add: enter_previous)

lemma round_trip:
  "p \<in> origins \<Longrightarrow> snd (leave (enter s t p)) = \<lparr>tr_target = p, tr_pc = trap_pc t AND - 4\<rparr> \<and>
     enabled (fst (leave (enter s t p))) = enabled s"
  by (rule handler_returns) simp_all

lemma second_return_drops:
  "tr_target (snd (leave (fst (leave s)))) = User"
  using leave_previous [of s] leave_result by fastforce

end

definition machine_enabled :: "CsrFile \<Rightarrow> bool" where
  "machine_enabled f = bit (mstatus f) 3"

definition machine_previous :: "CsrFile \<Rightarrow> bool \<times> PrivilegeLevel \<times> u64" where
  "machine_previous f = (bit (mstatus f) 7, mpp_level (mstatus f), mepc f)"

definition supervisor_enabled :: "CsrFile \<Rightarrow> bool" where
  "supervisor_enabled f = bit (mstatus f) 1"

definition supervisor_previous :: "CsrFile \<Rightarrow> bool \<times> PrivilegeLevel \<times> u64" where
  "supervisor_previous f = (bit (mstatus f) 5, if bit (mstatus f) 8 then Supervisor else User, sepc f)"

lemma enter_epc:
  "mepc (enter_machine f t p) = trap_pc t AND - 4" "sepc (enter_supervisor f t p) = trap_pc t AND - 4"
  by (simp_all add: enter_machine_def enter_supervisor_def Let_def)

lemma return_result:
  "snd (return_machine f) = \<lparr>tr_target = mpp_level (mstatus f), tr_pc = mepc f\<rparr>"
  "snd (return_supervisor f) = \<lparr>tr_target = (if bit (mstatus f) 8 then Supervisor else User), tr_pc = sepc f\<rparr>"
  using return_machine_target [of f] return_fields(3-5) [of f]
  by (cases "snd (return_machine f)", cases "snd (return_supervisor f)", simp)+

interpretation machine: trap_stack enter_machine return_machine machine_enabled machine_previous UNIV
proof unfold_locales
  fix s t p
  show "machine_previous (enter_machine s t p) = (machine_enabled s, p, trap_pc t AND - 4)"
    by (cases p) (simp_all add: machine_previous_def machine_enabled_def bit_enter_machine mpp_level_def enter_epc)
qed (auto simp: machine_enabled_def machine_previous_def bit_enter_machine bit_return_machine return_result mpp_level_def)

interpretation supervisor: trap_stack enter_supervisor return_supervisor supervisor_enabled
  supervisor_previous "{User, Supervisor}"
  by unfold_locales (auto simp: supervisor_enabled_def supervisor_previous_def bit_enter_supervisor
      bit_return_supervisor return_result enter_epc)

subsection \<open>Access control\<close>

lemma implemented_cases:
  assumes "is_implemented a"
  shows "a \<in> {0xC00, 0xC02} \<and> csr_minimum_privilege a = User \<and> csr_is_read_only a \<or>
    a \<in> {0x100, 0x104, 0x105, 0x106, 0x140, 0x141, 0x142, 0x143, 0x144, 0x180} \<and>
      csr_minimum_privilege a = Supervisor \<and> \<not> csr_is_read_only a \<or>
    a \<in> {0x300, 0x301, 0x302, 0x303, 0x304, 0x305, 0x306, 0x340, 0x341, 0x342, 0x343, 0x344, 0xB00, 0xB02} \<and>
      csr_minimum_privilege a = Machine \<and> \<not> csr_is_read_only a \<or>
    a = 0xF14 \<and> csr_minimum_privilege a = Machine \<and> csr_is_read_only a"
  using assms unfolding is_implemented_def
  by (auto simp: csr_minimum_privilege_def csr_is_read_only_def Let_def)

lemma validate_write_iff:
  "validate_access f a p True = None \<longleftrightarrow>
     is_implemented a \<and> \<not> csr_is_read_only a \<and> csr_minimum_privilege a \<le> p"
  by (auto simp: validate_access_def Let_def)

lemma validate_read_iff:
  "validate_access f a p False = None \<longleftrightarrow>
     is_implemented a \<and> csr_minimum_privilege a \<le> p \<and>
     (counter_bit a \<noteq> 0 \<longrightarrow> p \<noteq> Machine \<longrightarrow>
        mcounteren f AND counter_bit a \<noteq> 0 \<and> (p = User \<longrightarrow> scounteren f AND counter_bit a \<noteq> 0))"
  by (auto simp: validate_access_def Let_def)

lemma writable_cases:
  assumes "validate_access f a p True = None"
  obtains
    "a \<in> {0x100, 0x104, 0x105, 0x106, 0x140, 0x141, 0x142, 0x143, 0x144, 0x180}" "Supervisor \<le> p"
  | "a \<in> {0x300, 0x301, 0x302, 0x303, 0x304, 0x305, 0x306, 0x340, 0x341, 0x342, 0x343, 0x344, 0xB00, 0xB02}"
      "p = Machine"
  using assms implemented_cases [of a] unfolding validate_write_iff by (cases p) auto

lemma csr_write_succeeds:
  assumes "validate_access f a p True = None"
  shows "snd (csr_write f a v p) = None"
  unfolding csr_write_def assms option.case Let_def
  using assms by (rule writable_cases) auto

lemma csr_read_succeeds:
  assumes "validate_access f a p False = None"
  shows "\<exists>v. csr_read f a p = Inr v"
proof -
  have "is_implemented a" using assms by (simp add: validate_read_iff)
  then show ?thesis unfolding is_implemented_def by (auto simp: csr_read_def assms)
qed

lemma csr_write_cases:
  "csr_write f a v p = (f, validate_access f a p True) \<and> validate_access f a p True \<noteq> None \<or>
   snd (csr_write f a v p) = None \<and> validate_access f a p True = None"
  by (cases "validate_access f a p True") (simp add: csr_write_succeeds, simp add: csr_write_def)

lemma csr_write_result: "snd (csr_write f a v p) = validate_access f a p True"
  using csr_write_cases [of f a v p] by auto

lemma csr_write_error: "validate_access f a p True = Some e \<Longrightarrow> csr_write f a v p = (f, Some e)"
  by (simp add: csr_write_def)

lemma csr_user_write: "csr_write f a v User = (f, validate_access f a User True) \<and>
   validate_access f a User True \<noteq> None"
proof -
  have "validate_access f a User True \<noteq> None"
  proof
    assume "validate_access f a User True = None"
    then show False by (rule writable_cases) auto
  qed
  then show ?thesis using csr_write_cases [of f a v User] by auto
qed

lemma csr_user_read:
  "csr_read f a User = Inr v \<longleftrightarrow>
     a = csr_kCycle \<and> bit (mcounteren f) 0 \<and> bit (scounteren f) 0 \<and> v = mcycle f \<or>
     a = csr_kInstret \<and> bit (mcounteren f) 2 \<and> bit (scounteren f) 2 \<and> v = minstret f"
proof -
  have cycle: "x AND kCounterCycle = 0 \<longleftrightarrow> \<not> bit x 0" "x AND kCounterInstret = 0 \<longleftrightarrow> \<not> bit x 2"
    for x using and_single_iff [OF bit_counter_masks(1)] and_single_iff [OF bit_counter_masks(3)] by auto
  have nz: "kCounterCycle \<noteq> 0" "kCounterInstret \<noteq> 0"
    by (simp_all add: kCounterCycle_def kCounterInstret_def)
  have "validate_access f a User False = None \<longleftrightarrow>
     a = csr_kCycle \<and> bit (mcounteren f) 0 \<and> bit (scounteren f) 0 \<or>
     a = csr_kInstret \<and> bit (mcounteren f) 2 \<and> bit (scounteren f) 2" (is "?L = ?R")
  proof
    assume L: ?L
    then have "a \<in> {0xC00, 0xC02}" using implemented_cases [of a] by (auto simp: validate_read_iff)
    with L show ?R by (auto simp: validate_read_iff counter_bit_def cycle nz)
  next
    assume ?R
    moreover have "csr_minimum_privilege 0xC00 = User" "csr_minimum_privilege 0xC02 = User"
      by (simp_all add: csr_minimum_privilege_def)
    ultimately show ?L by (auto simp: validate_read_iff counter_bit_def cycle nz is_implemented_def)
  qed
  then show ?thesis
    by (cases "validate_access f a User False") (auto simp: csr_read_def)
qed

lemma csr_supervisor_write_frame:
  fixes f :: CsrFile and a :: u16 and v :: u64
  assumes "p \<noteq> Machine"
  defines "f' \<equiv> fst (csr_write f a v p)"
  shows "medeleg f' = medeleg f \<and> mideleg f' = mideleg f \<and> mtvec f' = mtvec f \<and>
    mcounteren f' = mcounteren f \<and> mscratch f' = mscratch f \<and> mepc f' = mepc f \<and>
    mcause f' = mcause f \<and> mtval f' = mtval f \<and> mcycle f' = mcycle f \<and> minstret f' = minstret f \<and>
    mstatus f' AND NOT status_kSstatusWritableMask = mstatus f AND NOT status_kSstatusWritableMask \<and>
    mie f' AND NOT (mideleg f) = mie f AND NOT (mideleg f) \<and>
    mip f' AND NOT (mideleg f) = mip f AND NOT (mideleg f)"
proof (cases "validate_access f a p True")
  case None
  have masks: "((m AND NOT k) OR (v AND k)) AND NOT k = m AND NOT k"
    "((m AND NOT (d AND k)) OR (v AND (d AND k))) AND NOT d = m AND NOT d" for m v k d :: u64
    by (auto simp: u64_eq_iff_bits bit_simps)
  show ?thesis
    unfolding f'_def csr_write_def None option.case Let_def
    using None by (rule writable_cases) (use assms(1) in \<open>auto simp: masks simp del: bit.de_Morgan_conj\<close>)
qed (simp add: csr_write_def f'_def)

lemma csr_write_readback:
  assumes "csr_ok f" "csr_read f a p = Inr v"
  shows "fst (csr_write f a v p) = f"
proof (cases "validate_access f a p True")
  case None
  have r: "validate_access f a p False = None"
    using assms(2) by (cases "validate_access f a p False") (auto simp: csr_read_def)
  have merge: "(m AND NOT k) OR ((m AND k) OR u) AND k = m" if "u AND k = 0" for m k u :: u64
    using that by (auto simp: u64_eq_iff_bits bit_simps dest: u64_bit_less)
  have fixed: "status_kUxl64 AND status_kSstatusWritableMask = 0"
    by (auto simp: u64_eq_iff_bits bit_and_iff csr_bits)
  have keep: "x AND k = x" if "x AND NOT k = 0" for x k :: u64
    using that by (auto simp: u64_eq_iff_bits bit_and_iff bit_not_iff dest: u64_bit_less)
  have aligned: "x AND - 4 = x" if "x AND 3 = 0" for x :: u64
    using keep [of x "NOT 3"] that by simp
  have norm: "normalize_mstatus (mstatus f OR status_kMstatusFixedValue) = mstatus f"
  proof -
    have "(mstatus f OR status_kMstatusFixedValue) AND status_kMstatusWritableMask = mstatus f"
      using csr_ok_mstatus [OF assms(1)] unfolding mstatus_legal_def mstatus_legal_iff
      by (auto simp: u64_eq_iff_bits bit_and_iff bit_or_iff csr_bits)
    moreover have "mpp (mstatus f) \<noteq> 2" using assms(1) by (simp add: csr_ok_def)
    ultimately show ?thesis by (simp add: normalize_mstatus_def mpp_def Let_def)
  qed
  have ok: "medeleg f AND kDelegatableExceptionMask = medeleg f"
    "mideleg f AND kSupervisorInterruptMask = mideleg f"
    "mie f AND kImplementedInterruptMask = mie f" "mip f AND kImplementedInterruptMask = mip f"
    "mcounteren f AND kCounterEnableMask = mcounteren f"
    "scounteren f AND kCounterEnableMask = scounteren f"
    "mtvec f AND - 4 = mtvec f" "stvec f AND - 4 = stvec f"
    "mepc f AND - 4 = mepc f" "sepc f AND - 4 = sepc f"
    "satp f = 0 \<or> satp f AND kSatpModeMask = kSatpModeSv39"
    using assms(1) unfolding csr_ok_def by (blast intro: keep aligned)+
  have visible': "(m AND NOT d) OR (m AND d) = m"
    "(m AND NOT (d AND k)) OR ((m AND d) AND (d AND k)) = m" for m d k :: u64
    by (auto simp: u64_eq_iff_bits bit_simps dest: u64_bit_less)
  have sv39: "kSatpModeSv39 \<noteq> 0" by (simp add: kSatpModeSv39_def)
  have v: "v = projr (csr_read f a p)" by (simp add: assms(2))
  show ?thesis
    unfolding csr_write_def None option.case Let_def v csr_read_def r
    by (rule writable_cases [OF None]; elim insertE emptyE)
      (simp_all add: ok norm merge [OF fixed] visible' sv39 del: bit.de_Morgan_conj, use ok(11) sv39 in auto)
qed (simp add: csr_write_def)


subsection \<open>Which bank a trap uses\<close>

lemma enter_trap_cases:
  "enter_trap f t p = (if trap_delegated f (trap_cause t) p
     then (enter_supervisor f t p, \<lparr>te_target = Supervisor, te_vector = stvec f AND - 4\<rparr>)
     else (enter_machine f t p, \<lparr>te_target = Machine, te_vector = mtvec f AND - 4\<rparr>))"
  by (simp add: enter_trap_def enter_supervisor_def enter_machine_def Let_def)

lemma machine_origin_not_delegated [simp]: "\<not> trap_delegated f c Machine"
  by (simp add: trap_delegated_def Let_def)

lemma trap_delegated_iff: "trap_delegated f c p \<longleftrightarrow> p \<noteq> Machine \<and> bit (medeleg f) (unat (cause_code c))"
proof -
  have n: "unat (cause_code c) < 64" "cause_code c < 64" by (cases c; simp)+
  then have "medeleg f AND push_bit (unat (cause_code c)) 1 \<noteq> 0 \<longleftrightarrow> bit (medeleg f) (unat (cause_code c))"
    by (intro and_single_iff) (simp only: bit_single, auto)
  then show ?thesis using n by (simp add: trap_delegated_def Let_def)
qed

lemma enter_supervisor_frame:
  "enter_supervisor f t p = f\<lparr>mstatus := mstatus (enter_supervisor f t p),
     sepc := trap_pc t AND - 4, scause := cause_code (trap_cause t), stval := trap_value t\<rparr>"
  by (simp add: enter_supervisor_def Let_def)

lemma enter_machine_frame:
  "enter_machine f t p = f\<lparr>mstatus := mstatus (enter_machine f t p),
     mepc := trap_pc t AND - 4, mcause := cause_code (trap_cause t), mtval := trap_value t\<rparr>"
  by (simp add: enter_machine_def Let_def)

end
