(* ===== verification/Memory.thy ===== *)
theory Memory
  imports Prelude
begin

text \<open>
  The device side of the physical memory map: the mapped-device base class and the sparse
  RAM (\<^verbatim>\<open>memory.hpp\<close>, \<^verbatim>\<open>memory.cpp\<close>). Derived classes are record extensions of their
  base class. The RAM's page table, a \<^verbatim>\<open>std::map\<close>, is a map from page numbers to pages; a
  page, an array of 4096 bytes, is a function on the 12-bit offsets.

  The lemmas relate the sparse representation to a flat byte memory: the interface
  \<open>byte_store\<close> states what a store of little-endian bytes promises, its consequences
  (a read returns what was written, disjoint accesses do not interfere) are proved once,
  and the sparse RAM is shown to provide it.
\<close>

subsection \<open>Widths and ranges\<close>

definition valid_width :: "nat \<Rightarrow> bool" where
  "valid_width w \<longleftrightarrow> w = 1 \<or> w = 2 \<or> w = 4 \<or> w = 8"

definition ranges_overlap :: "u64 \<Rightarrow> u64 \<Rightarrow> u64 \<Rightarrow> u64 \<Rightarrow> bool" where
  "ranges_overlap first_base first_size second_base second_size \<longleftrightarrow>
     (if first_size = 0 \<or> second_size = 0 then False
      else let first_end = first_base + first_size - 1;
               second_end = second_base + second_size - 1
           in first_base \<le> second_end \<and> second_base \<le> first_end)"

lemma valid_width_le_8: "valid_width w \<Longrightarrow> 0 < w \<and> w \<le> 8"
  by (auto simp: valid_width_def)

subsection \<open>Mapped devices\<close>

record MappedDevice =
  md_base :: u64
  md_size :: u64
  md_name :: string

definition make_mapped_device :: "u64 \<Rightarrow> u64 \<Rightarrow> string \<Rightarrow> exn + MappedDevice" where
  "make_mapped_device b sz name =
     (if sz = 0 then Inl (InvalidArgument ''a mapped device cannot have zero size'')
      else if add_overflows b (sz - 1)
        then Inl (InvalidArgument ''mapped device address range overflows'')
      else if name = [] then Inl (InvalidArgument ''a mapped device requires a name'')
      else Inr \<lparr>md_base = b, md_size = sz, md_name = name\<rparr>)"

definition contains :: "'a MappedDevice_scheme \<Rightarrow> u64 \<Rightarrow> nat \<Rightarrow> bool" where
  "contains d address width =
     (if \<not> valid_width width \<or> address < md_base d then False
      else let offset = address - md_base d
           in offset < md_size d \<and> of_nat width \<le> md_size d - offset)"

subsection \<open>Sparse RAM\<close>

type_synonym page = "12 word \<Rightarrow> u8"

record SparseRam = MappedDevice +
  ram_pages :: "u64 \<rightharpoonup> page"

definition make_sparse_ram :: "u64 \<Rightarrow> u64 \<Rightarrow> string \<Rightarrow> exn + SparseRam" where
  "make_sparse_ram b sz name =
     (case make_mapped_device b sz name of
        Inl e \<Rightarrow> Inl e
      | Inr d \<Rightarrow> Inr (MappedDevice.extend d (SparseRam.fields Map.empty)))"

definition page_number :: "u64 \<Rightarrow> u64" where
  "page_number offset = offset div 4096"

definition page_offset :: "u64 \<Rightarrow> 12 word" where
  "page_offset offset = ucast (offset mod 4096)"

definition read_byte :: "SparseRam \<Rightarrow> u64 \<Rightarrow> u8" where
  "read_byte r offset =
     (case ram_pages r (page_number offset) of
        None \<Rightarrow> 0
      | Some page \<Rightarrow> page (page_offset offset))"

definition write_byte :: "SparseRam \<Rightarrow> u64 \<Rightarrow> u8 \<Rightarrow> SparseRam" where
  "write_byte r offset value =
     (let existing = ram_pages r (page_number offset)
      in if value = 0 \<and> existing = None then r
         else let page = (case existing of None \<Rightarrow> (\<lambda>_. 0) | Some p \<Rightarrow> p)
              in r\<lparr>ram_pages := (ram_pages r)(page_number offset \<mapsto> page(page_offset offset := value))\<rparr>)"

definition ram_out_of_range :: "SparseRam \<Rightarrow> u64 \<Rightarrow> nat \<Rightarrow> bool" where
  "ram_out_of_range r offset width \<longleftrightarrow>
     \<not> valid_width width \<or> offset \<ge> md_size r \<or> of_nat width > md_size r - offset"

definition ram_read :: "SparseRam \<Rightarrow> u64 \<Rightarrow> nat \<Rightarrow> string + u64" where
  "ram_read r offset width =
     (if ram_out_of_range r offset width then Inl ''RAM read exceeds the mapped range''
      else Inr (le_value (\<lambda>index. read_byte r (offset + of_nat index)) width))"

definition ram_write_loop :: "SparseRam \<Rightarrow> u64 \<Rightarrow> nat \<Rightarrow> u64 \<Rightarrow> SparseRam" where
  "ram_write_loop r offset width value =
     fold (\<lambda>index r. write_byte r (offset + of_nat index) (le_byte value index)) [0..<width] r"

definition ram_write :: "SparseRam \<Rightarrow> u64 \<Rightarrow> nat \<Rightarrow> u64 \<Rightarrow> SparseRam \<times> string option" where
  "ram_write r offset width value =
     (if ram_out_of_range r offset width then (r, Some ''RAM write exceeds the mapped range'')
      else (ram_write_loop r offset width value, None))"

definition allocated_pages :: "SparseRam \<Rightarrow> nat" where
  "allocated_pages r = card (dom (ram_pages r))"

definition ram_clear :: "SparseRam \<Rightarrow> SparseRam" where
  "ram_clear r = r\<lparr>ram_pages := Map.empty\<rparr>"

subsection \<open>Single bytes\<close>

lemma unat_page_offset: "unat (page_offset x) = unat x mod 4096"
  by (simp add: page_offset_def unsigned_ucast_eq unat_mod take_bit_eq_mod)

lemma unat_page_number: "unat (page_number x) = unat x div 4096"
  by (simp add: page_number_def unat_div)

lemma page_address_inject:
  "page_number a = page_number b \<Longrightarrow> page_offset a = page_offset b \<Longrightarrow> a = b"
proof -
  assume "page_number a = page_number b" and "page_offset a = page_offset b"
  then have "unat a div 4096 = unat b div 4096" and "unat a mod 4096 = unat b mod 4096"
    by (simp_all flip: unat_page_number unat_page_offset)
  then have "unat a = unat b" by (metis div_mult_mod_eq)
  then show "a = b" by (rule unsigned_word_eqI)
qed

lemma read_write_byte_same: "read_byte (write_byte r a v) a = v"
  by (auto simp: read_byte_def write_byte_def Let_def)

lemma read_write_byte_other: "a \<noteq> b \<Longrightarrow> read_byte (write_byte r a v) b = read_byte r b"
proof -
  assume "a \<noteq> b"
  then have "page_number a \<noteq> page_number b \<or> page_offset b \<noteq> page_offset a"
    using page_address_inject by metis
  then show ?thesis
    by (cases "ram_pages r (page_number a)") (auto simp: read_byte_def write_byte_def Let_def)
qed

lemma read_write_byte:
  "read_byte (write_byte r a v) b = (if a = b then v else read_byte r b)"
  by (simp add: read_write_byte_same read_write_byte_other)

lemma disjoint_offset:
  fixes a b :: u64
  assumes "unat a + w \<le> unat b \<or> unat b + u \<le> unat a"
    and "unat a + w \<le> 2 ^ 64" "unat b + u \<le> 2 ^ 64" "i < u"
  shows "\<not> unat (b + of_nat i - a) < w"
proof -
  have i: "i < 2 ^ 64" and bi: "unat b + i < 2 ^ 64" using assms by simp_all
  then have "unat (b + of_nat i) = unat b + i"
    by (simp add: unat_word_ariths unat_of_nat_u64)
  then show ?thesis using assms bi unat_u64_less [of a] by (auto simp: unat_sub_if')
qed

subsection \<open>The interface of a store of bytes\<close>

text \<open>
  What the bus promises the processor, and what the RAM promises the bus: inside the
  accessible ranges a read assembles the bytes at consecutive addresses, least significant
  first, and a write changes exactly the bytes it covers.
\<close>

locale byte_store =
  fixes accessible :: "'s \<Rightarrow> u64 \<Rightarrow> nat \<Rightarrow> bool"
    and byte :: "'s \<Rightarrow> u64 \<Rightarrow> u8"
    and rd :: "'s \<Rightarrow> u64 \<Rightarrow> nat \<Rightarrow> 'e + u64"
    and wr :: "'s \<Rightarrow> u64 \<Rightarrow> nat \<Rightarrow> u64 \<Rightarrow> 's \<times> 'f option"
  assumes accessible_width: "accessible s a w \<Longrightarrow> valid_width w"
    and accessible_no_wrap: "accessible s a w \<Longrightarrow> unat a + w \<le> 2 ^ 64"
    and rd_ok: "accessible s a w \<Longrightarrow> rd s a w = Inr (le_value (\<lambda>i. byte s (a + of_nat i)) w)"
    and wr_ok: "accessible s a w \<Longrightarrow> snd (wr s a w v) = None"
    and wr_accessible: "accessible s a w \<Longrightarrow> accessible (fst (wr s a w v)) b u = accessible s b u"
    and wr_byte: "accessible s a w \<Longrightarrow> byte (fst (wr s a w v)) b =
      (if unat (b - a) < w then le_byte v (unat (b - a)) else byte s b)"
begin

lemma width_le_8: "accessible s a w \<Longrightarrow> w \<le> 8"
  using accessible_width valid_width_le_8 by blast

lemma rd_wr_same:
  assumes "accessible s a w"
  shows "rd (fst (wr s a w v)) a w = Inr (v AND mask (w * 8))"
proof -
  have "le_value (\<lambda>i. byte (fst (wr s a w v)) (a + of_nat i)) w = le_value (le_byte v) w"
    by (rule le_value_cong)
      (use width_le_8 [OF assms] in \<open>simp add: wr_byte [OF assms] unat_of_nat_u64\<close>)
  then show ?thesis
    using rd_ok [of "fst (wr s a w v)" a w] assms
    by (simp add: wr_accessible le_value_le_byte width_le_8)
qed

lemma rd_wr_disjoint:
  assumes "accessible s a w" "accessible s b u" "unat a + w \<le> unat b \<or> unat b + u \<le> unat a"
  shows "rd (fst (wr s a w v)) b u = rd s b u"
proof -
  have "\<not> unat (b + of_nat i - a) < w" if "i < u" for i
    using assms(3) that accessible_no_wrap [OF assms(1)] accessible_no_wrap [OF assms(2)]
      disjoint_offset by blast
  then have "le_value (\<lambda>i. byte (fst (wr s a w v)) (b + of_nat i)) u =
      le_value (\<lambda>i. byte s (b + of_nat i)) u"
    by (intro le_value_cong) (simp add: wr_byte [OF assms(1)])
  then show ?thesis
    using assms rd_ok [of "fst (wr s a w v)" b u] by (simp add: wr_accessible rd_ok)
qed

lemma wr_wr_byte:
  assumes "accessible s a w"
  shows "byte (fst (wr (fst (wr s a w v)) a w v')) b = byte (fst (wr s a w v')) b"
  using assms by (simp add: wr_byte wr_accessible)

end

subsection \<open>The sparse RAM is a store of bytes\<close>

lemma ram_write_loop_0 [simp]: "ram_write_loop r a 0 v = r"
  by (simp add: ram_write_loop_def)

lemma ram_write_loop_Suc [simp]:
  "ram_write_loop r a (Suc w) v = write_byte (ram_write_loop r a w v) (a + of_nat w) (le_byte v w)"
  by (simp add: ram_write_loop_def)

lemma write_byte_size [simp]: "md_size (write_byte r a v) = md_size r"
  "md_base (write_byte r a v) = md_base r" "md_name (write_byte r a v) = md_name r"
  by (simp_all add: write_byte_def Let_def)

lemma ram_write_loop_size [simp]: "md_size (ram_write_loop r a w v) = md_size r"
  "md_base (ram_write_loop r a w v) = md_base r" "md_name (ram_write_loop r a w v) = md_name r"
  by (induction w) simp_all

lemma ram_write_size [simp]: "md_size (fst (ram_write r a w v)) = md_size r"
  "md_base (fst (ram_write r a w v)) = md_base r" "md_name (fst (ram_write r a w v)) = md_name r"
  by (simp_all add: ram_write_def)

lemma read_ram_write_loop:
  "w \<le> 8 \<Longrightarrow> read_byte (ram_write_loop r a w v) b =
     (if unat (b - a) < w then le_byte v (unat (b - a)) else read_byte r b)"
proof (induction w)
  case (Suc w)
  have "a + of_nat w = b \<longleftrightarrow> unat (b - a) = w"
    using Suc.prems by (auto simp: unat_of_nat_u64)
  with Suc show ?case by (auto simp: read_write_byte less_Suc_eq)
qed simp

lemma ram_in_range_no_wrap:
  "\<not> ram_out_of_range r a w \<Longrightarrow> unat a + w \<le> unat (md_size r)"
proof -
  assume "\<not> ram_out_of_range r a w"
  then have w: "valid_width w" "a < md_size r" "of_nat w \<le> md_size r - a"
    by (auto simp: ram_out_of_range_def)
  then have "w \<le> unat (md_size r - a)"
    using valid_width_le_8 [OF w(1)] by (simp add: word_le_nat_alt unat_of_nat_u64)
  with w(2) show ?thesis by (simp add: unat_sub_if' word_less_nat_alt)
qed

interpretation ram: byte_store "\<lambda>r a w. \<not> ram_out_of_range r a w" read_byte ram_read ram_write
proof unfold_locales
  fix r a w v b u
  assume in_range: "\<not> ram_out_of_range r a w"
  then show "valid_width w" by (simp add: ram_out_of_range_def)
  then have "w \<le> 8" by (simp add: valid_width_le_8)
  show "unat a + w \<le> 2 ^ 64"
    using ram_in_range_no_wrap [OF in_range] unat_u64_less [of "md_size r"] by simp
  show "ram_read r a w = Inr (le_value (\<lambda>i. read_byte r (a + of_nat i)) w)"
    using in_range by (simp add: ram_read_def)
  show "snd (ram_write r a w v) = None" using in_range by (simp add: ram_write_def)
  show "(\<not> ram_out_of_range (fst (ram_write r a w v)) b u) = (\<not> ram_out_of_range r b u)"
    by (simp add: ram_out_of_range_def)
  show "read_byte (fst (ram_write r a w v)) b =
      (if unat (b - a) < w then le_byte v (unat (b - a)) else read_byte r b)"
    using in_range \<open>w \<le> 8\<close> by (simp add: ram_write_def read_ram_write_loop)
qed

end
