(* ===== verification/Uart.thy ===== *)
theory Uart
  imports Memory
begin

text \<open>
  The 16550 UART (\<^verbatim>\<open>uart.hpp\<close>, \<^verbatim>\<open>uart.cpp\<close>), a mapped device with an output history and
  an optional host stream. The stream is the list of characters put on it, \<open>None\<close> when
  the pointer is null; flushing it is not modelled.
\<close>

record Uart16550 = MappedDevice +
  uart_output :: "string option"
  uart_transmitted :: string

definition kDefaultBase :: u64 where "kDefaultBase = 0x10000000"

definition kRegisterSpan :: u64 where "kRegisterSpan = 8"

definition make_uart :: "u64 \<Rightarrow> string option \<Rightarrow> exn + Uart16550" where
  "make_uart b output =
     (case make_mapped_device b kRegisterSpan ''uart16550'' of
        Inl e \<Rightarrow> Inl e
      | Inr d \<Rightarrow> Inr (MappedDevice.extend d (Uart16550.fields output [])))"

definition uart_read :: "Uart16550 \<Rightarrow> u64 \<Rightarrow> nat \<Rightarrow> string + u64" where
  "uart_read u offset width =
     (if width \<noteq> 1 then Inl ''the UART model only supports byte accesses''
      else if offset = 0 then Inr 0
      else if offset = 5 then Inr 0x60
      else Inr 0)"

definition uart_write :: "Uart16550 \<Rightarrow> u64 \<Rightarrow> nat \<Rightarrow> u64 \<Rightarrow> Uart16550 \<times> string option" where
  "uart_write u offset width value =
     (if width \<noteq> 1 then (u, Some ''the UART model only supports byte accesses'')
      else if offset = 0 then
        let character = char_of (unat (value AND 0xff))
        in (u\<lparr>uart_transmitted := uart_transmitted u @ [character],
              uart_output := map_option (\<lambda>s. s @ [character]) (uart_output u)\<rparr>, None)
      else (u, None))"

definition clear_transmitted :: "Uart16550 \<Rightarrow> Uart16550" where
  "clear_transmitted u = u\<lparr>uart_transmitted := []\<rparr>"

lemma uart_write_frame [simp]:
  "md_base (fst (uart_write u a w v)) = md_base u"
  "md_size (fst (uart_write u a w v)) = md_size u"
  "md_name (fst (uart_write u a w v)) = md_name u"
  by (simp_all add: uart_write_def Let_def)

text \<open>The host stream always ends with what was transmitted since it was attached.\<close>

definition uart_synchronised :: "string \<Rightarrow> Uart16550 \<Rightarrow> bool" where
  "uart_synchronised before u \<longleftrightarrow>
     (\<forall>s. uart_output u = Some s \<longrightarrow> s = before @ uart_transmitted u)"

lemma uart_write_synchronised:
  "uart_synchronised before u \<Longrightarrow> uart_synchronised before (fst (uart_write u a w v))"
  by (auto simp: uart_synchronised_def uart_write_def Let_def)

lemma uart_write_error_iff: "snd (uart_write u a w v) = None \<longleftrightarrow> w = 1"
  by (simp add: uart_write_def Let_def)

end
