(* ===== verification/Bus.thy ===== *)
theory Bus
  imports Uart "HOL-Library.Multiset"
begin

text \<open>
  The physical memory bus (\<^verbatim>\<open>memory.hpp\<close>, \<^verbatim>\<open>memory.cpp\<close>): a vector of devices kept in
  the order of their base addresses. The two concrete device classes are the constructors
  of \<open>Device\<close>, and the virtual functions dispatch on them. A pointer into the vector, as
  \<^verbatim>\<open>find\<close> returns it, is the index of the device.
\<close>

subsection \<open>Devices and faults\<close>

datatype AccessKind = InstructionFetch | Load | Store | PageTableWalk | ImageLoad

fun access_kind_name :: "AccessKind \<Rightarrow> string" where
  "access_kind_name InstructionFetch = ''instruction-fetch''"
| "access_kind_name Load = ''load''"
| "access_kind_name Store = ''store''"
| "access_kind_name PageTableWalk = ''page-table-walk''"
| "access_kind_name ImageLoad = ''image-load''"

record BusFault =
  bf_address :: u64
  bf_width :: nat
  bf_kind :: AccessKind
  bf_detail :: string

definition make_fault :: "u64 \<Rightarrow> nat \<Rightarrow> AccessKind \<Rightarrow> string \<Rightarrow> BusFault" where
  "make_fault address width kind detail =
     \<lparr>bf_address = address, bf_width = width, bf_kind = kind, bf_detail = detail\<rparr>"

datatype Device = RamDevice SparseRam | UartDevice Uart16550

fun device_base :: "Device \<Rightarrow> u64" where
  "device_base (RamDevice r) = md_base r"
| "device_base (UartDevice u) = md_base u"

fun device_size :: "Device \<Rightarrow> u64" where
  "device_size (RamDevice r) = md_size r"
| "device_size (UartDevice u) = md_size u"

fun device_name :: "Device \<Rightarrow> string" where
  "device_name (RamDevice r) = md_name r"
| "device_name (UartDevice u) = md_name u"

fun device_contains :: "Device \<Rightarrow> u64 \<Rightarrow> nat \<Rightarrow> bool" where
  "device_contains (RamDevice r) = contains r"
| "device_contains (UartDevice u) = contains u"

fun accepts_image :: "Device \<Rightarrow> bool" where
  "accepts_image (RamDevice r) = True"
| "accepts_image (UartDevice u) = False"

fun device_read :: "Device \<Rightarrow> u64 \<Rightarrow> nat \<Rightarrow> string + u64" where
  "device_read (RamDevice r) = ram_read r"
| "device_read (UartDevice u) = uart_read u"

fun device_write :: "Device \<Rightarrow> u64 \<Rightarrow> nat \<Rightarrow> u64 \<Rightarrow> Device \<times> string option" where
  "device_write (RamDevice r) offset width value = map_prod RamDevice id (ram_write r offset width value)"
| "device_write (UartDevice u) offset width value = map_prod UartDevice id (uart_write u offset width value)"

subsection \<open>The bus\<close>

record Bus =
  devices :: "Device list"

definition quoted :: "string \<Rightarrow> string" where
  "quoted s = [CHR 0x27] @ s @ [CHR 0x27]"

definition add_device :: "Bus \<Rightarrow> Device option \<Rightarrow> exn + Bus" where
  "add_device bus device =
     (case device of
        None \<Rightarrow> Inl (InvalidArgument ''cannot map a null device'')
      | Some d \<Rightarrow>
          (case find (\<lambda>existing. ranges_overlap (device_base existing) (device_size existing)
                                   (device_base d) (device_size d)) (devices bus) of
             Some existing \<Rightarrow>
               Inl (InvalidArgument (''device '' @ quoted (device_name d) @ '' overlaps '' @
                                     quoted (device_name existing)))
           | None \<Rightarrow> Inr (bus\<lparr>devices := sort_key device_base (devices bus @ [d])\<rparr>)))"

fun find_device :: "Device list \<Rightarrow> u64 \<Rightarrow> nat \<Rightarrow> nat option" where
  "find_device [] address width = None"
| "find_device (d # ds) address width =
     (if device_contains d address width then Some 0
      else map_option Suc (find_device ds address width))"

definition device_detail :: "Device \<Rightarrow> string \<Rightarrow> string" where
  "device_detail d detail = ''device '' @ quoted (device_name d) @ '': '' @ detail"

definition bus_read :: "Bus \<Rightarrow> u64 \<Rightarrow> nat \<Rightarrow> AccessKind \<Rightarrow> BusFault + u64" where
  "bus_read bus address width kind =
     (if \<not> valid_width width then Inl (make_fault address width kind ''unsupported access width'')
      else case find_device (devices bus) address width of
          None \<Rightarrow> Inl (make_fault address width kind ''address is not mapped'')
        | Some i \<Rightarrow>
            let device = devices bus ! i
            in (case device_read device (address - device_base device) width of
                  Inl detail \<Rightarrow> Inl (make_fault address width kind (device_detail device detail))
                | Inr v \<Rightarrow> Inr v))"

definition bus_write :: "Bus \<Rightarrow> u64 \<Rightarrow> nat \<Rightarrow> u64 \<Rightarrow> AccessKind \<Rightarrow> Bus \<times> BusFault option" where
  "bus_write bus address width value kind =
     (if \<not> valid_width width
      then (bus, Some (make_fault address width kind ''unsupported access width''))
      else case find_device (devices bus) address width of
          None \<Rightarrow> (bus, Some (make_fault address width kind ''address is not mapped''))
        | Some i \<Rightarrow>
            let device = devices bus ! i;
                (device', err) = device_write device (address - device_base device) width value;
                bus' = bus\<lparr>devices := (devices bus)[i := device']\<rparr>
            in (case err of
                  Some detail \<Rightarrow>
                    (bus', Some (make_fault address width kind (device_detail device detail)))
                | None \<Rightarrow> (bus', None)))"

fun write_bytes_loop :: "Bus \<Rightarrow> u64 \<Rightarrow> nat \<Rightarrow> u8 list \<Rightarrow> AccessKind \<Rightarrow> Bus \<times> BusFault option" where
  "write_bytes_loop bus address index [] kind = (bus, None)"
| "write_bytes_loop bus address index (b # bytes) kind =
     (case bus_write bus (address + of_nat index) 1 (ucast b) kind of
        (bus', Some f) \<Rightarrow> (bus', Some f)
      | (bus', None) \<Rightarrow> write_bytes_loop bus' address (Suc index) bytes kind)"

definition write_bytes :: "Bus \<Rightarrow> u64 \<Rightarrow> u8 list \<Rightarrow> AccessKind \<Rightarrow> Bus \<times> BusFault option" where
  "write_bytes bus address bytes kind =
     (if bytes = [] then (bus, None)
      else if add_overflows address (of_nat (length bytes - 1))
        then (bus, Some (make_fault address (length bytes) kind
                           ''byte range overflows the address space''))
      else write_bytes_loop bus address 0 bytes kind)"

definition image_range_is_valid :: "Bus \<Rightarrow> u64 \<Rightarrow> u64 \<Rightarrow> bool" where
  "image_range_is_valid bus address sz =
     (if sz = 0 then True
      else if add_overflows address (sz - 1) then False
      else case find_device (devices bus) address 1 of
          None \<Rightarrow> False
        | Some i \<Rightarrow> accepts_image (devices bus ! i) \<and>
                    device_contains (devices bus ! i) (address + sz - 1) 1)"

subsection \<open>The mapping invariant\<close>

text \<open>
  Every device occupies a non-empty range inside the address space, and the ranges follow
  each other without overlap in the order of the vector. Only the layout of the devices
  matters, so accesses, which never move a device, keep the invariant.
\<close>

definition layout :: "Device \<Rightarrow> nat \<times> nat" where
  "layout d = (unat (device_base d), unat (device_size d))"

definition range_ok :: "nat \<times> nat \<Rightarrow> bool" where
  "range_ok l \<longleftrightarrow> 0 < snd l \<and> fst l + snd l \<le> 2 ^ 64"

definition range_before :: "nat \<times> nat \<Rightarrow> nat \<times> nat \<Rightarrow> bool" where
  "range_before l m \<longleftrightarrow> fst l + snd l \<le> fst m"

definition bus_ok :: "Bus \<Rightarrow> bool" where
  "bus_ok bus \<longleftrightarrow> (\<forall>l\<in>set (map layout (devices bus)). range_ok l) \<and>
     sorted_wrt range_before (map layout (devices bus))"

definition device_ok :: "Device \<Rightarrow> bool" where
  "device_ok d \<longleftrightarrow> range_ok (layout d)"

lemma bus_ok_device: "bus_ok bus \<Longrightarrow> d \<in> set (devices bus) \<Longrightarrow> device_ok d"
  by (simp add: bus_ok_def device_ok_def)

lemma bus_ok_empty [simp]: "bus_ok \<lparr>devices = []\<rparr>"
  by (simp add: bus_ok_def)

lemma bus_ok_layout: "map layout (devices bus) = map layout (devices bus') \<Longrightarrow> bus_ok bus = bus_ok bus'"
  by (simp only: bus_ok_def)

lemma make_mapped_device_ok:
  "make_mapped_device b sz name = Inr d \<Longrightarrow>
     range_ok (unat b, unat sz) \<and> md_base d = b \<and> md_size d = sz \<and> md_name d = name"
proof -
  assume *: "make_mapped_device b sz name = Inr d"
  then have "sz \<noteq> 0" "\<not> add_overflows b (sz - 1)"
    by (auto simp: make_mapped_device_def split: if_splits)
  moreover from this have "unat (sz - 1) = unat sz - 1" by (simp add: unat_minus_one)
  moreover have "0 < unat sz" using \<open>sz \<noteq> 0\<close> by (simp add: word_unat_eq_iff)
  ultimately show ?thesis
    using * by (auto simp: add_overflows_iff range_ok_def make_mapped_device_def split: if_splits)
qed

lemma contains_iff:
  "contains m a w \<longleftrightarrow> valid_width w \<and> unat (md_base m) \<le> unat a \<and>
     unat a + w \<le> unat (md_base m) + unat (md_size m)"
proof (cases "valid_width w \<and> md_base m \<le> a")
  case True
  then have w: "0 < w" "w \<le> 8" by (simp_all add: valid_width_le_8)
  have ba: "unat (md_base m) \<le> unat a" using True by (simp add: word_le_nat_alt)
  define x where "x = a - md_base m"
  have x: "unat x = unat a - unat (md_base m)" using ba by (simp add: x_def unat_sub_if')
  have "contains m a w \<longleftrightarrow> x < md_size m \<and> of_nat w \<le> md_size m - x"
    using True by (auto simp: contains_def Let_def x_def)
  also have "\<dots> \<longleftrightarrow> unat x < unat (md_size m) \<and> w \<le> unat (md_size m) - unat x"
    using w by (auto simp: word_less_nat_alt word_le_nat_alt unat_of_nat_u64 unat_sub_if')
  finally show ?thesis using True ba w x by auto
qed (auto simp: contains_def Let_def word_le_nat_alt word_less_nat_alt)

lemma device_contains_iff:
  "device_contains d a w \<longleftrightarrow> valid_width w \<and> unat (device_base d) \<le> unat a \<and>
     unat a + w \<le> unat (device_base d) + unat (device_size d)"
  by (cases d) (simp_all add: contains_iff)

lemma sorted_wrt_permute:
  assumes "\<And>x y. P x y \<Longrightarrow> P y x"
  shows "mset xs = mset ys \<Longrightarrow> sorted_wrt P xs \<Longrightarrow> sorted_wrt P ys"
proof (induction xs arbitrary: ys)
  case (Cons x xs)
  then obtain as bs where ys: "ys = as @ x # bs"
    by (metis list.set_intros(1) mset_eq_setD split_list)
  with Cons.prems have m: "mset xs = mset (as @ bs)" by simp
  with Cons have "sorted_wrt P (as @ bs)" by simp
  moreover have "\<forall>y\<in>set as \<union> set bs. P x y"
    using Cons.prems(2) mset_eq_setD [OF m] by auto
  ultimately show ?case using assms by (auto simp: ys sorted_wrt_append)
qed simp

lemma ranges_overlap_iff:
  assumes "range_ok (unat b, unat s)" "range_ok (unat c, unat t)"
  shows "ranges_overlap b s c t \<longleftrightarrow>
    \<not> range_before (unat b, unat s) (unat c, unat t) \<and> \<not> range_before (unat c, unat t) (unat b, unat s)"
proof -
  have e: "unat (x + y - 1) = unat x + unat y - 1" if "range_ok (unat x, unat y)" for x y :: u64
  proof -
    have y: "unat (y - 1) = unat y - 1"
      using that by (intro unat_minus_one) (auto simp: range_ok_def)
    have "x + y - 1 = x + (y - 1)" by (simp only: add_diff_eq)
    then have "unat (x + y - 1) = (unat x + (unat y - 1)) mod 2 ^ 64"
      by (simp only: unat_word_ariths(1) y) simp
    also have "\<dots> = unat x + (unat y - 1)"
      by (rule mod_less) (use that in \<open>auto simp: range_ok_def\<close>)
    finally show ?thesis using that by (simp add: range_ok_def)
  qed
  show ?thesis
    using assms by (auto simp: ranges_overlap_def Let_def word_le_nat_alt e range_before_def range_ok_def)
qed

theorem add_device_ok:
  assumes "bus_ok bus" "device_ok d" "add_device bus (Some d) = Inr bus'"
  shows "bus_ok bus' \<and> mset (devices bus') = mset (devices bus) + {#d#}"
proof -
  let ?P = "\<lambda>x y. range_before (layout x) (layout y) \<or> range_before (layout y) (layout x)"
  let ?xs = "devices bus @ [d]"
  have bus': "devices bus' = sort_key device_base ?xs" and
    no: "\<And>e. e \<in> set (devices bus) \<Longrightarrow>
        \<not> ranges_overlap (device_base e) (device_size e) (device_base d) (device_size d)"
    using assms(3) by (auto simp: add_device_def find_None_iff split: option.splits)
  have ok: "\<forall>e\<in>set ?xs. device_ok e" using assms bus_ok_device by auto
  have "sorted_wrt ?P (devices bus)"
    using assms(1) by (auto simp: bus_ok_def sorted_wrt_map elim: sorted_wrt_mono_rel [rotated])
  moreover have "?P e d" if "e \<in> set (devices bus)" for e
    using no [OF that] that ok ranges_overlap_iff
    by (force simp: device_ok_def layout_def)
  ultimately have "sorted_wrt ?P ?xs" by (auto simp: sorted_wrt_append)
  then have "sorted_wrt ?P (devices bus')"
    by (rule sorted_wrt_permute [rotated 2]) (auto simp: bus')
  moreover have "sorted_wrt (\<lambda>x y. device_base x \<le> device_base y) (devices bus')"
    unfolding bus' using sorted_sort_key [of device_base ?xs] by (simp add: sorted_wrt_map)
  ultimately have "sorted_wrt (\<lambda>x y. ?P x y \<and> device_base x \<le> device_base y) (devices bus')"
    by (auto simp: sorted_wrt_iff_nth_less)
  then have "sorted_wrt (\<lambda>x y. range_before (layout x) (layout y)) (devices bus')"
    by (rule sorted_wrt_mono_rel [rotated])
      (use ok in \<open>auto simp: bus' device_ok_def range_ok_def range_before_def layout_def word_le_nat_alt\<close>)
  then show ?thesis
    using ok by (auto simp: bus_ok_def sorted_wrt_map device_ok_def bus')
qed

subsection \<open>Every address belongs to at most one device\<close>

lemma find_device_Some:
  "find_device ds a w = Some i \<Longrightarrow> i < length ds \<and> device_contains (ds ! i) a w"
  by (induction ds arbitrary: i) (auto split: if_splits)

lemma find_device_None: "find_device ds a w = None \<longleftrightarrow> (\<forall>d\<in>set ds. \<not> device_contains d a w)"
  by (induction ds) auto

theorem device_unique:
  assumes "bus_ok bus" "i < length (devices bus)" "j < length (devices bus)"
    and "device_contains (devices bus ! i) a w" "device_contains (devices bus ! j) a u"
  shows "i = j"
proof (rule ccontr)
  assume "i \<noteq> j"
  let ?l = "map layout (devices bus)"
  have "range_before (?l ! i) (?l ! j) \<or> range_before (?l ! j) (?l ! i)"
    using assms(1-3) \<open>i \<noteq> j\<close> unfolding bus_ok_def sorted_wrt_iff_nth_less
    by (cases "i < j") auto
  moreover have "0 < w" "0 < u" using assms(4,5) by (auto simp: device_contains_iff valid_width_le_8)
  ultimately show False
    using assms(2-5) by (auto simp: range_before_def layout_def device_contains_iff)
qed

lemma find_device_eq:
  assumes "bus_ok bus" "i < length (devices bus)" "device_contains (devices bus ! i) a w"
  shows "find_device (devices bus) a w = Some i"
proof (cases "find_device (devices bus) a w")
  case None
  with assms show ?thesis by (auto simp: find_device_None)
next
  case (Some j)
  with find_device_Some [OF this] device_unique [OF assms(1,2) _ assms(3)] show ?thesis by auto
qed

lemma find_device_narrower:
  assumes "bus_ok bus" "find_device (devices bus) a w = Some i" "valid_width u"
    "unat a \<le> unat b" "unat b + u \<le> unat a + w"
  shows "find_device (devices bus) b u = Some i"
  using assms find_device_Some [OF assms(2)]
  by (intro find_device_eq) (auto simp: device_contains_iff)

subsection \<open>Accesses keep the mapping\<close>

lemma device_write_layout [simp]:
  "device_base (fst (device_write d off w v)) = device_base d"
  "device_size (fst (device_write d off w v)) = device_size d"
  "device_name (fst (device_write d off w v)) = device_name d"
  by (cases d; simp)+

lemma map_layout_update:
  "layout d' = layout (ds ! i) \<Longrightarrow> map layout (ds[i := d']) = map layout ds"
  by (cases "i < length ds") (simp_all add: map_update list_update_same_conv list_update_beyond)

lemma bus_write_layout [simp]:
  "map layout (devices (fst (bus_write bus a w v k))) = map layout (devices bus)"
  by (auto simp: bus_write_def Let_def layout_def split_beta intro!: map_layout_update split: option.split)

lemma bus_write_ok [simp]: "bus_ok (fst (bus_write bus a w v k)) = bus_ok bus"
  by (rule bus_ok_layout) simp

lemma device_contains_layout:
  "layout d = layout e \<Longrightarrow> device_contains d a w = device_contains e a w"
  by (simp add: device_contains_iff layout_def)

lemma find_device_layout:
  "map layout ds = map layout es \<Longrightarrow> find_device ds a w = find_device es a w"
proof (induction ds arbitrary: es)
  case (Cons d ds)
  then obtain e es' where "es = e # es'" "layout d = layout e" "map layout ds = map layout es'"
    by auto
  with Cons.IH [of es'] show ?case using device_contains_layout [of d e] by simp
qed simp

lemma bus_write_find [simp]:
  "find_device (devices (fst (bus_write bus a w v k))) b u = find_device (devices bus) b u"
  by (rule find_device_layout) simp

subsection \<open>The RAM behind the bus is a store of bytes\<close>

definition bus_byte :: "Bus \<Rightarrow> u64 \<Rightarrow> u8" where
  "bus_byte bus a =
     (case find_device (devices bus) a 1 of
        None \<Rightarrow> 0
      | Some i \<Rightarrow> (case devices bus ! i of
          RamDevice r \<Rightarrow> read_byte r (a - md_base r)
        | UartDevice u \<Rightarrow> 0))"

definition ram_accessible :: "Bus \<Rightarrow> u64 \<Rightarrow> nat \<Rightarrow> bool" where
  "ram_accessible bus a w \<longleftrightarrow> bus_ok bus \<and> valid_width w \<and>
     (case find_device (devices bus) a w of
        None \<Rightarrow> False
      | Some i \<Rightarrow> accepts_image (devices bus ! i))"

lemma accepts_image_cases: "accepts_image d \<Longrightarrow> \<exists>r. d = RamDevice r"
  by (cases d) simp_all

lemma ram_accessibleE:
  assumes "ram_accessible bus a w"
  obtains i r where "bus_ok bus" "valid_width w" "find_device (devices bus) a w = Some i"
    "i < length (devices bus)" "devices bus ! i = RamDevice r" "contains r a w"
  using assms find_device_Some [of "devices bus" a w]
  by (auto simp: ram_accessible_def dest!: accepts_image_cases split: option.splits)

lemma contains_ram_range:
  assumes "contains r a w" shows "\<not> ram_out_of_range r (a - md_base r) w"
  using assms by (auto simp: contains_def ram_out_of_range_def Let_def split: if_splits)

lemma bus_byte_ram:
  assumes "bus_ok bus" "find_device (devices bus) a w = Some i" "devices bus ! i = RamDevice r"
    "unat a \<le> unat b" "unat b < unat a + w"
  shows "bus_byte bus b = read_byte r (b - md_base r)"
  using find_device_narrower [OF assms(1,2), of 1 b] assms
  by (simp add: bus_byte_def valid_width_def)

lemma bus_read_ram:
  assumes "ram_accessible bus a w"
  shows "bus_read bus a w k = Inr (le_value (\<lambda>i. bus_byte bus (a + of_nat i)) w)"
  using assms
proof (rule ram_accessibleE)
  fix i r
  assume *: "bus_ok bus" "valid_width w" "find_device (devices bus) a w = Some i"
    "devices bus ! i = RamDevice r" "contains r a w"
  have "unat a + w \<le> 2 ^ 64"
    using *(5) bus_ok_device [OF *(1), of "RamDevice r"] find_device_Some [OF *(3)] *(4) nth_mem
    by (fastforce simp: contains_iff device_ok_def range_ok_def layout_def)
  then have "bus_byte bus (a + of_nat j) = read_byte r (a - md_base r + of_nat j)" if "j < w" for j
    using bus_byte_ram [OF *(1,3,4), of "a + of_nat j"] that
    by (simp add: unat_add_of_nat diff_add_eq)
  then have "le_value (\<lambda>j. bus_byte bus (a + of_nat j)) w =
      le_value (\<lambda>j. read_byte r (a - md_base r + of_nat j)) w"
    by (intro le_value_cong) simp
  then show ?thesis
    using * contains_ram_range [OF *(5)] by (simp add: bus_read_def ram.rd_ok)
qed

lemma bus_write_ram:
  assumes "ram_accessible bus a w"
  obtains i r where "bus_ok bus" "find_device (devices bus) a w = Some i" "i < length (devices bus)"
    "devices bus ! i = RamDevice r" "\<not> ram_out_of_range r (a - md_base r) w"
    "bus_write bus a w v k =
       (bus\<lparr>devices := (devices bus)[i := RamDevice (fst (ram_write r (a - md_base r) w v))]\<rparr>, None)"
  using assms
proof (rule ram_accessibleE)
  fix i r
  assume *: "bus_ok bus" "valid_width w" "find_device (devices bus) a w = Some i"
    "i < length (devices bus)" "devices bus ! i = RamDevice r" "contains r a w"
  then have r: "\<not> ram_out_of_range r (a - md_base r) w" by (simp add: contains_ram_range)
  show thesis
    by (rule that [OF *(1,3,4,5) r])
      (use * ram.wr_ok [OF r, of v] in \<open>simp add: bus_write_def Let_def split_beta\<close>)
qed

lemma bus_write_byte:
  assumes "ram_accessible bus a w"
  shows "bus_byte (fst (bus_write bus a w v k)) b =
    (if unat (b - a) < w then le_byte v (unat (b - a)) else bus_byte bus b)"
  using assms
proof (rule bus_write_ram [where v = v and k = k])
  fix i r
  assume *: "bus_ok bus" "find_device (devices bus) a w = Some i" "i < length (devices bus)"
    "devices bus ! i = RamDevice r" "\<not> ram_out_of_range r (a - md_base r) w"
    "bus_write bus a w v k =
       (bus\<lparr>devices := (devices bus)[i := RamDevice (fst (ram_write r (a - md_base r) w v))]\<rparr>, None)"
  have a: "device_contains (devices bus ! i) a w" using find_device_Some [OF *(2)] by simp
  then have w: "unat a + w \<le> 2 ^ 64" "w \<le> 8"
    using bus_ok_device [OF *(1) nth_mem [OF *(3)]]
    by (auto simp: device_contains_iff device_ok_def range_ok_def layout_def valid_width_le_8)
  have in_range: "unat (b - a) < w \<longleftrightarrow> unat a \<le> unat b \<and> unat b < unat a + w"
    using w unat_u64_less [of b] by (auto simp: unat_sub_if')
  have f: "find_device ((devices bus)[i := RamDevice (fst (ram_write r (a - md_base r) w v))]) b 1 =
      find_device (devices bus) b 1"
    by (rule find_device_layout, rule map_layout_update) (simp add: *(4) layout_def)
  show ?thesis
  proof (cases "find_device (devices bus) b 1 = Some i")
    case True
    moreover have "b - md_base r - (a - md_base r) = b - a" by simp
    ultimately show ?thesis
      using * f ram.wr_byte [OF *(5), of v "b - md_base r"] by (simp add: bus_byte_def)
  next
    case False
    have "\<not> unat (b - a) < w"
      using False find_device_narrower [OF *(1,2), of 1 b] in_range by (auto simp: valid_width_def)
    then show ?thesis
      using False by (auto simp: bus_byte_def f [simplified] *(6) split: option.split)
  qed
qed

lemma bus_write_accessible:
  assumes "ram_accessible bus a w"
  shows "ram_accessible (fst (bus_write bus a w v k)) b u = ram_accessible bus b u"
  using assms
proof (rule bus_write_ram [where v = v and k = k])
  fix i r
  assume *: "devices bus ! i = RamDevice r" "i < length (devices bus)"
    "bus_write bus a w v k =
       (bus\<lparr>devices := (devices bus)[i := RamDevice (fst (ram_write r (a - md_base r) w v))]\<rparr>, None)"
  have "accepts_image (devices (fst (bus_write bus a w v k)) ! j) = accepts_image (devices bus ! j)" for j
    using * by (cases "i = j") simp_all
  then show ?thesis by (simp add: ram_accessible_def split: option.split)
qed

interpretation bus: byte_store ram_accessible bus_byte
    "\<lambda>bus a w. bus_read bus a w rk" "\<lambda>bus a w v. bus_write bus a w v wk" for rk wk
proof unfold_locales
  fix s a w v b u
  assume acc: "ram_accessible s a w"
  then show "valid_width w" by (simp add: ram_accessible_def)
  show "unat a + w \<le> 2 ^ 64"
    using acc bus_ok_device [of s]
    by (rule_tac ram_accessibleE [OF acc])
      (fastforce simp: contains_iff device_ok_def range_ok_def layout_def dest: nth_mem)
  show "bus_read s a w rk = Inr (le_value (\<lambda>i. bus_byte s (a + of_nat i)) w)"
    by (rule bus_read_ram [OF acc])
  show "snd (bus_write s a w v wk) = None"
    by (rule bus_write_ram [OF acc, of v wk]) simp
  show "ram_accessible (fst (bus_write s a w v wk)) b u = ram_accessible s b u"
    by (rule bus_write_accessible [OF acc])
  show "bus_byte (fst (bus_write s a w v wk)) b =
      (if unat (b - a) < w then le_byte v (unat (b - a)) else bus_byte s b)"
    by (rule bus_write_byte [OF acc])
qed

subsection \<open>Loading runs of bytes\<close>

lemma write_bytes_loop_frame:
  "map layout (devices (fst (write_bytes_loop bus a n bytes k))) = map layout (devices bus)"
proof (induction bytes arbitrary: bus n)
  case (Cons b bytes)
  obtain bus1 err where w: "bus_write bus (a + of_nat n) 1 (ucast b) k = (bus1, err)"
    by (metis surj_pair)
  then have "map layout (devices bus1) = map layout (devices bus)"
    using bus_write_layout [of bus "a + of_nat n" 1 "ucast b" k] by simp
  with Cons.IH [of bus1 "Suc n"] w show ?case by (cases err) simp_all
qed simp

lemma write_bytes_frame:
  "map layout (devices (fst (write_bytes bus a bytes k))) = map layout (devices bus)"
  by (simp add: write_bytes_def write_bytes_loop_frame)

lemma write_bytes_loop_correct:
  assumes "\<forall>i<length bytes. ram_accessible bus (a + of_nat (n + i)) 1"
    and "n + length bytes \<le> 2 ^ 64"
  shows "snd (write_bytes_loop bus a n bytes k) = None \<and>
    (\<forall>b u. ram_accessible (fst (write_bytes_loop bus a n bytes k)) b u = ram_accessible bus b u) \<and>
    (\<forall>b. bus_byte (fst (write_bytes_loop bus a n bytes k)) b =
      (if n \<le> unat (b - a) \<and> unat (b - a) < n + length bytes then bytes ! (unat (b - a) - n)
       else bus_byte bus b))"
  using assms
proof (induction bytes arbitrary: bus n)
  case (Cons x bytes)
  have acc: "ram_accessible bus (a + of_nat n) 1" using Cons.prems(1) by fastforce
  obtain bus1 where w: "bus_write bus (a + of_nat n) 1 (ucast x) k = (bus1, None)"
    using bus.wr_ok [OF acc, of "ucast x" k] by (metis prod.collapse)
  have acc': "ram_accessible bus1 b u = ram_accessible bus b u" for b u
    using bus.wr_accessible [OF acc, of "ucast x" k] w by simp
  have at: "unat (b - (a + of_nat n)) < 1 \<longleftrightarrow> unat (b - a) = n" for b
  proof -
    have "unat (b - (a + of_nat n)) < 1 \<longleftrightarrow> b - a = of_nat n"
      by (auto simp: unat_eq_0 algebra_simps)
    also have "\<dots> \<longleftrightarrow> unat (b - a) = n"
      using Cons.prems(2) by (auto simp: unat_of_nat_u64)
    finally show ?thesis .
  qed
  have byte: "bus_byte bus1 b = (if unat (b - a) = n then x else bus_byte bus b)" for b
    using bus.wr_byte [OF acc, of "ucast x" k b] at [of b] w by (auto simp: le_byte_ucast)
  have "\<forall>i<length bytes. ram_accessible bus1 (a + of_nat (Suc n + i)) 1"
    using Cons.prems(1) unfolding acc' by (metis Suc_less_eq add_Suc_shift length_Cons)
  from Cons.IH [OF this] Cons.prems(2)
  have IH: "snd (write_bytes_loop bus1 a (Suc n) bytes k) = None"
    "\<And>b u. ram_accessible (fst (write_bytes_loop bus1 a (Suc n) bytes k)) b u = ram_accessible bus1 b u"
    "\<And>b. bus_byte (fst (write_bytes_loop bus1 a (Suc n) bytes k)) b =
      (if Suc n \<le> unat (b - a) \<and> unat (b - a) < Suc n + length bytes
       then bytes ! (unat (b - a) - Suc n) else bus_byte bus1 b)"
    by simp_all
  have step: "write_bytes_loop bus a n (x # bytes) k = write_bytes_loop bus1 a (Suc n) bytes k"
    using w by simp
  show ?case
    unfolding step by (auto simp: IH acc' byte nth_Cons' not_less_eq_eq)
qed auto

lemma image_range_accessible:
  assumes "bus_ok bus" "image_range_is_valid bus a sz"
  shows "sz \<noteq> 0 \<Longrightarrow> unat a + unat sz \<le> 2 ^ 64"
    and "i < unat sz \<Longrightarrow> ram_accessible bus (a + of_nat i) 1"
proof -
  show *: "unat a + unat sz \<le> 2 ^ 64" if "sz \<noteq> 0"
    using assms(2) that unat_minus_one [OF that]
    by (auto simp: image_range_is_valid_def add_overflows_iff split: if_splits)
  assume i: "i < unat sz"
  then have sz: "sz \<noteq> 0" by auto
  from assms(2) sz obtain j where j: "find_device (devices bus) a 1 = Some j"
    "accepts_image (devices bus ! j)" "device_contains (devices bus ! j) (a + sz - 1) 1"
    by (auto simp: image_range_is_valid_def split: if_splits option.splits)
  have "a + sz - 1 = a + of_nat (unat sz - 1)"
    unfolding unat_minus_one [OF sz, symmetric] by (simp add: add_diff_eq)
  then have last: "unat (a + sz - 1) = unat a + (unat sz - 1)"
    using * [OF sz] i by (simp only:) (rule unat_add_of_nat, auto)
  have "unat (a + of_nat i) = unat a + i" using * [OF sz] i by (intro unat_add_of_nat) auto
  then have "device_contains (devices bus ! j) (a + of_nat i) 1"
    using j(3) find_device_Some [OF j(1)] i last by (auto simp: device_contains_iff)
  then have "find_device (devices bus) (a + of_nat i) 1 = Some j"
    using find_device_eq [OF assms(1)] find_device_Some [OF j(1)] by blast
  then show "ram_accessible bus (a + of_nat i) 1"
    using j(2) assms(1) by (simp add: ram_accessible_def valid_width_def)
qed

lemma write_bytes_accessible:
  assumes acc: "\<And>i. i < length bytes \<Longrightarrow> ram_accessible bus (a + of_nat i) 1"
    and range: "unat a + length bytes \<le> 2 ^ 64"
  shows "snd (write_bytes bus a bytes k) = None"
    and "ram_accessible (fst (write_bytes bus a bytes k)) b u = ram_accessible bus b u"
    and "bus_byte (fst (write_bytes bus a bytes k)) b =
      (if unat (b - a) < length bytes then bytes ! unat (b - a) else bus_byte bus b)"
proof -
  note loop = write_bytes_loop_correct [of bytes bus a 0 k]
  have eq: "write_bytes bus a bytes k = write_bytes_loop bus a 0 bytes k"
  proof (cases "bytes = []")
    case False
    then have "unat (of_nat (length bytes - 1) :: u64) = length bytes - 1"
      using range by (intro unat_of_nat_u64) auto
    then have "\<not> add_overflows a (of_nat (length bytes - 1))"
      using False range by (cases bytes) (auto simp: add_overflows_iff)
    with False show ?thesis by (simp add: write_bytes_def)
  qed (simp add: write_bytes_def)
  show "snd (write_bytes bus a bytes k) = None"
    "ram_accessible (fst (write_bytes bus a bytes k)) b u = ram_accessible bus b u"
    "bus_byte (fst (write_bytes bus a bytes k)) b =
      (if unat (b - a) < length bytes then bytes ! unat (b - a) else bus_byte bus b)"
    using loop acc range unfolding eq by simp_all
qed

theorem write_bytes_correct:
  assumes "bus_ok bus" "image_range_is_valid bus a (of_nat (length bytes))" "length bytes < 2 ^ 64"
  shows "snd (write_bytes bus a bytes k) = None"
    and "ram_accessible (fst (write_bytes bus a bytes k)) b u = ram_accessible bus b u"
    and "bus_byte (fst (write_bytes bus a bytes k)) b =
      (if unat (b - a) < length bytes then bytes ! unat (b - a) else bus_byte bus b)"
proof -
  have len: "unat (of_nat (length bytes) :: u64) = length bytes"
    using assms(3) by (rule unat_of_nat_u64)
  have "unat a + length bytes \<le> 2 ^ 64"
  proof (cases "bytes = []")
    case False
    then have "(of_nat (length bytes) :: u64) \<noteq> 0" using len by auto
    from image_range_accessible(1) [OF assms(1,2) this] show ?thesis by (simp add: len)
  qed (use unat_u64_less [of a] in simp)
  moreover have "ram_accessible bus (a + of_nat i) 1" if "i < length bytes" for i
    using image_range_accessible(2) [OF assms(1,2)] that by (simp add: len)
  ultimately show "snd (write_bytes bus a bytes k) = None"
    and "ram_accessible (fst (write_bytes bus a bytes k)) b u = ram_accessible bus b u"
    and "bus_byte (fst (write_bytes bus a bytes k)) b =
      (if unat (b - a) < length bytes then bytes ! unat (b - a) else bus_byte bus b)"
    using write_bytes_accessible [of bytes bus a] by simp_all
qed

end
