(* ===== verification/Sv39.thy ===== *)
theory Sv39
  imports Bus Arch
begin

text \<open>
  The Sv39 page walk (\<^verbatim>\<open>sv39.hpp\<close>, \<^verbatim>\<open>sv39.cpp\<close>). The \<^verbatim>\<open>for\<close> loop over the three
  levels is structural recursion on the number of levels left. A declarative reading of the
  page tables (\<open>maps_to\<close>, \<open>grants\<close>) specifies it, and the walk is proved to compute it. A failed walk is
  classified by what it came to: \<open>visits\<close> gives the entries on its way, and \<open>leaf_reason\<close> the fault of a leaf.
\<close>

subsection \<open>Contexts, faults and translations\<close>

datatype VirtualAccess = InstructionFetch | Load | Store

record Sv39Context =
  root_ppn :: u64
  ctx_privilege :: PrivilegeLevel
  ctx_access :: VirtualAccess
  ctx_sum :: bool
  ctx_mxr :: bool

datatype Sv39FaultReason =
    NonCanonicalAddress | PageTableAccess | InvalidPte | ReservedWriteOnlyPte | ReservedPteBits
  | ReservedNonLeafPte | MisalignedSuperpage | PrivilegeViolation | PermissionViolation
  | AccessedBitClear | DirtyBitClear | WalkExhausted

record Sv39Fault =
  sf_reason :: Sv39FaultReason
  sf_virtual_address :: u64
  sf_level :: int
  sf_pte_address :: u64
  sf_pte :: u64
  sf_detail :: string

record Sv39Translation =
  st_physical_address :: u64
  st_leaf_level :: int
  st_pte_address :: u64
  st_pte :: u64

definition kVpnMask :: u64 where "kVpnMask = 0x1ff"
definition kPpnMask :: u64 where "kPpnMask = push_bit 44 1 - 1"
definition kPteReservedHighMask :: u64 where "kPteReservedHighMask = NOT (push_bit 54 1 - 1)"
definition kPteV :: u64 where "kPteV = push_bit 0 1"
definition kPteR :: u64 where "kPteR = push_bit 1 1"
definition kPteW :: u64 where "kPteW = push_bit 2 1"
definition kPteX :: u64 where "kPteX = push_bit 3 1"
definition kPteU :: u64 where "kPteU = push_bit 4 1"
definition kPteA :: u64 where "kPteA = push_bit 6 1"
definition kPteD :: u64 where "kPteD = push_bit 7 1"

definition fault :: "Sv39FaultReason \<Rightarrow> u64 \<Rightarrow> int \<Rightarrow> u64 \<Rightarrow> u64 \<Rightarrow> string \<Rightarrow> Sv39Fault" where
  "fault reason virtual_address level pte_address pte detail =
     \<lparr>sf_reason = reason, sf_virtual_address = virtual_address, sf_level = level,
      sf_pte_address = pte_address, sf_pte = pte, sf_detail = detail\<rparr>"

definition virtual_page_numbers :: "u64 \<Rightarrow> u64 list" where
  "virtual_page_numbers virtual_address =
     [drop_bit 12 virtual_address AND kVpnMask, drop_bit 21 virtual_address AND kVpnMask,
      drop_bit 30 virtual_address AND kVpnMask]"

fun access_is_permitted :: "u64 \<Rightarrow> VirtualAccess \<Rightarrow> bool \<Rightarrow> bool" where
  "access_is_permitted pte VirtualAccess.InstructionFetch mxr = (pte AND kPteX \<noteq> 0)"
| "access_is_permitted pte VirtualAccess.Load mxr = (pte AND kPteR \<noteq> 0 \<or> (mxr \<and> pte AND kPteX \<noteq> 0))"
| "access_is_permitted pte VirtualAccess.Store mxr = (pte AND kPteW \<noteq> 0)"

definition is_sv39_canonical :: "u64 \<Rightarrow> bool" where
  "is_sv39_canonical virtual_address =
     (let upper = drop_bit 39 virtual_address;
          sign = (drop_bit 38 virtual_address AND 1 \<noteq> 0)
      in upper = (if sign then push_bit 25 1 - 1 else 0))"

subsection \<open>The walk\<close>

text \<open>The checks of a leaf entry found at \<open>level\<close>, in the code's order.\<close>

definition check_leaf ::
  "u64 \<Rightarrow> Sv39Context \<Rightarrow> nat \<Rightarrow> u64 \<Rightarrow> u64 \<Rightarrow> Sv39Fault + Sv39Translation" where
  "check_leaf virtual_address context level pte_address pte =
     (let ppn = drop_bit 10 pte AND kPpnMask;
          low_ppn_bits = level * 9;
          low_mask = push_bit low_ppn_bits 1 - 1;
          user_page = (pte AND kPteU \<noteq> 0);
          failed = (\<lambda>reason detail. Inl (fault reason virtual_address (int level) pte_address pte detail))
      in if low_ppn_bits \<noteq> 0 \<and> ppn AND low_mask \<noteq> 0 then
           failed MisalignedSuperpage ''leaf PPN is not aligned for its superpage level''
         else if ctx_privilege context = User \<and> \<not> user_page then
           failed PrivilegeViolation ''user mode cannot access a supervisor page''
         else if ctx_privilege context = Supervisor \<and> user_page \<and>
                 (ctx_access context = VirtualAccess.InstructionFetch \<or> \<not> ctx_sum context) then
           failed PrivilegeViolation
             (if ctx_access context = VirtualAccess.InstructionFetch
              then ''supervisor mode cannot execute from a user page''
              else ''SUM is clear for supervisor access to a user page'')
         else if \<not> access_is_permitted pte (ctx_access context) (ctx_mxr context) then
           failed PermissionViolation ''leaf permissions reject the requested access type''
         else if pte AND kPteA = 0 then
           failed AccessedBitClear ''software-managed accessed bit is clear''
         else if ctx_access context = VirtualAccess.Store \<and> pte AND kPteD = 0 then
           failed DirtyBitClear ''software-managed dirty bit is clear for a store''
         else
           let offset_bits = 12 + level * 9;
               offset_mask = push_bit offset_bits 1 - 1;
               physical_address = (push_bit 12 ppn AND NOT offset_mask) OR (virtual_address AND offset_mask)
           in Inr \<lparr>st_physical_address = physical_address, st_leaf_level = int level,
                   st_pte_address = pte_address, st_pte = pte\<rparr>)"

text \<open>\<open>walk_levels n\<close> is the loop with levels \<open>n - 1, ..., 0\<close> still to visit.\<close>

fun walk_levels ::
  "Bus \<Rightarrow> u64 \<Rightarrow> Sv39Context \<Rightarrow> nat \<Rightarrow> u64 \<Rightarrow> Sv39Fault + Sv39Translation" where
  "walk_levels bus virtual_address context 0 table_address =
     Inl (fault WalkExhausted virtual_address 0 0 0 ''Sv39 walk ended without a leaf entry'')"
| "walk_levels bus virtual_address context (Suc level) table_address =
     (let index = virtual_page_numbers virtual_address ! level;
          pte_address = table_address + index * 8
      in if add_overflows table_address (index * 8) then
           Inl (fault PageTableAccess virtual_address (int level) table_address 0
             ''page-table entry address overflows physical address space'')
         else case bus_read bus pte_address 8 PageTableWalk of
           Inl bus_fault \<Rightarrow>
             Inl (fault PageTableAccess virtual_address (int level) pte_address 0 (bf_detail bus_fault))
         | Inr pte \<Rightarrow>
             let failed = (\<lambda>reason detail.
                   Inl (fault reason virtual_address (int level) pte_address pte detail));
                 ppn = drop_bit 10 pte AND kPpnMask
             in if pte AND kPteReservedHighMask \<noteq> 0 then
                  failed ReservedPteBits ''PTE uses high bits reserved by the implemented Sv39 profile''
                else if pte AND kPteV = 0 then
                  failed InvalidPte ''page-table entry is not valid''
                else if pte AND kPteR = 0 \<and> pte AND kPteW \<noteq> 0 then
                  failed ReservedWriteOnlyPte ''W=1 with R=0 is a reserved page-table entry encoding''
                else if pte AND (kPteR OR kPteX) = 0 then
                  (if pte AND (kPteU OR kPteA OR kPteD) \<noteq> 0 then
                     failed ReservedNonLeafPte ''non-leaf PTE has reserved U, A, or D state''
                   else if level = 0 then
                     failed WalkExhausted ''level-zero entry is not a leaf''
                   else walk_levels bus virtual_address context level (push_bit 12 ppn))
                else check_leaf virtual_address context level pte_address pte)"

definition walk_sv39 :: "Bus \<Rightarrow> u64 \<Rightarrow> Sv39Context \<Rightarrow> Sv39Fault + Sv39Translation" where
  "walk_sv39 bus virtual_address context =
     (if \<not> is_sv39_canonical virtual_address then
        Inl (fault NonCanonicalAddress virtual_address (-1) 0 0
          ''virtual address is not sign-extended from bit 38'')
      else if ctx_privilege context \<noteq> Supervisor \<and> ctx_privilege context \<noteq> User then
        Inl (fault PrivilegeViolation virtual_address (-1) 0 0
          ''Sv39 translation context requires supervisor or user privilege'')
      else walk_levels bus virtual_address context 3 (push_bit 12 (root_ppn context AND kPpnMask)))"

fun sv39_fault_reason_name :: "Sv39FaultReason \<Rightarrow> string" where
  "sv39_fault_reason_name NonCanonicalAddress = ''non-canonical-address''"
| "sv39_fault_reason_name PageTableAccess = ''page-table-access''"
| "sv39_fault_reason_name InvalidPte = ''invalid-pte''"
| "sv39_fault_reason_name ReservedWriteOnlyPte = ''reserved-write-only-pte''"
| "sv39_fault_reason_name ReservedPteBits = ''reserved-pte-bits''"
| "sv39_fault_reason_name ReservedNonLeafPte = ''reserved-non-leaf-pte''"
| "sv39_fault_reason_name MisalignedSuperpage = ''misaligned-superpage''"
| "sv39_fault_reason_name PrivilegeViolation = ''privilege-violation''"
| "sv39_fault_reason_name PermissionViolation = ''permission-violation''"
| "sv39_fault_reason_name AccessedBitClear = ''accessed-bit-clear''"
| "sv39_fault_reason_name DirtyBitClear = ''dirty-bit-clear''"
| "sv39_fault_reason_name WalkExhausted = ''walk-exhausted''"

subsection \<open>The page tables, declaratively\<close>

text \<open>
  Bit numbers are those of the privileged specification: V 0, R 1, W 2, X 3, U 4, A 6, D 7, the
  physical page number 10 to 53.
\<close>

definition pte_ppn :: "u64 \<Rightarrow> u64" where
  "pte_ppn pte = drop_bit 10 pte AND mask 44"

definition pte_legal :: "u64 \<Rightarrow> bool" where
  "pte_legal pte \<longleftrightarrow> drop_bit 54 pte = 0 \<and> bit pte 0 \<and> (bit pte 2 \<longrightarrow> bit pte 1)"

definition pte_leaf :: "u64 \<Rightarrow> bool" where
  "pte_leaf pte \<longleftrightarrow> bit pte 1 \<or> bit pte 3"

definition pte_pointer :: "u64 \<Rightarrow> bool" where
  "pte_pointer pte \<longleftrightarrow> \<not> pte_leaf pte \<and> \<not> bit pte 4 \<and> \<not> bit pte 6 \<and> \<not> bit pte 7"

definition vpn :: "u64 \<Rightarrow> nat \<Rightarrow> u64" where
  "vpn va level = drop_bit (12 + 9 * level) va AND mask 9"

inductive maps_to :: "Bus \<Rightarrow> u64 \<Rightarrow> nat \<Rightarrow> u64 \<Rightarrow> nat \<Rightarrow> u64 \<Rightarrow> u64 \<Rightarrow> bool"
  for bus :: Bus and va :: u64 where
  leaf: "bus_read bus (table + vpn va level * 8) 8 PageTableWalk = Inr pte \<Longrightarrow> pte_legal pte \<Longrightarrow>
     pte_leaf pte \<Longrightarrow> take_bit (9 * level) (pte_ppn pte) = 0 \<Longrightarrow>
     maps_to bus va level table level (table + vpn va level * 8) pte"
| pointer: "bus_read bus (table + vpn va (Suc level) * 8) 8 PageTableWalk = Inr pte \<Longrightarrow> pte_legal pte \<Longrightarrow>
     pte_pointer pte \<Longrightarrow> maps_to bus va level (push_bit 12 (pte_ppn pte)) l a leaf_pte \<Longrightarrow>
     maps_to bus va (Suc level) table l a leaf_pte"

fun allows :: "VirtualAccess \<Rightarrow> bool \<Rightarrow> u64 \<Rightarrow> bool" where
  "allows VirtualAccess.InstructionFetch mxr pte = bit pte 3"
| "allows VirtualAccess.Load mxr pte = (bit pte 1 \<or> mxr \<and> bit pte 3)"
| "allows VirtualAccess.Store mxr pte = (bit pte 2 \<and> bit pte 7)"

definition grants :: "Sv39Context \<Rightarrow> u64 \<Rightarrow> bool" where
  "grants context pte \<longleftrightarrow>
     (case ctx_privilege context of
        User \<Rightarrow> bit pte 4
      | Supervisor \<Rightarrow> bit pte 4 \<longrightarrow> ctx_sum context \<and> ctx_access context \<noteq> VirtualAccess.InstructionFetch
      | Machine \<Rightarrow> False) \<and>
     allows (ctx_access context) (ctx_mxr context) pte \<and> bit pte 6"

definition physical :: "u64 \<Rightarrow> nat \<Rightarrow> u64 \<Rightarrow> u64" where
  "physical va level pte =
     push_bit (12 + 9 * level) (drop_bit (9 * level) (pte_ppn pte)) OR take_bit (12 + 9 * level) va"

subsection \<open>The walk computes the mapping\<close>

named_theorems pte_tests \<open>the masks of the code as bit tests\<close>

lemma kPpnMask_mask: "kPpnMask = mask 44"
  by (simp add: kPpnMask_def mask_eq_exp_minus_1)

lemma kVpnMask_mask: "kVpnMask = mask 9"
  by (simp add: kVpnMask_def mask_eq_exp_minus_1)

lemma and_push_bit_eq_0: "k < 64 \<Longrightarrow> x AND push_bit k 1 = 0 \<longleftrightarrow> \<not> bit x k" for x :: u64
  using and_single_iff [of "push_bit k 1" k x] by (auto simp add: bit_single simp del: push_bit_of_1)

lemma drop_bit_eq_0_iff_bits: "drop_bit k x = 0 \<longleftrightarrow> (\<forall>n. bit x n \<longrightarrow> n < k)" for x :: u64
proof -
  have "drop_bit k x = 0 \<longleftrightarrow> (\<forall>n. \<not> bit x (k + n))"
    by (simp add: u64_eq_iff_bits bit_drop_bit_eq)
  then show ?thesis by (metis le_add_diff_inverse not_le add.commute less_iff_succ_less_eq le_add1)
qed

lemma pte_flag_tests [pte_tests]:
  "x AND kPteV = 0 \<longleftrightarrow> \<not> bit x 0" "x AND kPteR = 0 \<longleftrightarrow> \<not> bit x 1" "x AND kPteW = 0 \<longleftrightarrow> \<not> bit x 2"
  "x AND kPteX = 0 \<longleftrightarrow> \<not> bit x 3" "x AND kPteU = 0 \<longleftrightarrow> \<not> bit x 4" "x AND kPteA = 0 \<longleftrightarrow> \<not> bit x 6"
  "x AND kPteD = 0 \<longleftrightarrow> \<not> bit x 7"
  unfolding kPteV_def kPteR_def kPteW_def kPteX_def kPteU_def kPteA_def kPteD_def
  by (rule and_push_bit_eq_0, simp)+

lemma and_or_eq_0_iff: "x AND (y OR z) = 0 \<longleftrightarrow> x AND y = 0 \<and> x AND z = 0" for x y z :: u64
  by (simp add: bit.conj_disj_distrib or_eq_0_iff)

lemma high_mask_iff [pte_tests]: "x AND kPteReservedHighMask = 0 \<longleftrightarrow> drop_bit 54 x = 0"
proof -
  have high: "kPteReservedHighMask = NOT (mask 54)"
    by (simp add: kPteReservedHighMask_def mask_eq_exp_minus_1)
  show ?thesis
    unfolding high and_not_eq_0_iff drop_bit_eq_0_iff_bits by (auto simp: bit_mask_iff dest: u64_bit_less)
qed

lemma vpn_nth: "level < 3 \<Longrightarrow> virtual_page_numbers va ! level = vpn va level"
  by (auto simp: virtual_page_numbers_def vpn_def kVpnMask_mask less_Suc_eq numeral_3_eq_3)

lemma access_is_permitted_iff:
  "access_is_permitted pte a mxr \<and> \<not> (a = VirtualAccess.Store \<and> \<not> bit pte 7) \<longleftrightarrow> allows a mxr pte"
  by (cases a) (auto simp: pte_tests)

lemma low_mask_test: "n \<noteq> 0 \<and> x AND (push_bit n 1 - 1) \<noteq> 0 \<longleftrightarrow> take_bit n x \<noteq> 0" for x :: u64
  by (cases "n = 0") (simp_all add: push_bit_1_minus_1 take_bit_eq_mask del: push_bit_of_1)

lemma physical_code:
  "(push_bit 12 (drop_bit 10 pte AND kPpnMask) AND NOT (push_bit (12 + level * 9) 1 - 1)) OR
     (va AND (push_bit (12 + level * 9) 1 - 1)) = physical va level pte"
  unfolding physical_def push_bit_1_minus_1 kPpnMask_mask pte_ppn_def u64_eq_iff_bits
  by (auto simp: bit_simps algebra_simps dest: u64_bit_less)

lemma check_leaf_iff:
  assumes "ctx_privilege context \<noteq> Machine"
  shows "check_leaf va context level a pte = Inr t \<longleftrightarrow>
    take_bit (9 * level) (pte_ppn pte) = 0 \<and> grants context pte \<and>
    t = \<lparr>st_physical_address = physical va level pte, st_leaf_level = int level,
         st_pte_address = a, st_pte = pte\<rparr>"
proof -
  have "pte_ppn pte = drop_bit 10 pte AND kPpnMask" by (simp add: pte_ppn_def kPpnMask_mask)
  then show ?thesis
    using assms access_is_permitted_iff [of pte "ctx_access context" "ctx_mxr context"]
    unfolding check_leaf_def Let_def physical_code low_mask_test grants_def pte_tests
    by (cases "ctx_privilege context") (auto simp: mult.commute)
qed

inductive_simps maps_to_0: "maps_to bus va 0 table l a leaf_pte"
inductive_simps maps_to_Suc: "maps_to bus va (Suc level) table l a leaf_pte"

lemma pointer_tests:
  "pte AND (kPteR OR kPteX) = 0 \<longleftrightarrow> \<not> pte_leaf pte"
  "pte AND (kPteU OR kPteA OR kPteD) = 0 \<longleftrightarrow> \<not> bit pte 4 \<and> \<not> bit pte 6 \<and> \<not> bit pte 7"
  by (auto simp: and_or_eq_0_iff pte_tests pte_leaf_def)


definition translation :: "u64 \<Rightarrow> nat \<Rightarrow> u64 \<Rightarrow> u64 \<Rightarrow> Sv39Translation" where
  "translation va l a pte =
     \<lparr>st_physical_address = physical va l pte, st_leaf_level = int l, st_pte_address = a, st_pte = pte\<rparr>"

lemma table_address_bound: "unat (push_bit 12 (x AND mask 44) :: u64) \<le> 2 ^ 56"
proof -
  have "push_bit 12 (x AND mask 44) = take_bit 56 (push_bit 12 (x AND mask 44)) " for x :: u64
    by (auto simp: u64_eq_iff_bits bit_simps)
  then have "push_bit 12 (x AND mask 44) < (2 ^ 56 :: u64)"
    by (subst word_less_exp_iff) simp_all
  then show ?thesis by (simp add: word_less_nat_alt)
qed

lemma entry_no_overflow:
  assumes "unat table \<le> 2 ^ 56"
  shows "\<not> add_overflows table (vpn va level * 8)"
proof -
  have "vpn va level < 2 ^ 9" 
    by (subst word_less_exp_iff) (auto simp: vpn_def u64_eq_iff_bits bit_simps)
  then have "unat (vpn va level) < 512" by (simp add: word_less_nat_alt)
  then have "unat (vpn va level * 8) < 4096"
    by (simp add: unat_word_ariths)
  then show ?thesis using assms by (simp add: add_overflows_iff)
qed

lemma walk_step:
  assumes "level < 3" "unat table \<le> 2 ^ 56"
  shows "walk_levels bus va context (Suc level) table = Inr t \<longleftrightarrow>
    (\<exists>pte. bus_read bus (table + vpn va level * 8) 8 PageTableWalk = Inr pte \<and> pte_legal pte \<and>
       (if pte_leaf pte
        then check_leaf va context level (table + vpn va level * 8) pte = Inr t
        else pte_pointer pte \<and> level \<noteq> 0 \<and>
             walk_levels bus va context level (push_bit 12 (pte_ppn pte)) = Inr t))"
proof -
  have ppn: "pte_ppn pte = drop_bit 10 pte AND kPpnMask" for pte
    by (simp add: pte_ppn_def kPpnMask_mask)
  show ?thesis
    using entry_no_overflow [OF assms(2), of va level]
    by (auto simp: Let_def vpn_nth assms(1) pointer_tests pte_tests pte_legal_def pte_pointer_def ppn
        split: sum.splits)
qed

lemma walk_levels_iff:
  assumes "ctx_privilege context \<noteq> Machine" "unat table \<le> 2 ^ 56" "level < 3"
  shows "walk_levels bus va context (Suc level) table = Inr t \<longleftrightarrow>
    (\<exists>l a pte. maps_to bus va level table l a pte \<and> grants context pte \<and> t = translation va l a pte)"
  using assms(2,3)
proof (induction level arbitrary: table)
  case 0
  show ?case
    unfolding walk_step [OF 0(2,1)] check_leaf_iff [OF assms(1)] translation_def
    by (auto simp: maps_to_0 pte_pointer_def split: if_splits)
next
  case (Suc level)
  have "unat (push_bit 12 (pte_ppn pte)) \<le> 2 ^ 56" for pte
    unfolding pte_ppn_def by (rule table_address_bound)
  then have IH: "walk_levels bus va context (Suc level) (push_bit 12 (pte_ppn pte)) = Inr t \<longleftrightarrow>
      (\<exists>l a leaf. maps_to bus va level (push_bit 12 (pte_ppn pte)) l a leaf \<and> grants context leaf \<and>
         t = translation va l a leaf)" for pte
    using Suc by simp
  show ?case
    unfolding walk_step [OF Suc.prems(2,1)] check_leaf_iff [OF assms(1)] IH maps_to_Suc
    by (auto simp: translation_def pte_pointer_def split: if_splits)
qed

definition root_table :: "Sv39Context \<Rightarrow> u64" where
  "root_table context = push_bit 12 (root_ppn context AND mask 44)"

definition canonical :: "u64 \<Rightarrow> bool" where
  "canonical va \<longleftrightarrow> (\<forall>n. 39 \<le> n \<and> n < 64 \<longrightarrow> bit va n = bit va 38)"

lemma is_sv39_canonical_iff: "is_sv39_canonical va \<longleftrightarrow> canonical va"
proof -
  have sign: "(drop_bit 38 va AND 1 \<noteq> 0) = bit va 38"
    by (simp add: bit_iff_odd_drop_bit and_one_eq odd_iff_mod_2_eq_one)
  have mask25: "(push_bit 25 1 - 1 :: u64) = mask 25" by (simp add: mask_eq_exp_minus_1)
  have all: "(\<forall>n<25::nat. P (39 + n)) \<longleftrightarrow> (\<forall>n. 39 \<le> n \<and> n < 64 \<longrightarrow> P n)" for P :: "nat \<Rightarrow> bool"
  proof (intro iffI allI impI)
    fix n :: nat assume "\<forall>n<25. P (39 + n)" "39 \<le> n \<and> n < 64"
    then show "P n" by (auto dest: spec [where x = "n - 39"])
  qed auto
  have ones: "bit (if s then mask 25 else 0 :: u64) n \<longleftrightarrow> s \<and> n < 25" for s n
    by (auto simp: bit_mask_iff)
  have bounded: "(\<forall>n. P n = (s \<and> n < 25)) \<longleftrightarrow> (\<forall>n<25. P n = s)"
    if "\<And>n. P n \<Longrightarrow> n < 25" for P :: "nat \<Rightarrow> bool" and s
    using that by (cases s) auto
  have "bit va (39 + n) \<Longrightarrow> n < 25" for n by (drule u64_bit_less) simp
  then have "drop_bit 39 va = (if bit va 38 then mask 25 else 0) \<longleftrightarrow> (\<forall>n<25. bit va (39 + n) = bit va 38)"
    unfolding u64_eq_iff_bits ones bit_drop_bit_eq comp_def by (rule bounded)
  then have "is_sv39_canonical va \<longleftrightarrow> (\<forall>n<25. bit va (39 + n) = bit va 38)"
    unfolding is_sv39_canonical_def Let_def sign mask25 .
  then show ?thesis unfolding canonical_def all [of "\<lambda>n. bit va n = bit va 38"] .
qed

lemma walk_sv39_iff:
  "walk_sv39 bus va context = Inr t \<longleftrightarrow>
     canonical va \<and> (\<exists>l a pte. maps_to bus va 2 (root_table context) l a pte \<and>
       grants context pte \<and> t = translation va l a pte)"
proof (cases "ctx_privilege context = Machine")
  case True
  then show ?thesis by (simp add: walk_sv39_def grants_def)
next
  case False
  have three: "(3 :: nat) = Suc 2" by simp
  have "walk_levels bus va context 3 (root_table context) = Inr t \<longleftrightarrow>
    (\<exists>l a pte. maps_to bus va 2 (root_table context) l a pte \<and> grants context pte \<and>
       t = translation va l a pte)"
    unfolding root_table_def by (subst three, rule walk_levels_iff [OF False table_address_bound]) simp
  moreover have "ctx_privilege context = Supervisor \<or> ctx_privilege context = User"
    using False by (cases "ctx_privilege context") auto
  ultimately show ?thesis
    by (auto simp: walk_sv39_def is_sv39_canonical_iff root_table_def kPpnMask_mask
        simp del: walk_levels.simps)
qed

subsection \<open>Consequences\<close>

lemma maps_to_level: "maps_to bus va level table l a pte \<Longrightarrow> l \<le> level"
  by (induction rule: maps_to.induct) auto

lemma maps_to_leaf:
  "maps_to bus va level table l a pte \<Longrightarrow>
     bus_read bus a 8 PageTableWalk = Inr pte \<and> pte_legal pte \<and> pte_leaf pte \<and> take_bit (9 * l) (pte_ppn pte) = 0"
  by (induction rule: maps_to.induct) auto

lemma bit_physical:
  "bit (physical va l pte) n \<longleftrightarrow>
     (if n < 12 + 9 * l then bit va n else n < 56 \<and> bit pte (n - 2))"
  by (auto simp: physical_def pte_ppn_def bit_simps dest: u64_bit_less)

lemma vpn_same_page:
  assumes "drop_bit (12 + 9 * l) va = drop_bit (12 + 9 * l) va'" "l \<le> level"
  shows "vpn va level = vpn va' level"
proof -
  have split: "drop_bit (12 + 9 * level) x = drop_bit (9 * (level - l)) (drop_bit (12 + 9 * l) x)" for x :: u64
    using assms(2) by (simp add: algebra_simps)
  show ?thesis unfolding vpn_def split assms(1) ..
qed

lemma maps_to_same_page:
  assumes "maps_to bus va level table l a pte" "drop_bit (12 + 9 * l) va = drop_bit (12 + 9 * l) va'"
  shows "maps_to bus va' level table l a pte"
  using assms
proof (induction rule: maps_to.induct)
  case (leaf table level pte)
  then show ?case using maps_to.leaf [of bus table va' level pte] vpn_same_page [of level va va' level] by simp
next
  case (pointer table level pte l a leaf_pte)
  have "vpn va (Suc level) = vpn va' (Suc level)"
    using vpn_same_page [OF pointer.prems] maps_to_level [OF pointer.hyps(4)] by simp
  then show ?case using pointer maps_to.pointer [of bus table va' level pte l a leaf_pte] by simp
qed

lemma canonical_same_page:
  assumes "drop_bit (12 + 9 * l) va = drop_bit (12 + 9 * l) va'" "l \<le> 2"
  shows "canonical va = canonical va'"
proof -
  have "bit va n = bit va' n" if "38 \<le> n" for n
  proof -
    have "bit (drop_bit (12 + 9 * l) va) (n - (12 + 9 * l)) = bit (drop_bit (12 + 9 * l) va') (n - (12 + 9 * l))"
      using assms(1) by simp
    then show ?thesis using that assms(2) by (simp add: bit_drop_bit_eq)
  qed
  then show ?thesis by (simp add: canonical_def)
qed

lemma walk_sv39_same_page:
  assumes "walk_sv39 bus va context = Inr t" "st_leaf_level t = int l"
    "drop_bit (12 + 9 * l) va = drop_bit (12 + 9 * l) va'"
  shows "walk_sv39 bus va' context = Inr (t\<lparr>st_physical_address := physical va' l (st_pte t)\<rparr>)"
proof -
  obtain l' a pte where w: "canonical va" "maps_to bus va 2 (root_table context) l' a pte"
      "grants context pte" "t = translation va l' a pte"
    using assms(1) unfolding walk_sv39_iff by blast
  have l: "l' = l" using assms(2) w(4) by (simp add: translation_def)
  have "l \<le> 2" using maps_to_level [OF w(2)] l by simp
  then have "canonical va'" using canonical_same_page [OF assms(3)] w(1) by simp
  moreover have "maps_to bus va' 2 (root_table context) l a pte"
    using maps_to_same_page w(2) assms(3) l by blast
  ultimately show ?thesis
    unfolding walk_sv39_iff using w(3) by (intro conjI exI) (simp_all add: w(4) l translation_def)
qed

text \<open>The tables alone decide: a bus that agrees on the page-table reads gives the same walk.\<close>

lemma walk_levels_cong:
  assumes "\<And>a. bus_read bus a 8 PageTableWalk = bus_read bus' a 8 PageTableWalk"
  shows "walk_levels bus va context n table = walk_levels bus' va context n table"
proof (induction n arbitrary: table)
  case (Suc n)
  show ?case unfolding walk_levels.simps assms Suc.IH ..
qed simp

lemma walk_sv39_cong:
  assumes "\<And>a. bus_read bus a 8 PageTableWalk = bus_read bus' a 8 PageTableWalk"
  shows "walk_sv39 bus va context = walk_sv39 bus' va context"
  using walk_levels_cong [OF assms] by (simp only: walk_sv39_def)

subsection \<open>The entries a walk visits\<close>

inductive visits :: "Bus \<Rightarrow> u64 \<Rightarrow> nat \<Rightarrow> u64 \<Rightarrow> u64 \<Rightarrow> bool" for b :: Bus and va :: u64 where
  entry: "visits b va level table (table + vpn va level * 8)"
| below: "bus_read b (table + vpn va (Suc level) * 8) 8 PageTableWalk = Inr pte \<Longrightarrow> pte_legal pte \<Longrightarrow>
     pte_pointer pte \<Longrightarrow> visits b va level (push_bit 12 (pte_ppn pte)) a \<Longrightarrow> visits b va (Suc level) table a"

inductive_simps visits_0: "visits b va 0 table a"
inductive_simps visits_Suc: "visits b va (Suc level) table a"

text \<open>A bus that agrees on them gives the same walk, which visits the same entries.\<close>

lemma walk_levels_visits:
  assumes "\<And>a. visits b va level table a \<Longrightarrow>
      bus_read c a 8 PageTableWalk = bus_read b a 8 PageTableWalk" "level < 3"
  shows "walk_levels c va ctx (Suc level) table = walk_levels b va ctx (Suc level) table"
  using assms
proof (induction level arbitrary: table)
  case 0
  have "bus_read c (table + vpn va 0 * 8) 8 PageTableWalk = bus_read b (table + vpn va 0 * 8) 8 PageTableWalk"
    by (rule 0(1)) (rule visits.entry)
  then show ?case by (simp add: Let_def vpn_nth split: sum.split)
next
  case (Suc level)
  let ?e = "table + vpn va (Suc level) * 8"
  have e: "bus_read c ?e 8 PageTableWalk = bus_read b ?e 8 PageTableWalk"
    by (rule Suc.prems(1)) (rule visits.entry)
  have IH: "walk_levels c va ctx (Suc level) (push_bit 12 (pte_ppn pte)) =
      walk_levels b va ctx (Suc level) (push_bit 12 (pte_ppn pte))"
    if "bus_read b ?e 8 PageTableWalk = Inr pte" "pte_legal pte" "pte_pointer pte" for pte
    using Suc.prems visits.below [OF that] by (intro Suc.IH) auto
  have ppn: "drop_bit 10 pte AND kPpnMask = pte_ppn pte" for pte by (simp add: pte_ppn_def kPpnMask_mask)
  show ?case
    using IH unfolding walk_levels.simps(2) [of _ va ctx "Suc level"] Let_def vpn_nth [OF Suc.prems(2)] e ppn
    by (simp add: pointer_tests pte_tests pte_legal_def pte_pointer_def del: walk_levels.simps split: sum.split)
qed

lemma visits_cong:
  assumes "\<And>a. visits b va level table a \<Longrightarrow> bus_read c a 8 PageTableWalk = bus_read b a 8 PageTableWalk"
  shows "visits c va level table a = visits b va level table a"
  using assms
proof (induction level arbitrary: table)
  case 0
  show ?case by (simp add: visits_0)
next
  case (Suc level)
  have e: "bus_read c (table + vpn va (Suc level) * 8) 8 PageTableWalk =
      bus_read b (table + vpn va (Suc level) * 8) 8 PageTableWalk"
    by (rule Suc.prems) (rule visits.entry)
  have IH: "visits c va level (push_bit 12 (pte_ppn pte)) a = visits b va level (push_bit 12 (pte_ppn pte)) a"
    if "bus_read b (table + vpn va (Suc level) * 8) 8 PageTableWalk = Inr pte" "pte_legal pte" "pte_pointer pte" for pte
    by (rule Suc.IH) (rule Suc.prems, rule visits.below [OF that])
  show ?case using IH unfolding visits_Suc e by blast
qed

lemma walk_sv39_visits:
  assumes "\<And>a. visits b va 2 (root_table ctx) a \<Longrightarrow>
      bus_read c a 8 PageTableWalk = bus_read b a 8 PageTableWalk"
  shows "walk_sv39 c va ctx = walk_sv39 b va ctx"
proof -
  have "(3 :: nat) = Suc 2" by simp
  moreover have "walk_levels c va ctx (Suc 2) (root_table ctx) = walk_levels b va ctx (Suc 2) (root_table ctx)"
    by (rule walk_levels_visits [OF assms]) simp_all
  ultimately show ?thesis by (simp only: walk_sv39_def root_table_def kPpnMask_mask)
qed

text \<open>
  The reason of a failed walk: an access fault when an entry on its way cannot be read, a fault of the
  leaf when one is mapped, and a malformed table otherwise.
\<close>

definition leaf_reason :: "Sv39Context \<Rightarrow> u64 \<Rightarrow> Sv39FaultReason" where
  "leaf_reason ctx pte =
     (if (if ctx_privilege ctx = User then \<not> bit pte 4
          else bit pte 4 \<and> (ctx_access ctx = VirtualAccess.InstructionFetch \<or> \<not> ctx_sum ctx))
      then Sv39FaultReason.PrivilegeViolation
      else if \<not> (case ctx_access ctx of
          VirtualAccess.InstructionFetch \<Rightarrow> bit pte 3
        | VirtualAccess.Load \<Rightarrow> bit pte 1 \<or> ctx_mxr ctx \<and> bit pte 3
        | VirtualAccess.Store \<Rightarrow> bit pte 2)
      then PermissionViolation
      else if \<not> bit pte 6 then AccessedBitClear else DirtyBitClear)"

definition leaf_reasons :: "Sv39FaultReason set" where
  "leaf_reasons = {Sv39FaultReason.PrivilegeViolation, PermissionViolation, AccessedBitClear, DirtyBitClear}"

lemma leaf_reason_in [simp]: "leaf_reason ctx pte \<in> leaf_reasons"
  by (simp add: leaf_reason_def leaf_reasons_def)

lemma check_leaf_reason:
  assumes "check_leaf va ctx level a pte = Inl f" "take_bit (9 * level) (pte_ppn pte) = 0"
    "ctx_privilege ctx \<noteq> Machine"
  shows "sf_level f = int level \<and> sf_pte_address f = a \<and> sf_pte f = pte \<and> sf_reason f = leaf_reason ctx pte"
proof -
  have "pte_ppn pte = drop_bit 10 pte AND kPpnMask" by (simp add: pte_ppn_def kPpnMask_mask)
  moreover have "access_is_permitted pte (ctx_access ctx) (ctx_mxr ctx) \<longleftrightarrow>
      (case ctx_access ctx of
         VirtualAccess.InstructionFetch \<Rightarrow> bit pte 3
       | VirtualAccess.Load \<Rightarrow> bit pte 1 \<or> ctx_mxr ctx \<and> bit pte 3
       | VirtualAccess.Store \<Rightarrow> bit pte 2)"
    by (cases "ctx_access ctx") (simp_all add: pte_tests)
  ultimately show ?thesis
    using assms unfolding check_leaf_def Let_def low_mask_test leaf_reason_def
    by (cases "ctx_privilege ctx") (auto simp: pte_tests fault_def mult.commute split: if_splits)
qed

lemma check_leaf_misaligned:
  assumes "check_leaf va ctx level a pte = Inl f" "take_bit (9 * level) (pte_ppn pte) \<noteq> 0"
  shows "sf_reason f = MisalignedSuperpage"
proof -
  have "pte_ppn pte = drop_bit 10 pte AND kPpnMask" by (simp add: pte_ppn_def kPpnMask_mask)
  then show ?thesis
    using assms unfolding check_leaf_def Let_def low_mask_test by (auto simp: fault_def mult.commute)
qed

lemma check_leaf_no_table_access: "check_leaf va ctx level a pte = Inl f \<Longrightarrow> sf_reason f \<noteq> PageTableAccess"
  by (auto simp: check_leaf_def Let_def fault_def split: if_splits)

lemma walk_levels_unreadable:
  assumes "unat table \<le> 2 ^ 56" "level < 3"
  shows "(\<exists>f. walk_levels b va ctx (Suc level) table = Inl f \<and> sf_reason f = PageTableAccess) \<longleftrightarrow>
    (\<exists>a e. visits b va level table a \<and> bus_read b a 8 PageTableWalk = Inl e)"
  using assms
proof (induction level arbitrary: table)
  case 0
  show ?case
    using entry_no_overflow [OF 0(1), of va 0]
    by (auto simp: Let_def vpn_nth visits_0 fault_def dest: check_leaf_no_table_access split: sum.splits if_splits)
next
  case (Suc level)
  let ?e = "table + vpn va (Suc level) * 8"
  have ppn: "drop_bit 10 pte AND kPpnMask = pte_ppn pte" for pte by (simp add: pte_ppn_def kPpnMask_mask)
  have "unat (push_bit 12 (pte_ppn pte)) \<le> 2 ^ 56" for pte
    unfolding pte_ppn_def by (rule table_address_bound)
  then have IH: "(\<exists>f. walk_levels b va ctx (Suc level) (push_bit 12 (pte_ppn pte)) = Inl f \<and> sf_reason f = PageTableAccess) \<longleftrightarrow>
      (\<exists>a e. visits b va level (push_bit 12 (pte_ppn pte)) a \<and> bus_read b a 8 PageTableWalk = Inl e)" for pte
    using Suc by simp
  show ?case
  proof (cases "bus_read b ?e 8 PageTableWalk")
    case (Inl e)
    then show ?thesis
      unfolding walk_levels.simps(2) [of _ va ctx "Suc level"] Let_def vpn_nth [OF Suc.prems(2)]
      using entry_no_overflow [OF Suc.prems(1), of va "Suc level"] by (auto simp: visits_Suc fault_def)
  next
    case (Inr pte)
    have "(\<exists>f. walk_levels b va ctx (Suc (Suc level)) table = Inl f \<and> sf_reason f = PageTableAccess) \<longleftrightarrow>
        pte_legal pte \<and> pte_pointer pte \<and>
        (\<exists>f. walk_levels b va ctx (Suc level) (push_bit 12 (pte_ppn pte)) = Inl f \<and> sf_reason f = PageTableAccess)"
      unfolding walk_levels.simps(2) [of _ va ctx "Suc level"] Let_def vpn_nth [OF Suc.prems(2)]
      using entry_no_overflow [OF Suc.prems(1), of va "Suc level"] Inr
      by (auto simp: fault_def ppn pointer_tests pte_tests pte_legal_def pte_pointer_def
          simp del: walk_levels.simps dest: check_leaf_no_table_access)
    then show ?thesis unfolding IH using Inr by (auto simp: visits_Suc)
  qed
qed

lemma walk_levels_mapped:
  assumes "maps_to b va level table l a pte" "unat table \<le> 2 ^ 56" "level < 3"
  shows "walk_levels b va ctx (Suc level) table = check_leaf va ctx l a pte"
  using assms
proof (induction rule: maps_to.induct)
  case (leaf table level pte)
  then show ?case
    using entry_no_overflow [OF leaf(5), of va level]
    by (auto simp: Let_def vpn_nth pointer_tests pte_tests pte_legal_def)
next
  case (pointer table level pte l a leaf_pte)
  have ppn: "drop_bit 10 pte AND kPpnMask = pte_ppn pte" by (simp add: pte_ppn_def kPpnMask_mask)
  have "unat (push_bit 12 (pte_ppn pte)) \<le> 2 ^ 56"
    unfolding pte_ppn_def by (rule table_address_bound)
  with pointer have IH: "walk_levels b va ctx (Suc level) (push_bit 12 (pte_ppn pte)) = check_leaf va ctx l a leaf_pte"
    by simp
  show ?case
    unfolding walk_levels.simps(2) [of _ va ctx "Suc level"] Let_def vpn_nth [OF pointer(7)]
    using pointer(1-3) entry_no_overflow [OF pointer(6), of va "Suc level"]
    by (auto simp: ppn IH pointer_tests pte_tests pte_legal_def pte_pointer_def simp del: walk_levels.simps)
qed

definition malformed_reasons :: "Sv39FaultReason set" where
  "malformed_reasons = {InvalidPte, ReservedWriteOnlyPte, ReservedPteBits, ReservedNonLeafPte,
     MisalignedSuperpage, WalkExhausted}"

lemma walk_levels_unmapped:
  assumes "\<not> (\<exists>l a pte. maps_to b va level table l a pte)" "level < 3"
    "walk_levels b va ctx (Suc level) table = Inl f"
  shows "sf_reason f \<in> insert PageTableAccess malformed_reasons"
  using assms
proof (induction level arbitrary: table)
  case 0
  then show ?case
    by (auto simp: Let_def vpn_nth fault_def malformed_reasons_def maps_to_0 pointer_tests pte_tests pte_legal_def
        split: sum.splits if_splits)
next
  case (Suc level)
  have ppn: "drop_bit 10 pte AND kPpnMask = pte_ppn pte" for pte by (simp add: pte_ppn_def kPpnMask_mask)
  have below: "sf_reason f \<in> insert PageTableAccess malformed_reasons"
    if "bus_read b (table + vpn va (Suc level) * 8) 8 PageTableWalk = Inr pte" "pte_legal pte" "pte_pointer pte"
      "walk_levels b va ctx (Suc level) (push_bit 12 (pte_ppn pte)) = Inl f" for pte
  proof (rule Suc.IH [OF _ _ that(4)])
    show "\<not> (\<exists>l a leaf. maps_to b va level (push_bit 12 (pte_ppn pte)) l a leaf)"
      using maps_to.pointer [OF that(1-3)] Suc.prems(1) by blast
  qed (use Suc.prems(2) in simp)
  have here: "sf_reason f = MisalignedSuperpage"
    if "bus_read b (table + vpn va (Suc level) * 8) 8 PageTableWalk = Inr pte" "pte_legal pte" "pte_leaf pte"
      "check_leaf va ctx (Suc level) (table + vpn va (Suc level) * 8) pte = Inl f" for pte
    using check_leaf_misaligned [OF that(4)] maps_to.leaf [OF that(1-3)] Suc.prems(1) by blast
  show ?case
    using Suc.prems(3) below here
    unfolding walk_levels.simps(2) [of _ va ctx "Suc level"] Let_def vpn_nth [OF Suc.prems(2)] ppn
    by (auto simp: fault_def malformed_reasons_def pointer_tests pte_tests pte_legal_def pte_pointer_def
        simp del: walk_levels.simps split: sum.splits if_splits)
qed

text \<open>The tables of an address are unreadable when its walk comes to an entry that the bus refuses.\<close>

definition unreadable :: "Bus \<Rightarrow> u64 \<Rightarrow> u64 \<Rightarrow> bool" where
  "unreadable b va root \<longleftrightarrow>
     canonical va \<and> (\<exists>a e. visits b va 2 root a \<and> bus_read b a 8 PageTableWalk = Inl e)"

lemma walk_sv39_levels:
  assumes "ctx_privilege ctx \<noteq> Machine"
  shows "walk_sv39 b va ctx =
    (if canonical va then walk_levels b va ctx (Suc 2) (root_table ctx)
     else Inl (fault NonCanonicalAddress va (-1) 0 0 ''virtual address is not sign-extended from bit 38''))"
proof -
  have "ctx_privilege ctx = Supervisor \<or> ctx_privilege ctx = User"
    using assms by (cases "ctx_privilege ctx") auto
  moreover have "(3 :: nat) = Suc 2" by simp
  ultimately show ?thesis
    by (cases "canonical va") (auto simp del: walk_levels.simps
        simp: walk_sv39_def is_sv39_canonical_iff root_table_def kPpnMask_mask)
qed

lemma root_table_bound: "unat (root_table ctx) \<le> 2 ^ 56"
  unfolding root_table_def by (rule table_address_bound)

lemma walk_sv39_unreadable:
  assumes "ctx_privilege ctx \<noteq> Machine"
  shows "(\<exists>f. walk_sv39 b va ctx = Inl f \<and> sf_reason f = PageTableAccess) \<longleftrightarrow> unreadable b va (root_table ctx)"
proof -
  have "(\<exists>f. walk_levels b va ctx (Suc 2) (root_table ctx) = Inl f \<and> sf_reason f = PageTableAccess) \<longleftrightarrow>
    (\<exists>a e. visits b va 2 (root_table ctx) a \<and> bus_read b a 8 PageTableWalk = Inl e)"
    by (rule walk_levels_unreadable [OF root_table_bound]) simp
  then show ?thesis
    by (auto simp only: walk_sv39_levels [OF assms] unreadable_def if_True if_False fault_def Sv39Fault.simps
        sum.inject Sv39FaultReason.distinct split: if_splits)
qed

lemma walk_sv39_mapped:
  assumes "ctx_privilege ctx \<noteq> Machine" "canonical va" "maps_to b va 2 (root_table ctx) l a pte"
  shows "walk_sv39 b va ctx = check_leaf va ctx l a pte"
  using walk_levels_mapped [OF assms(3) root_table_bound, of ctx] by (simp only: walk_sv39_levels [OF assms(1)] assms(2) if_True)

lemma walk_sv39_leaf_fault:
  assumes "ctx_privilege ctx \<noteq> Machine" "canonical va" "maps_to b va 2 (root_table ctx) l a pte"
    "walk_sv39 b va ctx = Inl f"
  shows "sf_level f = int l \<and> sf_pte_address f = a \<and> sf_pte f = pte \<and> sf_reason f = leaf_reason ctx pte"
proof (rule check_leaf_reason [OF _ _ assms(1)])
  show "check_leaf va ctx l a pte = Inl f" using walk_sv39_mapped [OF assms(1-3)] assms(4) by simp
  show "take_bit (9 * l) (pte_ppn pte) = 0" using maps_to_leaf [OF assms(3)] by simp
qed

lemma walk_sv39_unmapped:
  assumes "ctx_privilege ctx \<noteq> Machine" "canonical va" "\<not> (\<exists>l a pte. maps_to b va 2 (root_table ctx) l a pte)"
    "walk_sv39 b va ctx = Inl f"
  shows "sf_reason f \<in> insert PageTableAccess malformed_reasons"
  using assms(4) walk_levels_unmapped [OF assms(3)] assms(2)
  by (simp only: walk_sv39_levels [OF assms(1)] if_True)

end
