(* ===== verification/Cpu.thy ===== *)
theory Cpu
  imports Trace Csr Sv39
begin

text \<open>
  The hart (\<^verbatim>\<open>cpu.hpp\<close>, \<^verbatim>\<open>cpu.cpp\<close>): registers, translation, loads and stores, traps, the
  execution of one decoded instruction, the step and the bounded run. The \<^verbatim>\<open>Bus&\<close> the C++
  object refers to is a field of the state, the execution record it fills in is passed along.
  \<open>Inl\<close> is a C++ exception.
\<close>

subsection \<open>Arithmetic helpers\<close>

definition arithmetic_shift_right :: "u64 \<Rightarrow> nat \<Rightarrow> u64" where
  "arithmetic_shift_right v amount0 =
     (let amount = amount0 mod 64
      in if amount = 0 then v
         else let shifted = drop_bit amount v
              in if v AND push_bit 63 1 = 0 then shifted
                 else shifted OR push_bit (64 - amount) (NOT 0))"

definition arithmetic_shift_right_word :: "u32 \<Rightarrow> nat \<Rightarrow> u32" where
  "arithmetic_shift_right_word v amount0 =
     (let amount = amount0 mod 32
      in if amount = 0 then v
         else let shifted = drop_bit amount v
              in if v AND push_bit 31 1 = 0 then shifted
                 else shifted OR push_bit (32 - amount) (NOT 0))"

definition sign_extend_word :: "u64 \<Rightarrow> u64" where
  "sign_extend_word v = scast (ucast v :: u32)"

definition add_offset :: "u64 \<Rightarrow> i64 \<Rightarrow> u64" where
  "add_offset b offset = b + offset"

definition kInstructionBytes :: u64 where "kInstructionBytes = 4"

definition load_width :: "Operation \<Rightarrow> exn + nat" where
  "load_width operation =
     (if operation = Lb \<or> operation = Lbu then Inr 1
      else if operation = Lh \<or> operation = Lhu then Inr 2
      else if operation = Lw \<or> operation = Lwu then Inr 4
      else if operation = Ld then Inr 8
      else Inl (LogicError ''operation is not a load''))"

definition store_width :: "Operation \<Rightarrow> exn + nat" where
  "store_width operation =
     (if operation = Sb then Inr 1
      else if operation = Sh then Inr 2
      else if operation = Sw then Inr 4
      else if operation = Sd then Inr 8
      else Inl (LogicError ''operation is not a store''))"

definition is_unsigned_load :: "Operation \<Rightarrow> bool" where
  "is_unsigned_load operation \<longleftrightarrow> operation = Lbu \<or> operation = Lhu \<or> operation = Lwu"

subsection \<open>State\<close>

datatype TrapPolicy = Halt | Vector

record CpuConfig =
  trap_policy :: TrapPolicy
  halt_on_ebreak :: bool
  halt_on_wfi :: bool

datatype RunStopReason = Halted | StepLimit

record RunResult =
  rr_reason :: RunStopReason
  rr_attempted_steps :: u64
  rr_retired_instructions :: u64
  rr_detail :: string
  rr_terminal_trap :: "Trap option"

record Cpu =
  bus :: Bus
  config :: CpuConfig
  registers :: "u64 list"
  pc :: u64
  privilege :: PrivilegeLevel
  csrs :: CsrFile
  sequence_number :: u64
  halted :: bool
  halt_detail :: string
  terminal_trap :: "Trap option"

definition cpu_reset :: "Cpu \<Rightarrow> u64 \<Rightarrow> Cpu" where
  "cpu_reset cpu entry = cpu\<lparr>registers := replicate 32 0, pc := entry, privilege := Machine,
     csrs := csr_reset, sequence_number := 0, halted := False, halt_detail := [],
     terminal_trap := None\<rparr>"

definition make_cpu :: "Bus \<Rightarrow> CpuConfig \<Rightarrow> Cpu" where
  "make_cpu b c = cpu_reset
     \<lparr>bus = b, config = c, registers = [], pc = 0, privilege = Machine, csrs = csr_reset,
      sequence_number = 0, halted = False, halt_detail = [], terminal_trap = None\<rparr> 0"

definition reg :: "Cpu \<Rightarrow> nat \<Rightarrow> exn + u64" where
  "reg cpu index =
     (if index \<ge> length (registers cpu) then Inl (OutOfRange ''RISC-V register index exceeds x31'')
      else Inr (registers cpu ! index))"

definition set_reg :: "Cpu \<Rightarrow> nat \<Rightarrow> u64 \<Rightarrow> exn + Cpu" where
  "set_reg cpu index v =
     (if index \<ge> length (registers cpu) then Inl (OutOfRange ''RISC-V register index exceeds x31'')
      else if index \<noteq> 0 then Inr (cpu\<lparr>registers := (registers cpu)[index := v]\<rparr>)
      else Inr cpu)"

definition write_register :: "Cpu \<Rightarrow> StepRecord \<Rightarrow> u8 \<Rightarrow> u64 \<Rightarrow> Cpu \<times> StepRecord" where
  "write_register cpu record index v =
     (if index = 0 then (cpu, record)
      else (cpu\<lparr>registers := (registers cpu)[unat index := v]\<rparr>,
            record\<lparr>sr_register_write := Some \<lparr>rw_index = index, rw_value = v\<rparr>\<rparr>))"

subsection \<open>Traps and translation\<close>

definition raise_trap :: "Cpu \<Rightarrow> StepRecord \<Rightarrow> TrapCause \<Rightarrow> u64 \<Rightarrow> string \<Rightarrow> Cpu \<times> StepRecord" where
  "raise_trap cpu record cause v detail =
     (let trap = \<lparr>trap_cause = cause, trap_pc = sr_pc record, trap_value = v, trap_detail = detail\<rparr>;
          (csrs', entry) = enter_trap (csrs cpu) trap (privilege cpu);
          cpu1 = cpu\<lparr>csrs := csrs', privilege := te_target entry\<rparr>;
          cpu2 = (if trap_policy (config cpu) = Vector then cpu1\<lparr>pc := te_vector entry\<rparr>
                  else cpu1\<lparr>pc := trap_pc trap, halted := True,
                            halt_detail := trap_name cause @ '': '' @ trap_detail trap,
                            terminal_trap := Some trap\<rparr>)
      in (cpu2, record\<lparr>sr_trap := Some trap, sr_retired := False, sr_next_pc := pc cpu2,
                       sr_next_privilege := privilege cpu2, sr_halted := halted cpu2\<rparr>))"

definition record_translation :: "StepRecord \<Rightarrow> VirtualAccess \<Rightarrow> AddressTranslation \<Rightarrow> StepRecord" where
  "record_translation record access t =
     (if access = VirtualAccess.InstructionFetch then record\<lparr>sr_instruction_translation := Some t\<rparr>
      else record\<lparr>sr_data_translation := Some t\<rparr>)"

definition page_fault_cause :: "VirtualAccess \<Rightarrow> TrapCause" where
  "page_fault_cause access =
     (if access = VirtualAccess.InstructionFetch then InstructionPageFault
      else if access = VirtualAccess.Load then LoadPageFault else StorePageFault)"

definition access_fault_cause :: "VirtualAccess \<Rightarrow> TrapCause" where
  "access_fault_cause access =
     (if access = VirtualAccess.InstructionFetch then InstructionAccessFault
      else if access = VirtualAccess.Load then LoadAccessFault else StoreAccessFault)"

definition sv39_context :: "Cpu \<Rightarrow> VirtualAccess \<Rightarrow> Sv39Context" where
  "sv39_context cpu access =
     (let m = mstatus_value (csrs cpu)
      in \<lparr>root_ppn = satp (csrs cpu) AND (push_bit 44 1 - 1), ctx_privilege = privilege cpu,
          ctx_access = access, ctx_sum = (m AND status_kSum \<noteq> 0),
          ctx_mxr = (m AND status_kMxr \<noteq> 0)\<rparr>)"

definition translate ::
  "Cpu \<Rightarrow> StepRecord \<Rightarrow> u64 \<Rightarrow> VirtualAccess \<Rightarrow> Cpu \<times> StepRecord \<times> u64 option" where
  "translate cpu record address access =
     (if privilege cpu = Machine \<or> satp (csrs cpu) AND kSatpModeMask \<noteq> kSatpModeSv39 then
        (cpu, record_translation record access
                \<lparr>at_virtual_address = address, at_physical_address = address\<rparr>, Some address)
      else case walk_sv39 (bus cpu) address (sv39_context cpu access) of
        Inl flt \<Rightarrow>
          let (cpu', record') =
            (if sf_reason flt = PageTableAccess
             then raise_trap cpu record (access_fault_cause access) address
                    (''Sv39 page-table access failed at level '' @ show_int (sf_level flt) @ '': '' @
                     sf_detail flt)
             else raise_trap cpu record (page_fault_cause access) address
                    (sv39_fault_reason_name (sf_reason flt) @ '' at level '' @
                     show_int (sf_level flt) @ '': '' @ sf_detail flt))
          in (cpu', record', None)
      | Inr t \<Rightarrow>
          let physical_address = st_physical_address t
          in (cpu, record_translation record access
                \<lparr>at_virtual_address = address, at_physical_address = physical_address\<rparr>,
              Some physical_address))"

subsection \<open>Loads and stores\<close>

definition load ::
  "Cpu \<Rightarrow> StepRecord \<Rightarrow> u64 \<Rightarrow> nat \<Rightarrow> bool \<Rightarrow> Cpu \<times> StepRecord \<times> u64 option" where
  "load cpu record address width sign_extend_value =
     (if width > 1 \<and> unat address mod width \<noteq> 0 then
        let (cpu', record') = raise_trap cpu record LoadAddressMisaligned address
                                ''load address is not naturally aligned''
        in (cpu', record', None)
      else let (cpu1, record1, translated) = translate cpu record address VirtualAccess.Load
        in (case translated of
              None \<Rightarrow> (cpu1, record1, None)
            | Some physical_address \<Rightarrow>
                (case bus_read (bus cpu1) physical_address width AccessKind.Load of
                   Inl flt \<Rightarrow>
                     let (cpu2, record2) = raise_trap cpu1 record1 LoadAccessFault address (bf_detail flt)
                     in (cpu2, record2, None)
                 | Inr v \<Rightarrow>
                     (cpu1, record1,
                      Some (if sign_extend_value \<and> width < 8 then sign_extend v (width * 8) else v)))))"

definition store ::
  "Cpu \<Rightarrow> StepRecord \<Rightarrow> u64 \<Rightarrow> nat \<Rightarrow> u64 \<Rightarrow> Cpu \<times> StepRecord \<times> bool" where
  "store cpu record address width value0 =
     (if width > 1 \<and> unat address mod width \<noteq> 0 then
        let (cpu', record') = raise_trap cpu record StoreAddressMisaligned address
                                ''store address is not naturally aligned''
        in (cpu', record', False)
      else let v = value0 AND mask_for_width width;
               (cpu1, record1, translated) = translate cpu record address VirtualAccess.Store
        in (case translated of
              None \<Rightarrow> (cpu1, record1, False)
            | Some physical_address \<Rightarrow>
                let (bus', flt) = bus_write (bus cpu1) physical_address width v AccessKind.Store;
                    cpu2 = cpu1\<lparr>bus := bus'\<rparr>
                in (case flt of
                      Some f \<Rightarrow>
                        let (cpu3, record3) = raise_trap cpu2 record1 StoreAccessFault address (bf_detail f)
                        in (cpu3, record3, False)
                    | None \<Rightarrow>
                        (cpu2, record1\<lparr>sr_memory_write := Some
                           \<lparr>mw_address = address, mw_width = width, mw_value = v,
                            mw_physical_address = physical_address\<rparr>\<rparr>, True))))"

subsection \<open>Execution of one instruction\<close>

text \<open>
  The branches of the \<^verbatim>\<open>switch\<close> in \<^verbatim>\<open>Cpu::execute\<close>, group by group. Each yields the state, the
  record and whether control reaches the end of the \<^verbatim>\<open>switch\<close> (\<open>True\<close>, a \<^verbatim>\<open>break\<close>) or leaves the
  function (\<open>False\<close>, a \<^verbatim>\<open>return\<close>).
\<close>

type_synonym Flow = "Cpu \<times> StepRecord \<times> bool"

definition finish :: "Cpu \<times> StepRecord \<Rightarrow> bool \<Rightarrow> Flow" where
  "finish s completed = (fst s, snd s, completed)"

definition branch :: "Cpu \<Rightarrow> StepRecord \<Rightarrow> i64 \<Rightarrow> bool \<Rightarrow> Cpu \<times> StepRecord" where
  "branch cpu record immediate taken =
     (if \<not> taken then (cpu, record)
      else let target = add_offset (sr_pc record) immediate
           in if target mod kInstructionBytes \<noteq> 0 then
                raise_trap cpu record InstructionAddressMisaligned target
                  ''taken branch target is not four-byte aligned''
              else (cpu\<lparr>pc := target\<rparr>, record))"

definition jump :: "Cpu \<Rightarrow> StepRecord \<Rightarrow> u8 \<Rightarrow> u64 \<Rightarrow> u64 \<Rightarrow> Flow" where
  "jump cpu record rd sequential_pc target =
     (if target mod kInstructionBytes \<noteq> 0 then
        finish (raise_trap cpu record InstructionAddressMisaligned target
                  ''jump target is not four-byte aligned'') False
      else let (cpu', record') = write_register cpu record rd sequential_pc
           in (cpu'\<lparr>pc := target\<rparr>, record', True))"

definition branch_taken :: "Operation \<Rightarrow> u64 \<Rightarrow> u64 \<Rightarrow> bool" where
  "branch_taken op lhs rhs =
     (if op = Beq then lhs = rhs
      else if op = Bne then lhs \<noteq> rhs
      else if op = Blt then sint lhs < sint rhs
      else if op = Bge then sint lhs \<ge> sint rhs
      else if op = Bltu then lhs < rhs
      else lhs \<ge> rhs)"

definition exec_control :: "Cpu \<Rightarrow> StepRecord \<Rightarrow> DecodedInstruction \<Rightarrow> u64 \<Rightarrow> u64 \<Rightarrow> u64 \<Rightarrow> Flow" where
  "exec_control cpu record ins lhs rhs sequential_pc =
     (let op = di_operation ins; rd = di_rd ins; imm = di_immediate ins
      in if op = Lui then finish (write_register cpu record rd imm) True
         else if op = Auipc then finish (write_register cpu record rd (add_offset (sr_pc record) imm)) True
         else if op = Jal then jump cpu record rd sequential_pc (add_offset (sr_pc record) imm)
         else if op = Jalr then jump cpu record rd sequential_pc (add_offset lhs imm AND NOT 1)
         else finish (branch cpu record imm (branch_taken op lhs rhs)) True)"

definition exec_memory ::
  "Cpu \<Rightarrow> StepRecord \<Rightarrow> DecodedInstruction \<Rightarrow> u64 \<Rightarrow> u64 \<Rightarrow> exn + Flow" where
  "exec_memory cpu record ins lhs rhs =
     (let op = di_operation ins; rd = di_rd ins; imm = di_immediate ins
      in if op \<in> {Lb, Lh, Lw, Ld, Lbu, Lhu, Lwu} then
           (case load_width op of
              Inl e \<Rightarrow> Inl e
            | Inr width \<Rightarrow>
                let (cpu1, record1, v) = load cpu record (add_offset lhs imm) width (\<not> is_unsigned_load op)
                in (case v of
                      None \<Rightarrow> Inr (cpu1, record1, False)
                    | Some v \<Rightarrow> Inr (finish (write_register cpu1 record1 rd v) True)))
         else
           (case store_width op of
              Inl e \<Rightarrow> Inl e
            | Inr width \<Rightarrow> Inr (store cpu record (add_offset lhs imm) width rhs)))"

definition truth :: "bool \<Rightarrow> u64" where
  "truth b = (if b then 1 else 0)"

definition alu_immediate :: "Operation \<Rightarrow> u64 \<Rightarrow> i64 \<Rightarrow> u64" where
  "alu_immediate op lhs imm =
     (if op = Addi then add_offset lhs imm
      else if op = Slti then truth (sint lhs < sint imm)
      else if op = Sltiu then truth (lhs < imm)
      else if op = Xori then lhs XOR imm
      else if op = Ori then lhs OR imm
      else if op = Andi then lhs AND imm
      else if op = Slli then push_bit (unat imm) lhs
      else if op = Srli then drop_bit (unat imm) lhs
      else arithmetic_shift_right lhs (unat imm))"

definition alu_register :: "Operation \<Rightarrow> u64 \<Rightarrow> u64 \<Rightarrow> u64" where
  "alu_register op lhs rhs =
     (if op = Add then lhs + rhs
      else if op = Sub then lhs - rhs
      else if op = Sll then push_bit (unat (rhs AND 0x3f)) lhs
      else if op = Slt then truth (sint lhs < sint rhs)
      else if op = Sltu then truth (lhs < rhs)
      else if op = Xor then lhs XOR rhs
      else if op = Srl then drop_bit (unat (rhs AND 0x3f)) lhs
      else if op = Sra then arithmetic_shift_right lhs (unat (rhs AND 0x3f))
      else if op = Or then lhs OR rhs
      else lhs AND rhs)"

definition alu_word :: "Operation \<Rightarrow> u64 \<Rightarrow> u64 \<Rightarrow> i64 \<Rightarrow> u64" where
  "alu_word op lhs rhs imm =
     (let l = (ucast lhs :: u32); r = (ucast rhs :: u32)
      in if op = Addiw then sign_extend_word (lhs + imm)
         else if op = Slliw then sign_extend_word (ucast (push_bit (unat imm) l))
         else if op = Srliw then sign_extend_word (ucast (drop_bit (unat imm) l))
         else if op = Sraiw then sign_extend_word (ucast (arithmetic_shift_right_word l (unat imm)))
         else if op = Addw then sign_extend_word (ucast (l + r))
         else if op = Subw then sign_extend_word (ucast (l - r))
         else if op = Sllw then sign_extend_word (ucast (push_bit (unat (rhs AND 0x1f)) l))
         else if op = Srlw then sign_extend_word (ucast (drop_bit (unat (rhs AND 0x1f)) l))
         else sign_extend_word (ucast (arithmetic_shift_right_word l (unat (rhs AND 0x1f)))))"

definition ecall_cause :: "PrivilegeLevel \<Rightarrow> TrapCause \<times> string" where
  "ecall_cause p =
     (if p = User then (EnvironmentCallFromUserMode, ''environment call executed in user mode'')
      else if p = Supervisor then
        (EnvironmentCallFromSupervisorMode, ''environment call executed in supervisor mode'')
      else (EnvironmentCallFromMachineMode, ''environment call executed in machine mode''))"

definition exec_ebreak :: "Cpu \<Rightarrow> StepRecord \<Rightarrow> Cpu \<times> StepRecord" where
  "exec_ebreak cpu record =
     (let (cpu1, record1) = raise_trap cpu record Breakpoint 0 ''EBREAK requested a debugger trap''
      in if halt_on_ebreak (config cpu1) \<and> trap_policy (config cpu1) = Vector then
           (cpu1\<lparr>halted := True, pc := sr_pc record1,
                 halt_detail := ''breakpoint: EBREAK requested a debugger trap'',
                 terminal_trap := sr_trap record1\<rparr>,
            record1\<lparr>sr_next_pc := sr_pc record1, sr_halted := True\<rparr>)
         else (cpu1, record1))"

definition exec_return :: "Cpu \<Rightarrow> TrapReturnMode \<Rightarrow> Cpu" where
  "exec_return cpu mode =
     (let (csrs', transition) = return_from_trap (csrs cpu) mode
      in cpu\<lparr>csrs := csrs', pc := tr_pc transition, privilege := tr_target transition\<rparr>)"

definition exec_system :: "Cpu \<Rightarrow> StepRecord \<Rightarrow> DecodedInstruction \<Rightarrow> Flow" where
  "exec_system cpu record ins =
     (let op = di_operation ins; illegal = raise_trap cpu record IllegalInstruction (ucast (di_raw ins))
      in if op = Fence \<or> op = FenceI then (cpu, record, True)
         else if op = SfenceVma then
           (if privilege cpu = User
            then finish (illegal ''SFENCE.VMA requires supervisor or machine privilege'') False
            else (cpu, record, True))
         else if op = Ecall then
           (let (cause, detail) = ecall_cause (privilege cpu)
            in finish (raise_trap cpu record cause 0 detail) False)
         else if op = Ebreak then finish (exec_ebreak cpu record) False
         else if op = Sret then
           (if privilege cpu = User
            then finish (illegal ''SRET requires supervisor or machine privilege'') False
            else (exec_return cpu SupervisorReturn, record, True))
         else if op = Mret then
           (if privilege cpu \<noteq> Machine
            then finish (illegal ''MRET requires machine privilege'') False
            else (exec_return cpu MachineReturn, record, True))
         else
           (if halt_on_wfi (config cpu) then
              (cpu\<lparr>halted := True, halt_detail := ''WFI reached with no interrupt source configured''\<rparr>,
               record\<lparr>sr_halted := True\<rparr>, True)
            else (cpu, record, True)))"

text \<open>The new value of a CSR and whether it is written.\<close>

definition csr_update :: "Operation \<Rightarrow> u64 \<Rightarrow> u64 \<Rightarrow> u64 \<times> bool" where
  "csr_update op old_value operand =
     (if op = Csrrs \<or> op = Csrrsi then (old_value OR operand, operand \<noteq> 0)
      else if op = Csrrc \<or> op = Csrrci then (old_value AND NOT operand, operand \<noteq> 0)
      else (operand, True))"

definition exec_csr :: "Cpu \<Rightarrow> StepRecord \<Rightarrow> DecodedInstruction \<Rightarrow> u64 \<Rightarrow> Flow" where
  "exec_csr cpu record ins lhs =
     (let op = di_operation ins; illegal = raise_trap cpu record IllegalInstruction (ucast (di_raw ins))
      in case csr_read (csrs cpu) (di_csr ins) (privilege cpu) of
           Inl e \<Rightarrow> finish (illegal (ce_detail e)) False
         | Inr old_value \<Rightarrow>
             let immediate_form = (op = Csrrwi \<or> op = Csrrsi \<or> op = Csrrci);
                 operand = (if immediate_form then ucast (di_rs1 ins) else lhs);
                 (new_value, should_write) = csr_update op old_value operand
             in if should_write then
                  (case csr_write (csrs cpu) (di_csr ins) new_value (privilege cpu) of
                     (csrs', Some e) \<Rightarrow>
                       finish (raise_trap (cpu\<lparr>csrs := csrs'\<rparr>) record IllegalInstruction
                                 (ucast (di_raw ins)) (ce_detail e)) False
                   | (csrs', None) \<Rightarrow>
                       finish (write_register (cpu\<lparr>csrs := csrs'\<rparr>) record (di_rd ins) old_value) True)
                else finish (write_register cpu record (di_rd ins) old_value) True)"

definition execute_operation ::
  "Cpu \<Rightarrow> StepRecord \<Rightarrow> DecodedInstruction \<Rightarrow> u64 \<Rightarrow> u64 \<Rightarrow> u64 \<Rightarrow> exn + Flow" where
  "execute_operation cpu record ins lhs rhs sequential_pc =
     (let op = di_operation ins;
          write = (\<lambda>v. Inr (finish (write_register cpu record (di_rd ins) v) True))
      in if op \<in> {Lui, Auipc, Jal, Jalr, Beq, Bne, Blt, Bge, Bltu, Bgeu} then
           Inr (exec_control cpu record ins lhs rhs sequential_pc)
         else if op \<in> {Lb, Lh, Lw, Ld, Lbu, Lhu, Lwu, Sb, Sh, Sw, Sd} then
           exec_memory cpu record ins lhs rhs
         else if op \<in> {Addi, Slti, Sltiu, Xori, Ori, Andi, Slli, Srli, Srai} then
           write (alu_immediate op lhs (di_immediate ins))
         else if op \<in> {Add, Sub, Sll, Slt, Sltu, Xor, Srl, Sra, Or, And} then
           write (alu_register op lhs rhs)
         else if op \<in> {Addiw, Slliw, Srliw, Sraiw, Addw, Subw, Sllw, Srlw, Sraw} then
           write (alu_word op lhs rhs (di_immediate ins))
         else if op \<in> {Fence, FenceI, SfenceVma, Ecall, Ebreak, Sret, Mret, Wfi} then
           Inr (exec_system cpu record ins)
         else Inr (exec_csr cpu record ins lhs))"

definition execute :: "Cpu \<Rightarrow> StepRecord \<Rightarrow> DecodedInstruction \<Rightarrow> exn + (Cpu \<times> StepRecord)" where
  "execute cpu record ins =
     (case reg cpu (unat (di_rs1 ins)) of
        Inl e \<Rightarrow> Inl e
      | Inr lhs \<Rightarrow>
          (case reg cpu (unat (di_rs2 ins)) of
             Inl e \<Rightarrow> Inl e
           | Inr rhs \<Rightarrow>
               let sequential_pc = sr_pc record + kInstructionBytes
               in (case execute_operation (cpu\<lparr>pc := sequential_pc\<rparr>) record ins lhs rhs sequential_pc of
                     Inl e \<Rightarrow> Inl e
                   | Inr (cpu', record', completed) \<Rightarrow>
                       if completed \<and> sr_trap record' = None then
                         Inr (cpu', record'\<lparr>sr_retired := True, sr_next_pc := pc cpu',
                                            sr_next_privilege := privilege cpu',
                                            sr_halted := halted cpu'\<rparr>)
                       else Inr (cpu', record'))))"

subsection \<open>Step and run\<close>

definition step :: "Cpu \<Rightarrow> exn + (Cpu \<times> StepRecord)" where
  "step cpu0 =
     (let record = empty_record\<lparr>sr_sequence := sequence_number cpu0, sr_pc := pc cpu0,
            sr_privilege := privilege cpu0, sr_next_pc := pc cpu0,
            sr_next_privilege := privilege cpu0, sr_halted := halted cpu0\<rparr>;
          cpu1 = cpu0\<lparr>sequence_number := sequence_number cpu0 + 1\<rparr>
      in if halted cpu1 then Inr (cpu1, record)
         else let cpu = cpu1\<lparr>csrs := tick_cycle (csrs cpu1)\<rparr>
         in if pc cpu mod kInstructionBytes \<noteq> 0 then
              Inr (raise_trap cpu record InstructionAddressMisaligned (pc cpu)
                     ''program counter is not four-byte aligned'')
            else let (cpu2, record2, fetch_address) =
                       translate cpu record (pc cpu) VirtualAccess.InstructionFetch
            in (case fetch_address of
                  None \<Rightarrow> Inr (cpu2, record2)
                | Some fetch_address \<Rightarrow>
                    (case bus_read (bus cpu2) fetch_address 4 AccessKind.InstructionFetch of
                       Inl flt \<Rightarrow>
                         Inr (raise_trap cpu2 record2 InstructionAccessFault (pc cpu2) (bf_detail flt))
                     | Inr fetched \<Rightarrow>
                         let raw = (ucast fetched :: u32);
                             record3 = record2\<lparr>sr_instruction := raw\<rparr>
                         in (case decode raw of
                               Inl e \<Rightarrow>
                                 Inr (raise_trap cpu2
                                        (record3\<lparr>sr_assembly := ''.word '' @ show_dec (unat raw)\<rparr>)
                                        IllegalInstruction (ucast raw) (de_detail e))
                             | Inr decoded \<Rightarrow>
                                 (case execute cpu2 (record3\<lparr>sr_assembly := disassemble decoded\<rparr>) decoded of
                                    Inl e \<Rightarrow> Inl e
                                  | Inr (cpu4, record4) \<Rightarrow>
                                      let cpu5 = cpu4\<lparr>registers := (registers cpu4)[0 := 0]\<rparr>;
                                          cpu6 = (if sr_retired record4
                                                  then cpu5\<lparr>csrs := retire_instruction (csrs cpu5)\<rparr>
                                                  else cpu5)
                                      in Inr (cpu6, record4))))))"

text \<open>
  The loop of \<^verbatim>\<open>Cpu::run\<close>; its first argument is \<^verbatim>\<open>maximum_steps - attempted\<close>. The trace sink is
  an \<open>emit\<close> operation on its own state; without a sink, the operation that ignores records.
\<close>

fun run_loop ::
  "('t \<Rightarrow> StepRecord \<Rightarrow> exn + 't) \<Rightarrow> nat \<Rightarrow> Cpu \<Rightarrow> 't \<Rightarrow> u64 \<Rightarrow> exn + (Cpu \<times> 't \<times> u64)" where
  "run_loop emit 0 cpu trace attempted = Inr (cpu, trace, attempted)"
| "run_loop emit (Suc remaining) cpu trace attempted =
     (if halted cpu then Inr (cpu, trace, attempted)
      else case step cpu of
        Inl e \<Rightarrow> Inl e
      | Inr (cpu', record) \<Rightarrow>
          (case emit trace record of
             Inl e \<Rightarrow> Inl e
           | Inr trace' \<Rightarrow> run_loop emit remaining cpu' trace' (attempted + 1)))"

definition run ::
  "('t \<Rightarrow> StepRecord \<Rightarrow> exn + 't) \<Rightarrow> Cpu \<Rightarrow> 't \<Rightarrow> u64 \<Rightarrow> exn + (Cpu \<times> 't \<times> RunResult)" where
  "run emit cpu0 trace0 maximum_steps =
     (case run_loop emit (unat maximum_steps) cpu0 trace0 0 of
        Inl e \<Rightarrow> Inl e
      | Inr (cpu, trace, attempted) \<Rightarrow>
          Inr (cpu, trace,
            \<lparr>rr_reason = (if halted cpu then Halted else StepLimit),
             rr_attempted_steps = attempted,
             rr_retired_instructions = minstret (csrs cpu),
             rr_detail = (if halted cpu then halt_detail cpu else ''maximum step count reached''),
             rr_terminal_trap = terminal_trap cpu\<rparr>))"

definition ignore_trace :: "'t \<Rightarrow> StepRecord \<Rightarrow> exn + 't" where
  "ignore_trace trace record = Inr trace"

end
