(* ===== verification/Effects.thy ===== *)
theory Effects
  imports Cpu
begin

text \<open>
  What instructions and steps of the hart may change. Every branch of \<open>execute\<close> is shown to
  have an \<open>outcome\<close>: a precise trap that leaves registers and memory alone, or an effect its
  record describes completely. \<open>step_cases\<close> lifts this to \<open>step\<close>, and the step relation \<open>steps\<close>
  to whole runs.
\<close>

subsection \<open>What one instruction may change\<close>

text \<open>
  The architectural effect of a step as its record tells it: the registers and the memory after
  the step are the ones before it with the recorded writes replayed.
\<close>

definition replay_registers :: "u64 list \<Rightarrow> StepRecord \<Rightarrow> u64 list" where
  "replay_registers regs r =
     (case sr_register_write r of None \<Rightarrow> regs | Some w \<Rightarrow> regs[unat (rw_index w) := rw_value w])"

definition replay_bus :: "Bus \<Rightarrow> StepRecord \<Rightarrow> Bus" where
  "replay_bus b r =
     (case sr_memory_write r of
        None \<Rightarrow> b
      | Some m \<Rightarrow> fst (bus_write b (mw_physical_address m) (mw_width m) (mw_value m) AccessKind.Store))"

definition bare :: "Cpu \<Rightarrow> bool" where
  "bare cpu \<longleftrightarrow> privilege cpu = Machine \<or> satp (csrs cpu) AND kSatpModeMask \<noteq> kSatpModeSv39"

definition translates :: "Cpu \<Rightarrow> VirtualAccess \<Rightarrow> u64 \<Rightarrow> u64 \<Rightarrow> bool" where
  "translates cpu access va pa \<longleftrightarrow>
     (if bare cpu then pa = va
      else \<exists>t. walk_sv39 (bus cpu) va (sv39_context cpu access) = Inr t \<and> pa = st_physical_address t)"

definition aligned4 :: "u64 \<Rightarrow> bool" where
  "aligned4 a \<longleftrightarrow> a AND 3 = 0"

text \<open>Before the record of a step holds any effect.\<close>

definition fresh :: "StepRecord \<Rightarrow> bool" where
  "fresh r \<longleftrightarrow> sr_register_write r = None \<and> sr_memory_write r = None \<and> sr_trap r = None \<and> \<not> sr_retired r"

definition trap_outcome :: "Cpu \<Rightarrow> StepRecord \<Rightarrow> Cpu \<Rightarrow> StepRecord \<Rightarrow> Trap \<Rightarrow> bool" where
  "trap_outcome cpu r cpu' r' t \<longleftrightarrow>
     sr_register_write r' = None \<and> sr_memory_write r' = None \<and> \<not> sr_retired r' \<and>
     trap_pc t = sr_pc r \<and> csrs cpu' = fst (enter_trap (csrs cpu) t (privilege cpu)) \<and>
     privilege cpu' = te_target (snd (enter_trap (csrs cpu) t (privilege cpu))) \<and>
     pc cpu' \<in> {sr_pc r, te_vector (snd (enter_trap (csrs cpu) t (privilege cpu)))} \<and>
     (\<not> halted cpu' \<longrightarrow> pc cpu' = te_vector (snd (enter_trap (csrs cpu) t (privilege cpu)))) \<and>
     sr_next_pc r' = pc cpu' \<and> sr_next_privilege r' = privilege cpu' \<and> sr_halted r' = halted cpu'"

definition plain_outcome :: "Cpu \<Rightarrow> StepRecord \<Rightarrow> Cpu \<Rightarrow> StepRecord \<Rightarrow> bool" where
  "plain_outcome cpu r cpu' r' \<longleftrightarrow>
     privilege cpu' \<le> privilege cpu \<and> (privilege cpu = User \<longrightarrow> csrs cpu' = csrs cpu) \<and>
     (csr_ok (csrs cpu) \<longrightarrow> csr_ok (csrs cpu')) \<and>
     (aligned4 (pc cpu) \<longrightarrow> csr_ok (csrs cpu) \<longrightarrow> aligned4 (pc cpu')) \<and>
     (\<forall>w. sr_register_write r' = Some w \<longrightarrow> rw_index w \<noteq> 0) \<and>
     (\<forall>m. sr_memory_write r' = Some m \<longrightarrow>
        translates cpu VirtualAccess.Store (mw_address m) (mw_physical_address m) \<and>
        snd (bus_write (bus cpu) (mw_physical_address m) (mw_width m) (mw_value m) AccessKind.Store) = None \<and>
        unat (mw_address m) mod mw_width m = 0 \<and> mw_value m AND mask_for_width (mw_width m) = mw_value m)"

definition outcome :: "Cpu \<Rightarrow> StepRecord \<Rightarrow> Cpu \<Rightarrow> StepRecord \<Rightarrow> bool" where
  "outcome cpu r cpu' r' \<longleftrightarrow>
     sr_sequence r' = sr_sequence r \<and> sr_pc r' = sr_pc r \<and> sr_privilege r' = sr_privilege r \<and>
     config cpu' = config cpu \<and> sequence_number cpu' = sequence_number cpu \<and>
     registers cpu' = replay_registers (registers cpu) r' \<and> bus cpu' = replay_bus (bus cpu) r' \<and>
     (case sr_trap r' of Some t \<Rightarrow> trap_outcome cpu r cpu' r' t | None \<Rightarrow> plain_outcome cpu r cpu' r')"

lemma raise_trap_outcome:
  assumes "fresh r" "raise_trap cpu r c v d = (cpu', r')"
  shows "outcome cpu r cpu' r' \<and> sr_trap r' \<noteq> None"
  using assms
  by (auto simp: raise_trap_def outcome_def trap_outcome_def fresh_def replay_registers_def
      replay_bus_def Let_def split: prod.splits if_splits)

lemma outcome_refl: "fresh r \<Longrightarrow> outcome cpu r cpu r"
  by (simp add: outcome_def plain_outcome_def fresh_def replay_registers_def replay_bus_def)

lemma write_register_outcome:
  assumes "fresh r" "write_register cpu r i v = (cpu', r')"
  shows "outcome cpu r cpu' r' \<and> sr_trap r' = None \<and> pc cpu' = pc cpu \<and> privilege cpu' = privilege cpu"
  using assms
  by (auto simp: write_register_def outcome_def plain_outcome_def fresh_def replay_registers_def
      replay_bus_def split: if_splits)

lemma translate_cases:
  assumes "fresh r" "translate cpu r va access = (cpu', r', pa)"
  shows "case pa of
      None \<Rightarrow> outcome cpu r cpu' r' \<and> sr_trap r' \<noteq> None
    | Some p \<Rightarrow> cpu' = cpu \<and> fresh r' \<and> translates cpu access va p \<and> sr_sequence r' = sr_sequence r \<and>
        sr_pc r' = sr_pc r \<and> sr_privilege r' = sr_privilege r"
  using assms unfolding translate_def
  by (auto simp: translates_def bare_def record_translation_def fresh_def Let_def
      split: if_splits sum.splits prod.splits dest!: raise_trap_outcome [rotated])

lemma bus_write_error: "bus_write b a w v k = (b', Some f) \<Longrightarrow> b' = b"
proof -
  have "device_write d off w v = (d', Some e) \<Longrightarrow> d' = d" for d d' off e
    by (cases d) (auto simp: ram_write_def uart_write_def Let_def split: if_splits)
  then show "bus_write b a w v k = (b', Some f) \<Longrightarrow> b' = b"
    by (fastforce simp: bus_write_def Let_def split: if_splits option.splits prod.splits)
qed

lemma load_cases:
  assumes "fresh r" "load cpu r va w sg = (cpu', r', v)"
  shows "case v of
      None \<Rightarrow> outcome cpu r cpu' r' \<and> sr_trap r' \<noteq> None
    | Some x \<Rightarrow> cpu' = cpu \<and> fresh r' \<and> sr_sequence r' = sr_sequence r \<and>
        sr_pc r' = sr_pc r \<and> sr_privilege r' = sr_privilege r"
proof (cases "w > 1 \<and> unat va mod w \<noteq> 0")
  case True
  with assms show ?thesis
    by (auto simp: load_def split: prod.splits dest!: raise_trap_outcome [rotated])
next
  case False
  obtain cpu1 r1 pa where t: "translate cpu r va VirtualAccess.Load = (cpu1, r1, pa)"
    by (cases "translate cpu r va VirtualAccess.Load") auto
  note c = translate_cases [OF assms(1) t]
  show ?thesis
  proof (cases pa)
    case None
    with assms(2) False t c show ?thesis by (auto simp: load_def)
  next
    case (Some p)
    then have c': "cpu1 = cpu" "fresh r1" "sr_sequence r1 = sr_sequence r" "sr_pc r1 = sr_pc r"
      "sr_privilege r1 = sr_privilege r" using c by auto
    have same: "outcome cpu r1 cpu' r' \<Longrightarrow> outcome cpu r cpu' r'"
      using c' by (simp add: outcome_def trap_outcome_def plain_outcome_def cong: option.case_cong)
    show ?thesis
    proof (cases "bus_read (bus cpu) p w AccessKind.Load")
      case (Inl f)
      obtain cpu2 r2 where rt: "raise_trap cpu r1 LoadAccessFault va (bf_detail f) = (cpu2, r2)"
        by fastforce
      then have "cpu' = cpu2" "r' = r2" "v = None"
        using assms(2) False t c' Some Inl by (auto simp: load_def)
      then show ?thesis using raise_trap_outcome [OF c'(2) rt] same by simp
    next
      case (Inr x)
      then show ?thesis using assms(2) False t c' Some by (auto simp: load_def)
    qed
  qed
qed

lemma store_outcome:
  assumes "fresh r" "store cpu r va w v = (cpu', r', done)"
  shows "outcome cpu r cpu' r' \<and> (\<not> done \<longrightarrow> sr_trap r' \<noteq> None)"
proof (cases "w > 1 \<and> unat va mod w \<noteq> 0")
  case True
  with assms show ?thesis
    by (auto simp: store_def split: prod.splits dest!: raise_trap_outcome [rotated])
next
  case False
  obtain cpu1 r1 pa where t: "translate cpu r va VirtualAccess.Store = (cpu1, r1, pa)"
    by (cases "translate cpu r va VirtualAccess.Store") auto
  note c = translate_cases [OF assms(1) t]
  show ?thesis
  proof (cases pa)
    case None
    with assms(2) False t c show ?thesis by (auto simp: store_def)
  next
    case (Some p)
    then have c': "cpu1 = cpu" "fresh r1" "sr_sequence r1 = sr_sequence r" "sr_pc r1 = sr_pc r"
      "sr_privilege r1 = sr_privilege r" "translates cpu VirtualAccess.Store va p" using c by auto
    have same: "outcome cpu r1 cpu' r' \<Longrightarrow> outcome cpu r cpu' r'"
      using c' by (simp add: outcome_def trap_outcome_def plain_outcome_def cong: option.case_cong)
    obtain b' f where w: "bus_write (bus cpu) p w (v AND mask_for_width w) AccessKind.Store = (b', f)"
      by (cases "bus_write (bus cpu) p w (v AND mask_for_width w) AccessKind.Store")
    show ?thesis
    proof (cases f)
      case (Some e)
      then have "b' = bus cpu" using bus_write_error w by blast
      then show ?thesis
        using assms(2) False t c' \<open>pa = Some p\<close> same raise_trap_outcome [OF c'(2)] Some w
        by (fastforce simp: store_def Let_def split: prod.splits)
    next
      case None
      have "valid_width w" using w None by (auto simp: bus_write_def split: if_splits)
      then have "unat va mod w = 0" using False valid_width_le_8 [of w] by (cases "w > 1") (auto simp: not_less le_Suc_eq)
      then show ?thesis
        using assms(2) False t c' \<open>pa = Some p\<close> None w
        by (auto simp: store_def Let_def outcome_def plain_outcome_def fresh_def replay_registers_def
            replay_bus_def and.assoc)
    qed
  qed
qed

definition good :: "Cpu \<Rightarrow> StepRecord \<Rightarrow> Flow \<Rightarrow> bool" where
  "good cpu r flow \<longleftrightarrow>
     (case flow of (cpu', r', completed) \<Rightarrow>
        outcome cpu r cpu' r' \<and> (\<not> completed \<longrightarrow> sr_trap r' \<noteq> None))"

lemma good_if: "(c \<Longrightarrow> good cpu r x) \<Longrightarrow> (\<not> c \<Longrightarrow> good cpu r y) \<Longrightarrow> good cpu r (if c then x else y)"
  by simp

lemma good_raise [simp]: "fresh r \<Longrightarrow> good cpu r (finish (raise_trap cpu r c v d) b)"
  using raise_trap_outcome [of r cpu c v d "fst (raise_trap cpu r c v d)" "snd (raise_trap cpu r c v d)"]
  by (simp add: good_def finish_def)

lemma good_write [simp]: "fresh r \<Longrightarrow> good cpu r (finish (write_register cpu r i v) True)"
  using write_register_outcome [of r cpu i v "fst (write_register cpu r i v)" "snd (write_register cpu r i v)"]
  by (simp add: good_def finish_def)

lemma good_skip [simp]: "fresh r \<Longrightarrow> good cpu r (cpu, r, True)"
  by (simp add: good_def outcome_refl)

lemma aligned4_iff: "aligned4 a \<longleftrightarrow> a mod kInstructionBytes = 0"
proof -
  have "a mod kInstructionBytes = take_bit 2 a"
    by (simp add: kInstructionBytes_def take_bit_eq_mod)
  also have "\<dots> = a AND 3" by (simp add: take_bit_eq_mask mask_eq_exp_minus_1)
  finally show ?thesis by (simp add: aligned4_def)
qed

lemma outcome_pc:
  assumes "outcome cpu r cpu' r'" "sr_trap r' = None" "aligned4 (pc cpu) \<longrightarrow> csr_ok (csrs cpu) \<longrightarrow> aligned4 p"
  shows "outcome cpu r (cpu'\<lparr>pc := p\<rparr>) r'"
  using assms by (simp add: outcome_def plain_outcome_def)

lemma good_branch:
  assumes "fresh r"
  shows "good cpu r (finish (branch cpu r imm taken) True)"
proof -
  let ?t = "add_offset (sr_pc r) imm"
  have "good cpu r (cpu\<lparr>pc := ?t\<rparr>, r, True)" if "aligned4 ?t"
    using that outcome_pc [OF outcome_refl, of r cpu ?t] assms by (simp add: good_def fresh_def)
  then show ?thesis
    using assms by (cases taken) (simp_all add: branch_def Let_def aligned4_iff finish_def [of "(_, _)"])
qed

lemma good_jump:
  assumes "fresh r"
  shows "good cpu r (jump cpu r rd s target)"
proof -
  obtain cpu1 r1 where w: "write_register cpu r rd s = (cpu1, r1)" by fastforce
  have "good cpu r (cpu1\<lparr>pc := target\<rparr>, r1, True)" if "aligned4 target"
    using that write_register_outcome [OF assms w] outcome_pc [of cpu r cpu1 r1 target] by (simp add: good_def)
  then show ?thesis using assms w by (simp add: jump_def aligned4_iff)
qed

lemma exec_control_good: "fresh r \<Longrightarrow> good cpu r (exec_control cpu r ins lhs rhs s)"
  unfolding exec_control_def Let_def by (intro good_if) (simp_all add: good_branch good_jump)

lemma good_store: "fresh r \<Longrightarrow> good cpu r (store cpu r va w v)"
  using store_outcome [of r cpu va w v] by (auto simp: good_def split: prod.split)

lemma good_same:
  "fresh r \<Longrightarrow> sr_sequence r1 = sr_sequence r \<Longrightarrow> sr_pc r1 = sr_pc r \<Longrightarrow> sr_privilege r1 = sr_privilege r \<Longrightarrow>
     good cpu r1 flow \<Longrightarrow> good cpu r flow"
  by (simp add: good_def outcome_def trap_outcome_def plain_outcome_def split: prod.splits cong: option.case_cong)

lemma exec_memory_good:
  assumes "fresh r" "di_operation ins \<in> {Lb, Lh, Lw, Ld, Lbu, Lhu, Lwu, Sb, Sh, Sw, Sd}"
  shows "\<exists>flow. exec_memory cpu r ins lhs rhs = Inr flow \<and> good cpu r flow"
proof (cases "di_operation ins \<in> {Lb, Lh, Lw, Ld, Lbu, Lhu, Lwu}")
  case True
  then obtain w where w: "load_width (di_operation ins) = Inr w" by (auto simp: load_width_def)
  let ?sg = "\<not> is_unsigned_load (di_operation ins)"
  obtain cpu1 r1 v where l: "load cpu r (add_offset lhs (di_immediate ins)) w ?sg = (cpu1, r1, v)"
    by (cases "load cpu r (add_offset lhs (di_immediate ins)) w ?sg") auto
  note c = load_cases [OF assms(1) l]
  show ?thesis
  proof (cases v)
    case None
    then show ?thesis using True w l c by (auto simp: exec_memory_def Let_def good_def)
  next
    case (Some x)
    then have c': "cpu1 = cpu" "fresh r1" "sr_sequence r1 = sr_sequence r" "sr_pc r1 = sr_pc r"
      "sr_privilege r1 = sr_privilege r" using c by auto
    then have "good cpu r (finish (write_register cpu r1 (di_rd ins) x) True)"
      using good_same [OF assms(1)] by simp
    then show ?thesis using True w l Some c'(1) by (auto simp: exec_memory_def Let_def)
  qed
next
  case False
  then obtain w where "store_width (di_operation ins) = Inr w" using assms(2) by (auto simp: store_width_def)
  then show ?thesis using False assms(1) by (auto simp: exec_memory_def Let_def good_store)
qed

lemma good_ebreak:
  assumes "fresh r"
  shows "good cpu r (finish (exec_ebreak cpu r) False)"
proof -
  obtain cpu1 r1 where t: "raise_trap cpu r Breakpoint 0 ''EBREAK requested a debugger trap'' = (cpu1, r1)"
    by fastforce
  note o = raise_trap_outcome [OF assms t]
  show ?thesis
    using o by (auto simp: exec_ebreak_def t good_def finish_def outcome_def trap_outcome_def
        replay_registers_def replay_bus_def split: option.splits)
qed

lemma return_target_le:
  "tr_target (snd (return_from_trap f SupervisorReturn)) \<le> Supervisor"
  by (simp add: return_from_trap_def return_fields)

lemma return_pc_aligned: "csr_ok f \<Longrightarrow> aligned4 (tr_pc (snd (return_from_trap f mode)))"
  by (cases mode) (simp_all add: return_from_trap_def return_fields csr_ok_def aligned4_def)

lemma good_return:
  assumes "fresh r" "privilege cpu = Machine \<or> mode = SupervisorReturn \<and> privilege cpu = Supervisor"
  shows "good cpu r (exec_return cpu mode, r, True)"
  using assms return_from_trap_ok [of "csrs cpu" mode] return_pc_aligned [of "csrs cpu" mode]
    return_target_le [of "csrs cpu"]
  by (auto simp: exec_return_def good_def outcome_def plain_outcome_def fresh_def replay_registers_def
      replay_bus_def split: prod.splits)

lemma good_halt:
  "fresh r \<Longrightarrow> good cpu r (cpu\<lparr>halted := True, halt_detail := d\<rparr>, r\<lparr>sr_halted := True\<rparr>, True)"
  by (simp add: good_def outcome_def plain_outcome_def fresh_def replay_registers_def replay_bus_def)

lemma not_user_iff: "p \<noteq> User \<longleftrightarrow> p = Supervisor \<or> p = Machine"
  by (cases p) auto

lemma exec_system_good: "fresh r \<Longrightarrow> good cpu r (exec_system cpu r ins)"
  unfolding exec_system_def Let_def case_prod_beta
  by (intro good_if) (auto simp: good_ebreak good_halt not_user_iff intro!: good_return)

lemma good_csrs:
  assumes "fresh r" "csr_write (csrs cpu) a v (privilege cpu) = (f, None)"
  shows "good cpu r (finish (write_register (cpu\<lparr>csrs := f\<rparr>) r i old) True)"
proof -
  have user: "privilege cpu \<noteq> User" using csr_user_write [of "csrs cpu" a v] assms(2) by auto
  have "csr_ok (csrs cpu) \<Longrightarrow> csr_ok f" using csr_write_ok [of "csrs cpu" a v "privilege cpu"] assms(2) by simp
  then show ?thesis
    using user assms(1)
    by (simp add: write_register_def good_def finish_def outcome_def plain_outcome_def fresh_def
        replay_registers_def replay_bus_def)
qed

lemma exec_csr_good:
  assumes "fresh r"
  shows "good cpu r (exec_csr cpu r ins lhs)"
proof -
  have written: "good cpu r (case csr_write (csrs cpu) (di_csr ins) v (privilege cpu) of
      (f, Some e) \<Rightarrow> finish (raise_trap (cpu\<lparr>csrs := f\<rparr>) r IllegalInstruction (ucast (di_raw ins)) (ce_detail e)) False
    | (f, None) \<Rightarrow> finish (write_register (cpu\<lparr>csrs := f\<rparr>) r (di_rd ins) old) True)" for v old
  proof -
    obtain f e where w: "csr_write (csrs cpu) (di_csr ins) v (privilege cpu) = (f, e)" by fastforce
    show ?thesis
    proof (cases e)
      case None
      then show ?thesis using w good_csrs [OF assms] by simp
    next
      case (Some x)
      then have "f = csrs cpu" using w csr_write_cases [of "csrs cpu" "di_csr ins" v "privilege cpu"] by auto
      then show ?thesis using w Some assms by simp
    qed
  qed
  show ?thesis
    unfolding exec_csr_def Let_def
    using written assms by (auto simp del: split_paired_All split: sum.split prod.split)
qed

definition good_result :: "Cpu \<Rightarrow> StepRecord \<Rightarrow> exn + Flow \<Rightarrow> bool" where
  "good_result cpu r x \<longleftrightarrow> (\<exists>flow. x = Inr flow \<and> good cpu r flow)"

lemma good_result_if:
  "(c \<Longrightarrow> good_result cpu r x) \<Longrightarrow> (\<not> c \<Longrightarrow> good_result cpu r y) \<Longrightarrow> good_result cpu r (if c then x else y)"
  by simp

lemma good_result_Inr [simp]: "good_result cpu r (Inr flow) = good cpu r flow"
  by (simp add: good_result_def)

lemma execute_operation_good:
  assumes "fresh r"
  shows "good_result cpu r (execute_operation cpu r ins lhs rhs s)"
  unfolding execute_operation_def Let_def
  using assms exec_memory_good [OF assms, of ins cpu lhs rhs, folded good_result_def]
  by (intro good_result_if) (simp_all only: good_result_Inr exec_control_good exec_system_good exec_csr_good good_write)

definition closed :: "Cpu \<Rightarrow> StepRecord \<Rightarrow> bool" where
  "closed cpu r \<longleftrightarrow> sr_next_pc r = pc cpu \<and> sr_next_privilege r = privilege cpu \<and>
     sr_halted r = halted cpu \<and> (sr_retired r \<longleftrightarrow> sr_trap r = None)"

lemma outcome_closed: "outcome cpu r cpu' r' \<Longrightarrow> sr_trap r' \<noteq> None \<Longrightarrow> closed cpu' r'"
  by (auto simp: outcome_def trap_outcome_def closed_def)

lemma execute_good:
  assumes "fresh r" "length (registers cpu) = 32" "valid_registers ins"
  shows "\<exists>cpu' r'. execute cpu r ins = Inr (cpu', r') \<and>
    outcome (cpu\<lparr>pc := sr_pc r + kInstructionBytes\<rparr>) r cpu' r' \<and> closed cpu' r'"
proof -
  let ?cpu = "cpu\<lparr>pc := sr_pc r + kInstructionBytes\<rparr>"
  have regs: "unat (di_rs1 ins) < 32" "unat (di_rs2 ins) < 32"
    using assms(3) by (simp_all add: valid_registers_def word_less_nat_alt)
  obtain flow where f: "execute_operation ?cpu r ins (registers cpu ! unat (di_rs1 ins))
      (registers cpu ! unat (di_rs2 ins)) (sr_pc r + kInstructionBytes) = Inr flow" "good ?cpu r flow"
    using execute_operation_good [OF assms(1)] unfolding good_result_def by blast
  obtain cpu' r' completed where flow: "flow = (cpu', r', completed)" by (cases flow)
  show ?thesis
  proof (cases "sr_trap r'")
    case None
    let ?r = "r'\<lparr>sr_retired := True, sr_next_pc := pc cpu', sr_next_privilege := privilege cpu',
                sr_halted := halted cpu'\<rparr>"
    have "completed" using f(2) None flow by (auto simp: good_def)
    then have "execute cpu r ins = Inr (cpu', ?r)"
      using f(1) flow regs assms(2) None by (simp add: execute_def reg_def Let_def)
    moreover have "outcome ?cpu r cpu' ?r"
      using f(2) flow None by (simp add: good_def outcome_def plain_outcome_def replay_registers_def replay_bus_def)
    ultimately show ?thesis using None by (simp add: closed_def)
  next
    case (Some t)
    then have "execute cpu r ins = Inr (cpu', r')"
      using f(1) flow regs assms(2) by (simp add: execute_def reg_def Let_def)
    then show ?thesis using f(2) flow Some outcome_closed by (fastforce simp: good_def)
  qed
qed

subsection \<open>What one step may change\<close>

definition regs_ok :: "u64 list \<Rightarrow> bool" where
  "regs_ok regs \<longleftrightarrow> length regs = 32 \<and> regs ! 0 = 0"

definition cpu_ok :: "Cpu \<Rightarrow> bool" where
  "cpu_ok cpu \<longleftrightarrow> regs_ok (registers cpu) \<and> csr_ok (csrs cpu) \<and> bus_ok (bus cpu)"

lemma regs_ok_update: "regs_ok regs \<Longrightarrow> regs_ok (regs[i := v, 0 := 0])"
  by (simp add: regs_ok_def)

lemma regs_ok_zero: "regs_ok regs \<Longrightarrow> regs[0 := 0] = regs"
  by (metis list_update_id regs_ok_def)

definition start_record :: "Cpu \<Rightarrow> StepRecord" where
  "start_record cpu = empty_record\<lparr>sr_sequence := sequence_number cpu, sr_pc := pc cpu,
     sr_privilege := privilege cpu, sr_next_pc := pc cpu, sr_next_privilege := privilege cpu,
     sr_halted := halted cpu\<rparr>"

definition ticked :: "Cpu \<Rightarrow> Cpu" where
  "ticked cpu = cpu\<lparr>sequence_number := sequence_number cpu + 1, csrs := tick_cycle (csrs cpu)\<rparr>"

definition retired :: "Cpu \<Rightarrow> StepRecord \<Rightarrow> Cpu" where
  "retired cpu r = (if sr_retired r then cpu\<lparr>csrs := retire_instruction (csrs cpu)\<rparr> else cpu)"

definition step_effect :: "Cpu \<Rightarrow> Cpu \<Rightarrow> StepRecord \<Rightarrow> bool" where
  "step_effect cpu cpu' r \<longleftrightarrow>
     (\<exists>p cpu1. outcome ((ticked cpu)\<lparr>pc := p\<rparr>) (start_record cpu) cpu1 r \<and>
        (p = pc cpu \<or> p = pc cpu + kInstructionBytes) \<and> closed cpu1 r \<and> cpu' = retired cpu1 r)"

lemma start_record_fresh: "fresh (start_record cpu)"
  by (simp add: start_record_def fresh_def empty_record_def)

lemma outcome_same:
  "outcome cpu r1 cpu' r' \<Longrightarrow> sr_sequence r1 = sr_sequence r \<Longrightarrow> sr_pc r1 = sr_pc r \<Longrightarrow>
     sr_privilege r1 = sr_privilege r \<Longrightarrow> outcome cpu r cpu' r'"
  by (simp add: outcome_def trap_outcome_def plain_outcome_def cong: option.case_cong)

lemma step_effect_trap:
  assumes "outcome (ticked cpu) (start_record cpu) cpu' r" "sr_trap r \<noteq> None"
  shows "step_effect cpu cpu' r"
proof -
  have pc: "(ticked cpu)\<lparr>pc := pc cpu\<rparr> = ticked cpu" by (simp add: ticked_def)
  have "closed cpu' r" using outcome_closed assms by blast
  then have "retired cpu' r = cpu'" using assms(2) by (simp add: closed_def retired_def)
  then show ?thesis using assms(1) \<open>closed cpu' r\<close> pc unfolding step_effect_def by metis
qed

lemma outcome_regs_zero:
  assumes "outcome cpu r cpu' r'" "regs_ok (registers cpu)"
  shows "regs_ok (registers cpu') \<and> (registers cpu')[0 := 0] = registers cpu'"
proof -
  have "rw_index w \<noteq> 0" if "sr_register_write r' = Some w" for w
    using assms(1) that by (auto simp: outcome_def plain_outcome_def trap_outcome_def split: option.splits)
  then have "regs_ok (registers cpu')"
    using assms unfolding outcome_def replay_registers_def regs_ok_def
    by (auto split: option.splits simp: nth_list_update unat_eq_0)
  then show ?thesis using regs_ok_zero by blast
qed

lemma step_cases:
  assumes "\<not> halted cpu" "regs_ok (registers cpu)"
  obtains cpu' r where "step cpu = Inr (cpu', r)" "step_effect cpu cpu' r"
proof -
  let ?r = "start_record cpu"
  define c where "c = ticked cpu"
  have c: "pc c = pc cpu" "c\<lparr>pc := pc cpu\<rparr> = c" by (simp_all add: c_def ticked_def)
  show thesis
  proof (cases "pc cpu mod kInstructionBytes = 0")
    case False
    obtain cpu' r where t: "raise_trap c ?r InstructionAddressMisaligned (pc cpu)
        ''program counter is not four-byte aligned'' = (cpu', r)" by fastforce
    have "step cpu = Inr (cpu', r)"
      using assms(1) False t by (simp add: step_def start_record_def c_def ticked_def Let_def)
    moreover have "step_effect cpu cpu' r"
      using raise_trap_outcome [OF start_record_fresh t] c by (intro step_effect_trap) (simp_all add: c_def)
    ultimately show thesis using that by blast
  next
    case True
    obtain cpu2 r2 fa where t: "translate c ?r (pc cpu) VirtualAccess.InstructionFetch = (cpu2, r2, fa)"
      by (cases "translate c ?r (pc cpu) VirtualAccess.InstructionFetch") auto
    note tc = translate_cases [OF start_record_fresh t]
    show thesis
    proof (cases fa)
      case None
      have "step cpu = Inr (cpu2, r2)"
        using assms(1) True t None by (simp add: step_def start_record_def c_def ticked_def Let_def)
      moreover have "step_effect cpu cpu2 r2"
        using tc None c by (intro step_effect_trap) (simp_all add: c_def)
      ultimately show thesis using that by blast
    next
      case (Some f)
      then have tr: "cpu2 = c" "fresh r2" "sr_sequence r2 = sr_sequence ?r" "sr_pc r2 = sr_pc ?r"
        "sr_privilege r2 = sr_privilege ?r" using tc by auto
      show thesis
      proof (cases "bus_read (bus c) f 4 AccessKind.InstructionFetch")
        case (Inl flt)
        obtain cpu' r where rt: "raise_trap c r2 InstructionAccessFault (pc c) (bf_detail flt) = (cpu', r)"
          by fastforce
        have "step cpu = Inr (cpu', r)"
          using assms(1) True t Some tr(1) Inl rt c(1)
          by (simp add: step_def start_record_def c_def ticked_def Let_def)
        moreover have "step_effect cpu cpu' r"
          using raise_trap_outcome [OF tr(2) rt] outcome_same tr(3-5) c
          by (intro step_effect_trap) (auto simp: c_def)
        ultimately show thesis using that by blast
      next
        case (Inr fetched)
        show thesis
        proof (cases "decode (ucast fetched)")
          case (Inl e)
          let ?r3 = "r2\<lparr>sr_instruction := ucast fetched,
             sr_assembly := ''.word '' @ show_dec (unat (ucast fetched :: u32))\<rparr>"
          obtain cpu' r where rt: "raise_trap c ?r3 IllegalInstruction (ucast (ucast fetched :: u32)) (de_detail e) = (cpu', r)"
            by fastforce
          have "step cpu = Inr (cpu', r)"
            using assms(1) True t Some tr(1) Inr Inl rt c(1)
            by (simp add: step_def start_record_def c_def ticked_def Let_def)
          moreover have "fresh ?r3" using tr(2) by (simp add: fresh_def)
          then have "step_effect cpu cpu' r"
            using raise_trap_outcome [OF _ rt] outcome_same [of c ?r3 cpu' r ?r] tr(3-5) c
            by (intro step_effect_trap) (auto simp: c_def)
          ultimately show thesis using that by blast
        next
          case (Inr ins)
          let ?r3 = "r2\<lparr>sr_instruction := ucast fetched, sr_assembly := disassemble ins\<rparr>"
          have "fresh ?r3" "length (registers c) = 32"
            using tr(2) assms(2) by (simp_all add: fresh_def regs_ok_def c_def ticked_def)
          from execute_good [OF this decode_valid_registers [OF Inr]]
          obtain cpu1 r where ex: "execute c ?r3 ins = Inr (cpu1, r)" "closed cpu1 r"
            and o: "outcome (c\<lparr>pc := sr_pc ?r3 + kInstructionBytes\<rparr>) ?r3 cpu1 r" by blast
          have o': "outcome (c\<lparr>pc := pc cpu + kInstructionBytes\<rparr>) ?r cpu1 r"
            using outcome_same [OF o, of ?r] o tr(3-5) by (simp add: start_record_def)
          have "regs_ok (registers (c\<lparr>pc := pc cpu + kInstructionBytes\<rparr>))"
            using assms(2) by (simp add: c_def ticked_def)
          from outcome_regs_zero [OF o' this]
          have "cpu1\<lparr>registers := (registers cpu1)[0 := 0]\<rparr> = cpu1" by simp
          then have "step cpu = Inr (retired cpu1 r, r)"
            using assms(1) True t Some tr(1) \<open>bus_read _ _ _ _ = Inr fetched\<close> Inr ex(1) c(1)
            by (simp add: step_def start_record_def c_def ticked_def Let_def retired_def)
          moreover have "step_effect cpu (retired cpu1 r) r"
            unfolding step_effect_def using o' ex(2) c_def by blast
          ultimately show thesis using that by blast
        qed
      qed
    qed
  qed
qed

end
