(* ===== verification/Runs.thy ===== *)
theory Runs
  imports Effects
begin

text \<open>
  Steps and runs of the hart: what the effects of instructions mean for one step, the step
  relation \<open>steps\<close> with its invariants, the contract of a trace sink, and \<open>run_loop\<close> as a
  prefix of the step relation.
\<close>

subsection \<open>Consequences for one step\<close>

lemma step_halted: "halted cpu \<Longrightarrow> step cpu = Inr (cpu\<lparr>sequence_number := sequence_number cpu + 1\<rparr>, start_record cpu)"
  by (simp add: step_def start_record_def)

lemma step_runs:
  assumes "regs_ok (registers cpu)" "\<not> halted cpu" "step cpu = Inr (cpu', r)"
  shows "step_effect cpu cpu' r"
  using step_cases [OF assms(2,1)] assms(3) by (metis old.prod.inject sum.inject(2))

lemma step_total: "regs_ok (registers cpu) \<Longrightarrow> \<exists>cpu' r. step cpu = Inr (cpu', r)"
  using step_cases step_halted by metis

lemmas effect_defs = step_effect_def outcome_def trap_outcome_def plain_outcome_def closed_def
  retired_def ticked_def start_record_def

lemma step_record:
  assumes "regs_ok (registers cpu)" "step cpu = Inr (cpu', r)"
  shows "registers cpu' = replay_registers (registers cpu) r" "bus cpu' = replay_bus (bus cpu) r"
    "pc cpu' = sr_next_pc r" "privilege cpu' = sr_next_privilege r" "halted cpu' = sr_halted r"
    "sequence_number cpu' = sequence_number cpu + 1" "config cpu' = config cpu"
    "sr_sequence r = sequence_number cpu" "sr_pc r = pc cpu" "sr_privilege r = privilege cpu"
proof -
  have "registers cpu' = replay_registers (registers cpu) r \<and> bus cpu' = replay_bus (bus cpu) r \<and>
    pc cpu' = sr_next_pc r \<and> privilege cpu' = sr_next_privilege r \<and> halted cpu' = sr_halted r \<and>
    sequence_number cpu' = sequence_number cpu + 1 \<and> config cpu' = config cpu \<and>
    sr_sequence r = sequence_number cpu \<and> sr_pc r = pc cpu \<and> sr_privilege r = privilege cpu"
  proof (cases "halted cpu")
    case True
    then show ?thesis using step_halted [OF True] assms(2)
      by (auto simp: replay_registers_def replay_bus_def start_record_def empty_record_def)
  next
    case False
    then obtain p cpu1 where o: "outcome ((ticked cpu)\<lparr>pc := p\<rparr>) (start_record cpu) cpu1 r"
      "closed cpu1 r" "cpu' = retired cpu1 r"
      using step_runs [OF assms(1) _ assms(2)] by (auto simp: step_effect_def)
    then show ?thesis
      by (auto simp: outcome_def closed_def retired_def ticked_def start_record_def empty_record_def)
  qed
  then show "registers cpu' = replay_registers (registers cpu) r" "bus cpu' = replay_bus (bus cpu) r"
    "pc cpu' = sr_next_pc r" "privilege cpu' = sr_next_privilege r" "halted cpu' = sr_halted r"
    "sequence_number cpu' = sequence_number cpu + 1" "config cpu' = config cpu"
    "sr_sequence r = sequence_number cpu" "sr_pc r = pc cpu" "sr_privilege r = privilege cpu"
    by simp_all
qed

lemma step_trap:
  assumes "regs_ok (registers cpu)" "step cpu = Inr (cpu', r)" "sr_trap r = Some t"
  shows "trap_outcome (ticked cpu) (start_record cpu) cpu' r t"
proof -
  have "\<not> halted cpu"
    using assms step_halted by (auto simp: start_record_def empty_record_def)
  then obtain p cpu1 where o: "outcome ((ticked cpu)\<lparr>pc := p\<rparr>) (start_record cpu) cpu1 r"
      "closed cpu1 r" "cpu' = retired cpu1 r"
    using step_runs [OF assms(1) _ assms(2)] by (auto simp: step_effect_def)
  then have "cpu' = cpu1" using assms(3) by (simp add: closed_def retired_def)
  then show ?thesis using o(1) assms(3) by (simp add: outcome_def trap_outcome_def)
qed

lemma step_plain:
  assumes "regs_ok (registers cpu)" "step cpu = Inr (cpu', r)" "\<not> halted cpu" "sr_trap r = None"
  obtains p cpu1 where "plain_outcome ((ticked cpu)\<lparr>pc := p\<rparr>) (start_record cpu) cpu1 r" "sr_retired r"
    "cpu' = cpu1\<lparr>csrs := retire_instruction (csrs cpu1)\<rparr>" "p = pc cpu \<or> p = pc cpu + kInstructionBytes"
proof -
  obtain p cpu1 where o: "outcome ((ticked cpu)\<lparr>pc := p\<rparr>) (start_record cpu) cpu1 r"
      "closed cpu1 r" "cpu' = retired cpu1 r" "p = pc cpu \<or> p = pc cpu + kInstructionBytes"
    using step_runs [OF assms(1,3,2)] by (auto simp: step_effect_def)
  show thesis
    by (rule that [of p cpu1]) (use o assms(4) in \<open>auto simp: outcome_def closed_def retired_def\<close>)
qed

lemma replay_registers_ok:
  "regs_ok regs \<Longrightarrow> (\<And>w. sr_register_write r = Some w \<Longrightarrow> rw_index w \<noteq> 0) \<Longrightarrow> regs_ok (replay_registers regs r)"
  by (auto simp: replay_registers_def regs_ok_def nth_list_update unat_eq_0 split: option.split)

lemma replay_bus_ok [simp]: "bus_ok (replay_bus b r) = bus_ok b"
  by (simp add: replay_bus_def split: option.split)

lemma ticked_ok [simp]: "csr_ok (csrs cpu) \<Longrightarrow> csr_ok (csrs (ticked cpu))"
  by (simp add: ticked_def tick_cycle_ok)

lemma vector_aligned: "csr_ok f \<Longrightarrow> aligned4 (te_vector (snd (enter_trap f t p)))"
  by (simp add: enter_trap_cases aligned4_def)

lemma aligned4_unat: "aligned4 a \<longleftrightarrow> unat a mod 4 = 0"
proof -
  have "unat (a mod kInstructionBytes) = unat a mod 4" by (simp add: kInstructionBytes_def unat_mod)
  then show ?thesis unfolding aligned4_iff by (metis unat_eq_zero)
qed

lemma aligned4_add: "aligned4 a \<Longrightarrow> aligned4 (a + kInstructionBytes)"
proof -
  have "unat (a + 4) mod 4 = (unat a + 4) mod 2 ^ 64 mod 4" by (simp add: unat_word_ariths)
  also have "\<dots> = (unat a + 4) mod 4" by (rule mod_mod_cancel) simp
  finally show "aligned4 a \<Longrightarrow> aligned4 (a + kInstructionBytes)"
    by (simp add: aligned4_unat kInstructionBytes_def)
qed

lemma step_ok:
  assumes "cpu_ok cpu" "step cpu = Inr (cpu', r)"
  shows "cpu_ok cpu' \<and> (aligned4 (pc cpu) \<longrightarrow> aligned4 (pc cpu'))"
proof (cases "halted cpu")
  case True
  then show ?thesis using step_halted [OF True] assms by (auto simp: cpu_ok_def)
next
  case False
  have regs: "regs_ok (registers cpu)" using assms(1) by (simp add: cpu_ok_def)
  note rec = step_record [OF regs assms(2)]
  have "csr_ok (csrs cpu') \<and> (aligned4 (pc cpu) \<longrightarrow> aligned4 (pc cpu')) \<and>
    (\<forall>w. sr_register_write r = Some w \<longrightarrow> rw_index w \<noteq> 0)"
  proof (cases "sr_trap r")
    case None
    then show ?thesis
    proof (rule step_plain [OF regs assms(2) False])
      fix p cpu1
      assume "plain_outcome (ticked cpu\<lparr>pc := p\<rparr>) (start_record cpu) cpu1 r"
        "cpu' = cpu1\<lparr>csrs := retire_instruction (csrs cpu1)\<rparr>"
        "p = pc cpu \<or> p = pc cpu + kInstructionBytes"
      then show ?thesis
        using assms(1) aligned4_add
        by (auto simp: plain_outcome_def cpu_ok_def retire_instruction_ok)
    qed
  next
    case (Some t)
    then show ?thesis
      using step_trap [OF regs assms(2) Some] assms(1) vector_aligned [of "csrs (ticked cpu)" t]
      by (auto simp: trap_outcome_def cpu_ok_def enter_trap_ok start_record_def)
  qed
  then show ?thesis
    using assms(1) rec(1,2) replay_registers_ok [OF regs] by (auto simp: cpu_ok_def)
qed

subsection \<open>Sequences of steps\<close>

text \<open>
  \<open>steps cpu rs cpu'\<close>: the hart, never halted before its last step, steps from \<open>cpu\<close> to \<open>cpu'\<close>
  with the records \<open>rs\<close>.
\<close>

inductive steps :: "Cpu \<Rightarrow> StepRecord list \<Rightarrow> Cpu \<Rightarrow> bool" where
  steps_done: "steps cpu [] cpu"
| steps_step: "\<not> halted cpu \<Longrightarrow> step cpu = Inr (cpu1, r) \<Longrightarrow> steps cpu1 rs cpu' \<Longrightarrow> steps cpu (r # rs) cpu'"

inductive_cases steps_ConsE: "steps cpu (r # rs) cpu'"
inductive_simps steps_Nil [simp]: "steps cpu [] cpu'"

lemma steps_ok: "steps cpu rs cpu' \<Longrightarrow> cpu_ok cpu \<Longrightarrow> cpu_ok cpu' \<and> (aligned4 (pc cpu) \<longrightarrow> aligned4 (pc cpu'))"
  by (induction rule: steps.induct) (auto dest: step_ok)

lemma steps_regs: "steps cpu rs cpu' \<Longrightarrow> cpu_ok cpu \<Longrightarrow> regs_ok (registers cpu)"
  by (simp add: cpu_ok_def)

lemma steps_replay:
  "steps cpu rs cpu' \<Longrightarrow> cpu_ok cpu \<Longrightarrow>
     registers cpu' = fold (\<lambda>r regs. replay_registers regs r) rs (registers cpu) \<and>
     bus cpu' = fold (\<lambda>r b. replay_bus b r) rs (bus cpu)"
proof (induction rule: steps.induct)
  case (steps_step cpu cpu1 r rs cpu')
  have "regs_ok (registers cpu)" using steps_step.prems by (simp add: cpu_ok_def)
  from step_record [OF this steps_step.hyps(2)] steps_step step_ok [OF steps_step.prems steps_step.hyps(2)]
  show ?case by simp
qed simp

lemma steps_append: "steps cpu rs cpu1 \<Longrightarrow> steps cpu1 ss cpu' \<Longrightarrow> steps cpu (rs @ ss) cpu'"
  by (induction rule: steps.induct) (auto intro: steps.intros)

lemma steps_sequence:
  "steps cpu rs cpu' \<Longrightarrow> cpu_ok cpu \<Longrightarrow> i < length rs \<Longrightarrow>
     sr_sequence (rs ! i) = sequence_number cpu + of_nat i"
proof (induction arbitrary: i rule: steps.induct)
  case (steps_step cpu cpu1 r rs cpu')
  have "regs_ok (registers cpu)" using steps_step.prems by (simp add: cpu_ok_def)
  from step_record [OF this steps_step.hyps(2)] steps_step step_ok [OF steps_step.prems(1) steps_step.hyps(2)]
  show ?case by (cases i) simp_all
qed simp

text \<open>Consecutive records agree on the state between them.\<close>

lemma steps_chain:
  "steps cpu rs cpu' \<Longrightarrow> cpu_ok cpu \<Longrightarrow> Suc i < length rs \<Longrightarrow>
     sr_pc (rs ! Suc i) = sr_next_pc (rs ! i) \<and> sr_privilege (rs ! Suc i) = sr_next_privilege (rs ! i) \<and>
     \<not> sr_halted (rs ! i)"
proof (induction arbitrary: i rule: steps.induct)
  case (steps_step cpu cpu1 r rs cpu')
  have regs: "regs_ok (registers cpu)" using steps_step.prems by (simp add: cpu_ok_def)
  have ok1: "cpu_ok cpu1" using step_ok [OF steps_step.prems(1) steps_step.hyps(2)] by simp
  then have regs1: "regs_ok (registers cpu1)" by (simp add: cpu_ok_def)
  show ?case
  proof (cases i)
    case 0
    then obtain r1 rs1 where rs: "rs = r1 # rs1" using steps_step.prems(2) by (cases rs) auto
    obtain cpu2 where "\<not> halted cpu1" "step cpu1 = Inr (cpu2, r1)"
      using steps_step.hyps(3) unfolding rs by (rule steps_ConsE) blast
    then show ?thesis
      using 0 rs step_record [OF regs steps_step.hyps(2)] step_record [OF regs1, of cpu2 r1] by simp
  next
    case (Suc j)
    then show ?thesis using steps_step.IH [OF ok1, of j] steps_step.prems(2) by simp
  qed
qed simp

subsection \<open>Runs\<close>

text \<open>
  What a run asks of its trace sink: each record it accepts adds its line to the contents.
\<close>

locale trace_sink =
  fixes emit :: "'t \<Rightarrow> StepRecord \<Rightarrow> exn + 't"
    and contents :: "'t \<Rightarrow> 'c list"
    and line :: "StepRecord \<Rightarrow> 'c list"
  assumes emit_contents: "emit t r = Inr t' \<Longrightarrow> contents t' = contents t @ line r"
begin

lemma run_loop_steps:
  "run_loop emit n cpu t k = Inr (cpu', t', k') \<Longrightarrow>
     \<exists>rs. steps cpu rs cpu' \<and> k' = k + of_nat (length rs) \<and> length rs \<le> n \<and>
       (halted cpu' \<or> length rs = n) \<and> contents t' = contents t @ concat (map line rs)"
proof (induction n arbitrary: cpu t k)
  case 0
  then show ?case by (intro exI [of _ "[]"]) simp
next
  case (Suc n)
  show ?case
  proof (cases "halted cpu")
    case True
    with Suc.prems show ?thesis by (intro exI [of _ "[]"]) simp
  next
    case False
    with Suc.prems obtain cpu1 r t1 where s: "step cpu = Inr (cpu1, r)" "emit t r = Inr t1"
      "run_loop emit n cpu1 t1 (k + 1) = Inr (cpu', t', k')"
      by (auto split: sum.splits prod.splits)
    from Suc.IH [OF s(3)] obtain rs where "steps cpu1 rs cpu'" "k' = k + 1 + of_nat (length rs)"
      "length rs \<le> n" "halted cpu' \<or> length rs = n" "contents t' = contents t1 @ concat (map line rs)" by blast
    then show ?thesis
      using s False emit_contents [OF s(2)] by (intro exI [of _ "r # rs"]) (auto intro: steps.intros)
  qed
qed

end

lemma run_loop_total:
  "cpu_ok cpu \<Longrightarrow> (\<And>t r. \<exists>t'. emit t r = Inr t') \<Longrightarrow> \<exists>cpu' t' k'. run_loop emit n cpu t k = Inr (cpu', t', k')"
proof (induction n arbitrary: cpu t k)
  case (Suc n)
  show ?case
  proof (cases "halted cpu")
    case False
    obtain cpu1 r where s: "step cpu = Inr (cpu1, r)"
      using Suc.prems(1) step_total [of cpu] by (auto simp: cpu_ok_def)
    moreover obtain t1 where "emit t r = Inr t1" using Suc.prems(2) by blast
    ultimately show ?thesis using False Suc.IH Suc.prems step_ok [OF Suc.prems(1) s] by simp
  qed simp
qed simp

text \<open>
  What a sink makes of a sequence of records, and the loop for any sink: it returns the state after its
  steps and the sink after their records, or the error of the sink for the last of them.
\<close>

fun feed :: "('t \<Rightarrow> StepRecord \<Rightarrow> exn + 't) \<Rightarrow> 't \<Rightarrow> StepRecord list \<Rightarrow> exn + 't" where
  "feed emit t [] = Inr t"
| "feed emit t (r # rs) = (case emit t r of Inl e \<Rightarrow> Inl e | Inr t1 \<Rightarrow> feed emit t1 rs)"

lemma run_loop_feed:
  "cpu_ok cpu \<Longrightarrow> \<exists>cpu' rs. steps cpu rs cpu' \<and> length rs \<le> n \<and>
     (case feed emit t rs of
        Inl e \<Rightarrow> run_loop emit n cpu t k = Inl e \<and> (\<exists>t1. feed emit t (butlast rs) = Inr t1)
      | Inr t' \<Rightarrow> run_loop emit n cpu t k = Inr (cpu', t', k + of_nat (length rs)) \<and>
          (halted cpu' \<or> length rs = n))"
proof (induction n arbitrary: cpu t k)
  case 0
  show ?case by (intro exI [of _ cpu] exI [of _ "[]"]) simp
next
  case (Suc n)
  show ?case
  proof (cases "halted cpu")
    case True
    then show ?thesis by (intro exI [of _ cpu] exI [of _ "[]"]) simp
  next
    case False
    obtain cpu1 r where s: "step cpu = Inr (cpu1, r)"
      using Suc.prems step_total [of cpu] by (auto simp: cpu_ok_def)
    show ?thesis
    proof (cases "emit t r")
      case (Inl e)
      with s False show ?thesis
        by (intro exI [of _ cpu1] exI [of _ "[r]"]) (auto intro: steps.intros)
    next
      case (Inr t1)
      have "cpu_ok cpu1" using step_ok [OF Suc.prems s] by simp
      from Suc.IH [OF this, of t1 "k + 1"] obtain cpu' rs where IH: "steps cpu1 rs cpu'" "length rs \<le> n"
        "case feed emit t1 rs of
           Inl e \<Rightarrow> run_loop emit n cpu1 t1 (k + 1) = Inl e \<and> (\<exists>t2. feed emit t1 (butlast rs) = Inr t2)
         | Inr t' \<Rightarrow> run_loop emit n cpu1 t1 (k + 1) = Inr (cpu', t', k + 1 + of_nat (length rs)) \<and>
             (halted cpu' \<or> length rs = n)"
        by blast
      then show ?thesis
        using s False Inr
        by (intro exI [of _ cpu'] exI [of _ "r # rs"]) (auto intro: steps.intros split: sum.splits)
    qed
  qed
qed

lemma run_loop_add:
  "run_loop emit m cpu t k = Inr (cpu1, t1, k1) \<Longrightarrow> run_loop emit (m + n) cpu t k = run_loop emit n cpu1 t1 k1"
proof (induction m arbitrary: cpu t k)
  case (Suc m)
  show ?case
  proof (cases "halted cpu")
    case True
    then show ?thesis using Suc.prems by (cases n) simp_all
  next
    case False
    then show ?thesis using Suc by (auto split: sum.splits prod.splits)
  qed
qed simp

text \<open>The sink of the tool on a stream that never fails, and the sink that keeps the records.\<close>

definition collect :: "StepRecord list \<Rightarrow> StepRecord \<Rightarrow> exn + StepRecord list" where
  "collect rs r = Inr (rs @ [r])"

interpretation records: trace_sink collect "\<lambda>rs. rs" "\<lambda>r. [r]"
  by unfold_locales (simp add: collect_def)

interpretation jsonl: trace_sink "jsonl_append (@) good" "\<lambda>s. s" "\<lambda>r. format_trace_record r @ [newline]" for good
  by unfold_locales (auto simp: jsonl_append_def Let_def split: if_splits)

end
