(* ===== verification/Isolation.thy ===== *)
theory Isolation
  imports Runs
begin

text \<open>
  What user mode can reach: a step in user mode under Sv39 changes no byte of memory outside the
  pages its own page table marks user-writable, and without a trap it changes neither the
  privilege nor any control register but the counters.
\<close>

subsection \<open>Bytes a bus write leaves alone\<close>

lemma bus_write_frame_byte:
  assumes "bus_ok b" "\<not> unat (x - a) < w"
  shows "bus_byte (fst (bus_write b a w v k)) x = bus_byte b x"
proof (cases "ram_accessible b a w")
  case True
  then show ?thesis using bus_write_byte assms(2) by simp
next
  case False
  show ?thesis
  proof (cases "valid_width w \<and> find_device (devices b) a w \<noteq> None")
    case unmapped: False
    then have "fst (bus_write b a w v k) = b" by (auto simp: bus_write_def)
    then show ?thesis by simp
  next
    case True
    then obtain i where i: "find_device (devices b) a w = Some i" "valid_width w" by auto
    then obtain u where u: "devices b ! i = UartDevice u" "i < length (devices b)"
      using False assms(1) find_device_Some [OF i(1)]
      by (cases "devices b ! i") (auto simp: ram_accessible_def)
    define u' where "u' = UartDevice (fst (uart_write u (a - md_base u) w v))"
    have wr: "fst (bus_write b a w v k) = b\<lparr>devices := (devices b)[i := u']\<rparr>"
      using i u by (auto simp: bus_write_def u'_def Let_def split_beta split: option.split)
    have "layout u' = layout (devices b ! i)" by (simp add: u'_def u layout_def)
    then have "find_device ((devices b)[i := u']) x 1 = find_device (devices b) x 1"
      by (intro find_device_layout map_layout_update) simp
    then show ?thesis
      using u by (auto simp: bus_byte_def wr u'_def nth_list_update split: option.split)
  qed
qed

subsection \<open>What a user-mode step can reach\<close>

text \<open>
  The physical byte \<open>pa\<close> belongs to a page that the current page table maps for user stores:
  U, W, A and D are set in its leaf entry.
\<close>

definition user_writable :: "Cpu \<Rightarrow> u64 \<Rightarrow> bool" where
  "user_writable cpu pa \<longleftrightarrow>
     (\<exists>va l a pte. canonical va \<and>
        maps_to (bus cpu) va 2 (root_table (sv39_context cpu VirtualAccess.Store)) l a pte \<and>
        bit pte 2 \<and> bit pte 4 \<and> bit pte 6 \<and> bit pte 7 \<and> physical va l pte = pa)"

lemma translates_user_store:
  assumes "translates cpu VirtualAccess.Store va pa" "privilege cpu = User" "\<not> bare cpu"
  obtains l a pte where "canonical va"
    "maps_to (bus cpu) va 2 (root_table (sv39_context cpu VirtualAccess.Store)) l a pte"
    "bit pte 2" "bit pte 4" "bit pte 6" "bit pte 7" "physical va l pte = pa"
proof -
  obtain t where t: "walk_sv39 (bus cpu) va (sv39_context cpu VirtualAccess.Store) = Inr t"
    "pa = st_physical_address t" using assms by (auto simp: translates_def)
  then obtain l a pte where m: "canonical va" "grants (sv39_context cpu VirtualAccess.Store) pte"
    "maps_to (bus cpu) va 2 (root_table (sv39_context cpu VirtualAccess.Store)) l a pte"
    "t = translation va l a pte" unfolding walk_sv39_iff by blast
  show thesis
    using that [OF m(1,3)] m t(2) assms(2)
    by (simp add: grants_def sv39_context_def Let_def translation_def)
qed

lemma drop_bit_add_low:
  assumes "unat va mod w = 0" "valid_width w" "i < w" "12 \<le> n"
  shows "drop_bit n (va + of_nat i) = drop_bit n (va :: u64)"
proof -
  have "w dvd 2 ^ 3" using assms(2) by (auto simp: valid_width_def)
  moreover have "(2 :: nat) ^ 3 dvd 2 ^ n" "(2 :: nat) ^ 3 dvd 2 ^ 64"
    by (rule le_imp_power_dvd, use assms(4) in simp)+
  ultimately have dvd: "w dvd 2 ^ n" "w dvd 2 ^ 64" using dvd_trans by blast+
  obtain q where q: "unat va = w * q" using assms(1) by blast
  have "unat va < 2 ^ 64" by (rule unat_u64_less)
  with dvd(2) q have "w * q + i < 2 ^ 64"
  proof -
    obtain m where m: "(2 :: nat) ^ 64 = w * m" using dvd(2) by blast
    with q \<open>unat va < 2 ^ 64\<close> have "q < m" by (metis mult_less_cancel1)
    then have "w * (q + 1) \<le> w * m" by (intro mult_left_mono) simp_all
    then show ?thesis using assms(3) m by (simp add: distrib_left)
  qed
  then have u: "unat (va + of_nat i) = w * q + i" using q by (simp add: unat_add_of_nat)
  obtain m where m: "(2 :: nat) ^ n = w * m" using dvd(1) by blast
  have ud: "unat (drop_bit n x) = unat x div 2 ^ n" for x :: u64
    by (simp only: unat_drop_bit_eq) (simp only: drop_bit_eq_div)
  have "unat (drop_bit n (va + of_nat i)) = (w * q + i) div w div m"
    unfolding ud u m by (simp add: div_mult2_eq)
  also have "\<dots> = unat (drop_bit n va)"
    unfolding ud q m using assms(3) by (simp add: div_mult2_eq)
  finally show ?thesis by (rule unsigned_word_eqI)
qed

lemma take_bit_add_low:
  assumes "unat va mod w = 0" "valid_width w" "i < w" "12 \<le> n"
  shows "take_bit n (va + of_nat i) = take_bit n (va :: u64) + of_nat i"
proof -
  have split: "take_bit n x = x - push_bit n (drop_bit n x)" for x :: u64
    using bits_ident [of n x] by (simp add: eq_diff_eq add.commute)
  show ?thesis unfolding split drop_bit_add_low [OF assms] by (rule add_diff_eq [symmetric, THEN trans]) simp
qed

lemma physical_sum:
  "physical va l pte = push_bit (12 + 9 * l) (drop_bit (9 * l) (pte_ppn pte)) + take_bit (12 + 9 * l) va"
  unfolding physical_def by (rule disjunctive_add [symmetric]) (auto simp: bit_simps)

lemma physical_add:
  assumes "unat va mod w = 0" "valid_width w" "i < w"
  shows "physical (va + of_nat i) l pte = physical va l pte + of_nat i"
  using take_bit_add_low [OF assms, of "12 + 9 * l"] by (simp add: physical_sum)

lemma user_writable_range:
  assumes "translates cpu VirtualAccess.Store va pa" "privilege cpu = User" "\<not> bare cpu"
    "unat va mod w = 0" "valid_width w" "i < w"
  shows "user_writable cpu (pa + of_nat i)"
proof -
  obtain l a pte where m: "canonical va"
    "maps_to (bus cpu) va 2 (root_table (sv39_context cpu VirtualAccess.Store)) l a pte"
    "bit pte 2" "bit pte 4" "bit pte 6" "bit pte 7" "physical va l pte = pa"
    using translates_user_store [OF assms(1-3)] .
  have page: "drop_bit (12 + 9 * l) va = drop_bit (12 + 9 * l) (va + of_nat i)"
    using drop_bit_add_low(1) [OF assms(4-6), of "12 + 9 * l"] by simp
  have "canonical (va + of_nat i)"
    using canonical_same_page [OF page maps_to_level [OF m(2)]] m(1) by simp
  then show ?thesis
    using maps_to_same_page [OF m(2) page] m(3-7) physical_add [OF assms(4-6), of l pte]
    unfolding user_writable_def by blast
qed

lemma step_memory_write:
  assumes "regs_ok (registers cpu)" "step cpu = Inr (cpu', r)" "sr_memory_write r = Some m"
  shows "translates cpu VirtualAccess.Store (mw_address m) (mw_physical_address m) \<and>
    unat (mw_address m) mod mw_width m = 0 \<and> valid_width (mw_width m) \<and> sr_trap r = None"
proof -
  have running: "\<not> halted cpu"
    using assms step_halted by (auto simp: start_record_def empty_record_def)
  have trap: "sr_trap r = None"
    using step_trap [OF assms(1,2)] assms(3) by (cases "sr_trap r") (auto simp: trap_outcome_def)
  obtain p cpu1 where "plain_outcome ((ticked cpu)\<lparr>pc := p\<rparr>) (start_record cpu) cpu1 r"
    using step_plain [OF assms(1,2) running trap] by blast
  then have m: "translates ((ticked cpu)\<lparr>pc := p\<rparr>) VirtualAccess.Store (mw_address m) (mw_physical_address m)"
    "unat (mw_address m) mod mw_width m = 0"
    "snd (bus_write (bus ((ticked cpu)\<lparr>pc := p\<rparr>)) (mw_physical_address m) (mw_width m) (mw_value m) AccessKind.Store) = None"
    using assms(3) by (auto simp: plain_outcome_def)
  have "translates ((ticked cpu)\<lparr>pc := p\<rparr>) = translates cpu"
    by (intro ext) (simp add: translates_def bare_def sv39_context_def ticked_def tick_cycle_def mstatus_value_def)
  moreover have "valid_width (mw_width m)" using m(3) by (auto simp: bus_write_def split: if_splits)
  ultimately show ?thesis using m trap by simp
qed

lemma user_step_memory:
  assumes "cpu_ok cpu" "privilege cpu = User" "\<not> bare cpu" "step cpu = Inr (cpu', r)"
    "bus_byte (bus cpu') x \<noteq> bus_byte (bus cpu) x"
  shows "user_writable cpu x"
proof -
  have regs: "regs_ok (registers cpu)" "bus_ok (bus cpu)" using assms(1) by (simp_all add: cpu_ok_def)
  have b: "bus cpu' = replay_bus (bus cpu) r" using step_record [OF regs(1) assms(4)] by simp
  obtain m where m: "sr_memory_write r = Some m"
    using b assms(5) by (cases "sr_memory_write r") (auto simp: replay_bus_def)
  define i where "i = unat (x - mw_physical_address m)"
  have "i < mw_width m"
    using bus_write_frame_byte [OF regs(2), of x "mw_physical_address m" "mw_width m"] b assms(5) m
    by (auto simp: replay_bus_def i_def)
  moreover have "x = mw_physical_address m + of_nat i" by (simp add: i_def)
  ultimately show ?thesis
    using user_writable_range [of cpu "mw_address m" "mw_physical_address m" "mw_width m" i]
      step_memory_write [OF regs(1) assms(4) m] assms(2,3) by simp
qed

lemma le_User_iff: "p \<le> User \<longleftrightarrow> p = User"
  by (cases p) simp_all

lemma user_step_csrs:
  assumes "cpu_ok cpu" "privilege cpu = User" "\<not> halted cpu" "step cpu = Inr (cpu', r)" "sr_trap r = None"
  shows "privilege cpu' = User \<and> csrs cpu' = retire_instruction (tick_cycle (csrs cpu))"
proof -
  have regs: "regs_ok (registers cpu)" using assms(1) by (simp add: cpu_ok_def)
  obtain p cpu1 where "plain_outcome ((ticked cpu)\<lparr>pc := p\<rparr>) (start_record cpu) cpu1 r"
    "cpu' = cpu1\<lparr>csrs := retire_instruction (csrs cpu1)\<rparr>"
    using step_plain [OF regs assms(4,3,5)] by blast
  then show ?thesis
    using assms(2) by (simp add: plain_outcome_def ticked_def le_User_iff)
qed

end
