(* ===== verification/Alu.thy ===== *)
theory Alu
  imports Cpu
begin

text \<open>
  The arithmetic of the hart against the instruction set: the C++ shift and sign-extension
  helpers are the signed operations of the word library, and every arithmetic instruction
  computes the integer function the ISA manual gives for it (\<open>isa_result\<close>).
\<close>

subsection \<open>Shifts and sign extension\<close>

lemma u32_eq_iff_all_bits: "x = y \<longleftrightarrow> (\<forall>n. bit x n \<longleftrightarrow> bit y n)" for x y :: u32
  by (auto intro: bit_word_eqI)

lemma u32_bit_less: "bit x n \<Longrightarrow> n < 32" for x :: u32
  by (drule bit_imp_le_length) simp

lemma all_ones_shift: "bit (push_bit k (NOT 0) :: u64) n \<longleftrightarrow> k \<le> n \<and> n < 64"
  "bit (push_bit k (NOT 0) :: u32) n \<longleftrightarrow> k \<le> n \<and> n < 32"
  by (auto simp: bit_not_iff bit_mask_iff dest: bit_imp_le_length)

lemma sign_tests: "v AND push_bit 63 1 = 0 \<longleftrightarrow> \<not> bit (v :: u64) 63"
  "w AND push_bit 31 1 = 0 \<longleftrightarrow> \<not> bit (w :: u32) 31"
proof -
  show "v AND push_bit 63 1 = 0 \<longleftrightarrow> \<not> bit v 63" by (rule and_push_bit_eq_0) simp
  have "bit (w AND push_bit 31 1) n \<longleftrightarrow> n = 31 \<and> bit w 31" for n
    by (auto simp: bit_and_iff bit_push_bit_iff bit_1_iff simp del: push_bit_of_1)
  then show "w AND push_bit 31 1 = 0 \<longleftrightarrow> \<not> bit w 31"
    unfolding u32_eq_iff_all_bits by auto
qed

lemma arithmetic_shift_right_signed: "arithmetic_shift_right v n = signed_drop_bit (n mod 64) v"
proof -
  have "n mod 64 < 64" by simp
  then show ?thesis
    unfolding arithmetic_shift_right_def Let_def sign_tests
    by (auto simp: u64_eq_iff_bits bit_signed_drop_bit_iff bit_or_iff bit_drop_bit_eq bit_not_iff bit_mask_iff
        dest: u64_bit_less)
qed

lemma arithmetic_shift_right_word_signed:
  "arithmetic_shift_right_word v n = signed_drop_bit (n mod 32) v"
proof -
  have "n mod 32 < 32" by simp
  then show ?thesis
    unfolding arithmetic_shift_right_word_def Let_def sign_tests
    by (auto simp: u32_eq_iff_all_bits bit_signed_drop_bit_iff bit_or_iff bit_drop_bit_eq bit_not_iff bit_mask_iff
        dest: u32_bit_less)
qed

lemma sint_arithmetic_shift_right: "sint (arithmetic_shift_right v n) = sint v div 2 ^ (n mod 64)"
  unfolding arithmetic_shift_right_signed by (simp add: sint_signed_drop_bit_eq drop_bit_eq_div)

lemma sint_arithmetic_shift_right_word:
  "sint (arithmetic_shift_right_word v n) = sint v div 2 ^ (n mod 32)"
  unfolding arithmetic_shift_right_word_signed by (simp add: sint_signed_drop_bit_eq drop_bit_eq_div)

lemma sint_low_word: "sint (ucast (v :: u64) :: u32) = signed_take_bit 31 (sint v)"
  by (simp add: sint_uint [of "ucast v :: u32"] uint_sint [of v] unsigned_ucast_eq signed_take_bit_take_bit)

lemma sign_extend_word_eq: "sign_extend_word v = word_of_int (signed_take_bit 31 (sint v))"
  unfolding sign_extend_word_def scast_eq sint_low_word ..

lemma sign_extend_word_ucast: "sign_extend_word (ucast (w :: u32)) = word_of_int (sint w)"
proof -
  have "(ucast (ucast w :: u64) :: u32) = w" by (rule bit_word_eqI) (simp add: bit_simps)
  then show ?thesis unfolding sign_extend_word_def scast_eq by (rule arg_cong)
qed

subsection \<open>The instruction set's integer semantics\<close>

text \<open>
  The results of the RV64I arithmetic instructions as the ISA manual words them, over the
  integers the registers hold: two's complement, shift amounts modulo the width, the W forms
  on the low 32 bits with sign extension.
\<close>

definition isa_unsigned :: "int \<Rightarrow> int" where
  "isa_unsigned a = a mod 2 ^ 64"

definition isa_word :: "int \<Rightarrow> int" where
  "isa_word a = signed_take_bit 31 a"

definition isa_result :: "Operation \<Rightarrow> int \<Rightarrow> int \<Rightarrow> int" where
  "isa_result op a b =
     (if op \<in> {Add, Addi} then a + b
      else if op = Sub then a - b
      else if op \<in> {Slt, Slti} then of_bool (a < b)
      else if op \<in> {Sltu, Sltiu} then of_bool (isa_unsigned a < isa_unsigned b)
      else if op \<in> {Xor, Xori} then a XOR b
      else if op \<in> {Or, Ori} then a OR b
      else if op \<in> {And, Andi} then a AND b
      else if op \<in> {Sll, Slli} then a * 2 ^ nat (b mod 64)
      else if op \<in> {Srl, Srli} then isa_unsigned a div 2 ^ nat (b mod 64)
      else if op \<in> {Sra, Srai} then a div 2 ^ nat (b mod 64)
      else if op \<in> {Addw, Addiw} then isa_word (a + b)
      else if op = Subw then isa_word (a - b)
      else if op \<in> {Sllw, Slliw} then isa_word (a * 2 ^ nat (b mod 32))
      else if op \<in> {Srlw, Srliw} then isa_word ((a mod 2 ^ 32) div 2 ^ nat (b mod 32))
      else isa_word a div 2 ^ nat (b mod 32))"

lemma isa_unsigned_sint: "isa_unsigned (sint (a :: u64)) = uint a"
  unfolding isa_unsigned_def by (simp add: uint_sint take_bit_eq_mod)

lemma unat_low_bits: "n < 64 \<Longrightarrow> unat (b AND mask n :: u64) = nat (sint b mod 2 ^ n)"
proof -
  assume n: "n < 64"
  have "uint (take_bit n b) = take_bit n (uint b)" by (rule unsigned_take_bit_eq)
  also have "\<dots> = take_bit n (sint b)" using n by (simp add: uint_sint)
  finally show ?thesis
    by (simp only: take_bit_eq_mask [symmetric] unat_eq_nat_uint) (simp only: take_bit_eq_mod)
qed

lemma shift_amounts: "unat (b AND 0x3f :: u64) = nat (sint b mod 64)" "unat (b AND 0x1f :: u64) = nat (sint b mod 32)"
proof -
  have "(0x3f :: u64) = mask 6" "(0x1f :: u64) = mask 5" by (simp_all add: mask_eq_exp_minus_1)
  then show "unat (b AND 0x3f :: u64) = nat (sint b mod 64)" "unat (b AND 0x1f :: u64) = nat (sint b mod 32)"
    using unat_low_bits [of 6 b] unat_low_bits [of 5 b] by (simp_all only:) simp_all
qed

lemma push_bit_word: "push_bit n a = (word_of_int (sint a * 2 ^ n) :: 'a::len word)"
  by (simp add: push_bit_eq_mult wi_hom_mult [symmetric])

lemma drop_bit_word: "drop_bit n a = (word_of_int (uint a div 2 ^ n) :: 'a::len word)"
proof -
  have "uint (drop_bit n a) = drop_bit n (take_bit LENGTH('a) (uint a))" by (rule unsigned_drop_bit_eq)
  also have "\<dots> = drop_bit n (uint a)" by (simp only: bintr_uint [OF order_refl])
  finally have "uint (drop_bit n a) = uint a div 2 ^ n" by (simp only: drop_bit_eq_div)
  then show ?thesis by (metis word_of_int_uint)
qed

lemma sint_less: "sint a < sint b \<longleftrightarrow> a <s b" for a b :: u64
  by (simp add: word_sless_alt)

lemma alu_register_isa:
  assumes "op \<in> {Add, Sub, Sll, Slt, Sltu, Xor, Srl, Sra, Or, And}"
  shows "alu_register op a b = word_of_int (isa_result op (sint a) (sint b))"
  using assms
proof (elim insertE emptyE)
  assume op: "op = Sra"
  have "alu_register op a b = word_of_int (sint (arithmetic_shift_right a (unat (b AND 0x3f))))"
    by (simp add: op alu_register_def)
  also have "\<dots> = word_of_int (sint a div 2 ^ nat (sint b mod 64))"
    by (simp add: sint_arithmetic_shift_right shift_amounts nat_less_iff)
  finally show ?thesis by (simp add: op isa_result_def)
qed (simp_all add: alu_register_def isa_result_def isa_unsigned_sint truth_def word_less_def shift_amounts 
     push_bit_word drop_bit_word wi_hom_add [symmetric] wi_hom_sub [symmetric] word_wi_log_defs [symmetric])


lemma isa_word_add: "isa_word (isa_word a + isa_word b) = isa_word (a + b)"
  unfolding isa_word_def by (rule signed_take_bit_add)

lemma isa_word_diff: "isa_word (isa_word a - isa_word b) = isa_word (a - b)"
  unfolding isa_word_def by (rule signed_take_bit_diff)

lemma isa_word_mult: "isa_word (isa_word a * b) = isa_word (a * b)"
proof -
  have idem: "isa_word (isa_word x) = isa_word x" for x
    unfolding isa_word_def by (simp add: signed_take_bit_signed_take_bit)
  have "isa_word (isa_word (isa_word a) * isa_word b) = isa_word (isa_word a * b)"
    "isa_word (isa_word a * isa_word b) = isa_word (a * b)"
    unfolding isa_word_def by (rule signed_take_bit_mult)+
  then show ?thesis by (simp add: idem)
qed

lemma isa_word_sint: "sint (ucast (a :: u64) :: u32) = isa_word (sint a)"
  by (simp add: isa_word_def sint_low_word)

lemma sint_word_of_int_u32: "sint (word_of_int k :: u32) = isa_word k"
  by (simp add: isa_word_def sint_sbintrunc')

lemma sint_word_ops:
  "sint (l + r) = isa_word (sint l + sint r)" "sint (l - r) = isa_word (sint l - sint r)"
  "sint (push_bit n l) = isa_word (sint l * 2 ^ n)" "sint (drop_bit n l) = isa_word (uint l div 2 ^ n)"
  for l r :: u32
  by (simp add: isa_word_def sint_word_add, simp add: isa_word_def sint_word_diff,
      simp only: push_bit_word sint_word_of_int_u32, simp only: drop_bit_word sint_word_of_int_u32)

lemma uint_low_word: "uint (ucast (a :: u64) :: u32) = sint a mod 2 ^ 32"
proof -
  have "uint (ucast a :: u32) = take_bit 32 (sint a)" by transfer (simp add: take_bit_signed_take_bit)
  then show ?thesis by (simp only: take_bit_eq_mod)
qed

lemma sign_extend_word_isa: "sign_extend_word (a + b) = word_of_int (isa_word (sint a + sint b))"
  unfolding sign_extend_word_eq isa_word_def sint_word_add by (simp add: signed_take_bit_signed_take_bit)

lemmas word_isa = isa_word_add isa_word_diff isa_word_mult isa_word_sint sint_word_ops uint_low_word
  sign_extend_word_isa sign_extend_word_ucast

lemma nat_shift_31: "nat (sint b mod 32) mod 32 = nat (sint b mod 32)" for b :: u64
  by (simp add: nat_less_iff)

lemma alu_word_isa:
  assumes "op \<in> {Addw, Subw, Sllw, Srlw, Sraw}"
  shows "alu_word op a b imm = word_of_int (isa_result op (sint a) (sint b))"
  using assms
  by (elim insertE emptyE)
    (simp_all add: alu_word_def Let_def isa_result_def word_isa shift_amounts
      sint_arithmetic_shift_right_word nat_shift_31)

lemma small_amounts:
  fixes imm :: u64
  shows "imm < 64 \<Longrightarrow> unat imm = nat (sint imm mod 64)" "imm < 32 \<Longrightarrow> unat imm = nat (sint imm mod 32)"
  using word_less_exp_iff [of 6 imm] word_less_exp_iff [of 5 imm] shift_amounts [of imm]
  by (simp_all add: take_bit_eq_mask mask_eq_exp_minus_1)

lemma alu_immediate_isa:
  assumes "op \<in> {Addi, Slti, Sltiu, Xori, Ori, Andi, Slli, Srli, Srai}"
    "op \<in> {Slli, Srli, Srai} \<Longrightarrow> imm < 64"
  shows "alu_immediate op a imm = word_of_int (isa_result op (sint a) (sint imm))"
  using assms(1)
proof (elim insertE emptyE)
  assume op: "op = Srai"
  then have "unat imm = nat (sint imm mod 64)" using assms(2) small_amounts(1) by simp
  then have "alu_immediate op a imm = word_of_int (sint (arithmetic_shift_right a (nat (sint imm mod 64))))"
    by (simp add: op alu_immediate_def)
  also have "\<dots> = word_of_int (sint a div 2 ^ nat (sint imm mod 64))"
    by (simp add: sint_arithmetic_shift_right nat_less_iff)
  finally show ?thesis by (simp add: op isa_result_def)
qed (use assms(2) small_amounts(1) [of imm] in \<open>simp_all add: alu_immediate_def isa_result_def isa_unsigned_sint truth_def
     word_less_def push_bit_word drop_bit_word wi_hom_add [symmetric] wi_hom_sub [symmetric]
     word_wi_log_defs [symmetric] add_offset_def\<close>)

lemma alu_word_immediate_isa:
  assumes "op \<in> {Addiw, Slliw, Srliw, Sraiw}" "op \<in> {Slliw, Srliw, Sraiw} \<Longrightarrow> imm < 32"
  shows "alu_word op a b imm = word_of_int (isa_result op (sint a) (sint imm))"
  using assms(1)
  by (elim insertE emptyE)
    (use assms(2) small_amounts(2) [of imm] in \<open>simp_all add: alu_word_def Let_def isa_result_def word_isa
      sint_arithmetic_shift_right_word nat_shift_31\<close>)

subsection \<open>Decoded instructions\<close>

text \<open>The decoder leaves shift immediates below the width they shift.\<close>

definition shift_ok :: "DecodedInstruction \<Rightarrow> bool" where
  "shift_ok d \<longleftrightarrow> (di_operation d \<in> {Slli, Srli, Srai} \<longrightarrow> di_immediate d < 64) \<and>
     (di_operation d \<in> {Slliw, Srliw, Sraiw} \<longrightarrow> di_immediate d < 32)"

lemma ucast_and_less: "m < 2 ^ k \<Longrightarrow> k < 32 \<Longrightarrow> (ucast (x AND m) :: u64) < 2 ^ k" for x m :: u32
proof -
  assume m: "m < 2 ^ k" "k < 32"
  have "x AND m \<le> m" by (rule word_and_le1)
  then have "x AND m < 2 ^ k" using m by simp
  then have "take_bit k (x AND m) = x AND m" using m word_less_exp_iff [of k "x AND m"] by simp
  then have "take_bit k (ucast (x AND m) :: u64) = ucast (x AND m)"
    using m by (metis unsigned_take_bit_eq)
  then show ?thesis using m word_less_exp_iff [of k "ucast (x AND m) :: u64"] by simp
qed

lemma shift_ok_instruction:
  "op \<notin> {Slli, Srli, Srai, Slliw, Srliw, Sraiw} \<Longrightarrow> shift_ok (instruction raw op imm)"
  by (simp add: shift_ok_def)

lemma shift_ok_amount:
  "op \<in> {Slli, Srli, Srai} \<Longrightarrow> shift_ok (instruction raw op (ucast (x AND 0x3f :: u32)))"
  "op \<in> {Slliw, Srliw, Sraiw} \<Longrightarrow> shift_ok (instruction raw op (ucast (x AND 0x1f :: u32)))"
  using ucast_and_less [of "0x3f" 6 x] ucast_and_less [of "0x1f" 5 x] by (auto simp: shift_ok_def)

lemma nth_not_in: "n < length xs \<Longrightarrow> set xs \<inter> A = {} \<Longrightarrow> xs ! n \<notin> A"
  by (meson disjoint_iff nth_mem)

lemma decode_groups_shift:
  "decode_branch raw f3 = Inr d \<Longrightarrow> shift_ok d" "decode_load raw f3 = Inr d \<Longrightarrow> shift_ok d"
  "decode_store raw f3 = Inr d \<Longrightarrow> shift_ok d" "decode_op_imm raw f3 = Inr d \<Longrightarrow> shift_ok d"
  "unat f3 < 8 \<Longrightarrow> decode_op raw f3 = Inr d \<Longrightarrow> shift_ok d" "decode_op_imm_32 raw f3 = Inr d \<Longrightarrow> shift_ok d"
  "decode_op_32 raw f3 = Inr d \<Longrightarrow> shift_ok d" "decode_system raw f3 = Inr d \<Longrightarrow> shift_ok d"
proof -
  let ?S = "{Slli, Srli, Srai, Slliw, Srliw, Sraiw}"
  have ops: "n < 7 \<Longrightarrow> [Lb, Lh, Lw, Ld, Lbu, Lhu, Lwu] ! n \<notin> ?S" "n < 4 \<Longrightarrow> [Sb, Sh, Sw, Sd] ! n \<notin> ?S"
    "n < 8 \<Longrightarrow> [Add, Sll, Slt, Sltu, Xor, Srl, Or, And] ! n \<notin> ?S" for n
    by (rule nth_not_in; simp)+
  show "decode_load raw f3 = Inr d \<Longrightarrow> shift_ok d"
    using shift_ok_instruction [OF ops(1) [of "unat f3"]]
    by (auto simp: decode_load_def Let_def not_less word_le_nat_alt simp del: insert_iff split: if_splits)
  show "decode_store raw f3 = Inr d \<Longrightarrow> shift_ok d"
    using shift_ok_instruction [OF ops(2) [of "unat f3"]]
    by (auto simp: decode_store_def Let_def not_less word_le_nat_alt simp del: insert_iff split: if_splits)
  show "unat f3 < 8 \<Longrightarrow> decode_op raw f3 = Inr d \<Longrightarrow> shift_ok d"
    using shift_ok_instruction [OF ops(3) [of "unat f3"]] shift_ok_instruction [of Sub raw 0, simplified]
      shift_ok_instruction [of Sra raw 0, simplified]
    by (auto simp: decode_op_def Let_def simp del: insert_iff split: if_splits)
qed (auto simp: decode_groups Let_def shift_ok_instruction shift_ok_amount split: if_splits)

lemma decode_shift_ok: "decode raw = Inr d \<Longrightarrow> shift_ok d"
  by (auto simp: decode_def Let_def shift_ok_instruction field3_less dest: decode_groups_shift decode_groups_shift(5) [OF field3_less] split: if_splits)

subsection \<open>Arithmetic instructions\<close>

definition alu_operations :: "Operation set" where
  "alu_operations =
     {Addi, Slti, Sltiu, Xori, Ori, Andi, Slli, Srli, Srai, Add, Sub, Sll, Slt, Sltu, Xor, Srl, Sra, Or,
      And, Addiw, Slliw, Srliw, Sraiw, Addw, Subw, Sllw, Srlw, Sraw}"

definition immediate_form :: "Operation \<Rightarrow> bool" where
  "immediate_form op \<longleftrightarrow>
     op \<in> {Addi, Slti, Sltiu, Xori, Ori, Andi, Slli, Srli, Srai, Addiw, Slliw, Srliw, Sraiw}"

lemma execute_alu:
  assumes "decode raw = Inr ins" "di_operation ins \<in> alu_operations"
  shows "execute_operation cpu r ins lhs rhs s = Inr (finish (write_register cpu r (di_rd ins)
     (word_of_int (isa_result (di_operation ins) (sint lhs)
        (sint (if immediate_form (di_operation ins) then di_immediate ins else rhs))))) True)"
  using alu_immediate_isa [of "di_operation ins" "di_immediate ins" lhs]
    alu_register_isa [of "di_operation ins" lhs rhs]
    alu_word_isa [of "di_operation ins" lhs rhs "di_immediate ins"]
    alu_word_immediate_isa [of "di_operation ins" "di_immediate ins" lhs rhs]
    decode_shift_ok [OF assms(1)] assms(2)
  unfolding alu_operations_def
  by (elim insertE emptyE)
    (simp_all add: execute_operation_def immediate_form_def shift_ok_def)

end
