(* ===== verification/Instructions.thy ===== *)
theory Instructions
  imports Isolation Alu
begin

text \<open>
  Whole steps against the instruction set: a step whose fetch and decoding succeed is the execution of
  the fetched instruction, and for control transfers, loads and stores that execution is what the
  manual defines on integers and bytes, with the traps of the other cases.
\<close>

subsection \<open>The fetched instruction\<close>

definition fetches :: "Cpu \<Rightarrow> DecodedInstruction \<Rightarrow> bool" where
  "fetches cpu ins \<longleftrightarrow> aligned4 (pc cpu) \<and>
     (\<exists>pa v. translates cpu VirtualAccess.InstructionFetch (pc cpu) pa \<and>
        bus_read (bus cpu) pa 4 AccessKind.InstructionFetch = Inr v \<and> decode (ucast v) = Inr ins)"

lemma raise_trap_trap [simp]:
  "sr_trap (snd (raise_trap cpu r c v d)) =
     Some \<lparr>trap_cause = c, trap_pc = sr_pc r, trap_value = v, trap_detail = d\<rparr>"
  by (simp add: raise_trap_def Let_def split_beta)

lemma translates_unique: "translates cpu k va p \<Longrightarrow> translates cpu k va q \<Longrightarrow> p = q"
  by (auto simp: translates_def split: if_splits)

lemma translates_frame [simp]: "translates ((ticked cpu)\<lparr>pc := p\<rparr>) = translates cpu" "translates (ticked cpu) = translates cpu"
  by (intro ext, simp add: translates_def bare_def sv39_context_def ticked_def tick_cycle_def mstatus_value_def)+

lemma translate_success:
  assumes "translates cpu k va pa"
  shows "translate cpu r va k =
    (cpu, record_translation r k \<lparr>at_virtual_address = va, at_physical_address = pa\<rparr>, Some pa)"
  using assms by (auto simp: translate_def translates_def bare_def Let_def split: if_splits)

text \<open>
  A missing translation is an access fault when the hart cannot read an entry of the tables of the
  address, and a page fault otherwise.
\<close>

definition unreadable_tables :: "Cpu \<Rightarrow> u64 \<Rightarrow> bool" where
  "unreadable_tables cpu va \<longleftrightarrow> unreadable (bus cpu) va (root_table (sv39_context cpu VirtualAccess.Load))"

lemma sv39_context_root: "root_table (sv39_context cpu k) = root_table (sv39_context cpu k')"
  by (simp add: sv39_context_def root_table_def Let_def)

lemma unreadable_tables_frame [simp]:
  "unreadable_tables ((ticked cpu)\<lparr>pc := p\<rparr>) va = unreadable_tables cpu va"
  by (simp add: unreadable_tables_def sv39_context_def ticked_def tick_cycle_def mstatus_value_def)

lemma unreadable_tables_walk:
  assumes "\<not> bare cpu" "walk_sv39 (bus cpu) va (sv39_context cpu k) = Inl f"
  shows "sf_reason f = PageTableAccess \<longleftrightarrow> unreadable_tables cpu va"
proof -
  have "ctx_privilege (sv39_context cpu k) \<noteq> Machine"
    using assms(1) by (simp add: bare_def sv39_context_def Let_def)
  moreover have "root_table (sv39_context cpu k) = root_table (sv39_context cpu VirtualAccess.Load)"
    by (rule sv39_context_root)
  ultimately show ?thesis
    using walk_sv39_unreadable [of "sv39_context cpu k" "bus cpu" va] assms(2)
    by (simp add: unreadable_tables_def)
qed

lemma translate_failure:
  assumes "\<not> (\<exists>pa. translates cpu k va pa)"
  shows "\<exists>d. translate cpu r va k =
    (let c = (if unreadable_tables cpu va then access_fault_cause k else page_fault_cause k)
     in (fst (raise_trap cpu r c va d), snd (raise_trap cpu r c va d), None))"
proof -
  have "\<not> bare cpu" using assms by (auto simp: translates_def)
  moreover from this obtain f where f: "walk_sv39 (bus cpu) va (sv39_context cpu k) = Inl f"
    using assms by (cases "walk_sv39 (bus cpu) va (sv39_context cpu k)") (auto simp: translates_def)
  ultimately show ?thesis
    using unreadable_tables_walk [OF _ f]
    by (auto simp: translate_def bare_def Let_def split_beta)
qed

lemma record_translation_fields [simp]:
  "sr_trap (record_translation r k t) = sr_trap r" "sr_pc (record_translation r k t) = sr_pc r"
  "sr_register_write (record_translation r k t) = sr_register_write r"
  "sr_memory_write (record_translation r k t) = sr_memory_write r"
  "sr_retired (record_translation r k t) = sr_retired r"
  by (simp_all add: record_translation_def)

text \<open>
  A step with a fetched instruction is its execution on the hart whose counters and program counter have
  advanced.
\<close>

abbreviation source1 :: "Cpu \<Rightarrow> DecodedInstruction \<Rightarrow> u64" where
  "source1 cpu ins \<equiv> registers cpu ! unat (di_rs1 ins)"

abbreviation source2 :: "Cpu \<Rightarrow> DecodedInstruction \<Rightarrow> u64" where
  "source2 cpu ins \<equiv> registers cpu ! unat (di_rs2 ins)"

text \<open>Execution goes on in the same mode; only the control registers may have become \<open>f\<close>.\<close>

definition continues :: "Cpu \<Rightarrow> CsrFile \<Rightarrow> Cpu \<Rightarrow> bool" where
  "continues cpu f cpu' \<longleftrightarrow>
     privilege cpu' = privilege cpu \<and> halted cpu' = halted cpu \<and> config cpu' = config cpu \<and> csrs cpu' = f"

definition counted :: "Cpu \<Rightarrow> CsrFile" where
  "counted cpu = retire_instruction (tick_cycle (csrs cpu))"

definition issued :: "Cpu \<Rightarrow> Cpu" where
  "issued cpu = (ticked cpu)\<lparr>pc := pc cpu + kInstructionBytes\<rparr>"

lemma issued_fields [simp]:
  "bus (issued cpu) = bus cpu" "registers (issued cpu) = registers cpu" "privilege (issued cpu) = privilege cpu"
  "csrs (issued cpu) = tick_cycle (csrs cpu)" "pc (issued cpu) = pc cpu + 4" "translates (issued cpu) = translates cpu"
  "halted (issued cpu) = halted cpu" "config (issued cpu) = config cpu"
  "unreadable_tables (issued cpu) va = unreadable_tables cpu va"
  by (simp_all add: issued_def) (simp_all add: ticked_def kInstructionBytes_def)

definition executes :: "Cpu \<Rightarrow> DecodedInstruction \<Rightarrow> Cpu \<Rightarrow> StepRecord \<Rightarrow> StepRecord \<Rightarrow> Flow \<Rightarrow> bool" where
  "executes cpu ins cpu' r r1 flow \<longleftrightarrow>
     execute_operation (issued cpu) r1 ins (source1 cpu ins) (source2 cpu ins) (pc cpu + kInstructionBytes) = Inr flow \<and>
     fresh r1 \<and> sr_pc r1 = pc cpu \<and>
     (case flow of (cpu1, r2, completed) \<Rightarrow> sr_trap r = sr_trap r2 \<and>
        cpu' = (if sr_trap r2 = None then cpu1\<lparr>csrs := retire_instruction (csrs cpu1)\<rparr> else cpu1))"

lemma executesD:
  assumes "executes cpu ins cpu' r r1 (cpu1, r2, completed)"
  shows "execute_operation (issued cpu) r1 ins (source1 cpu ins) (source2 cpu ins) (pc cpu + kInstructionBytes) =
      Inr (cpu1, r2, completed)" "fresh r1" "sr_pc r1 = pc cpu" "sr_trap r = sr_trap r2"
    "cpu' = (if sr_trap r2 = None then cpu1\<lparr>csrs := retire_instruction (csrs cpu1)\<rparr> else cpu1)"
  using assms by (simp_all add: executes_def)

lemma step_fetched:
  assumes "cpu_ok cpu" "\<not> halted cpu" "fetches cpu ins" "step cpu = Inr (cpu', r)"
  obtains r1 cpu1 r2 completed where "executes cpu ins cpu' r r1 (cpu1, r2, completed)"
proof -
  have regs_ok: "regs_ok (registers cpu)" using assms(1) by (simp add: cpu_ok_def)
  define c where "c = ticked cpu"
  obtain pa v where f: "translates cpu VirtualAccess.InstructionFetch (pc cpu) pa"
    "bus_read (bus cpu) pa 4 AccessKind.InstructionFetch = Inr v" "decode (ucast v) = Inr ins" "aligned4 (pc cpu)"
    using assms(3) by (auto simp: fetches_def)
  define r1 where "r1 = (record_translation (start_record cpu) VirtualAccess.InstructionFetch
      \<lparr>at_virtual_address = pc cpu, at_physical_address = pa\<rparr>)\<lparr>sr_instruction := ucast v, sr_assembly := disassemble ins\<rparr>"
  have fr: "fresh r1" "sr_pc r1 = pc cpu"
    by (simp_all add: r1_def fresh_def start_record_def empty_record_def)
  have regs: "length (registers c) = 32" "unat (di_rs1 ins) < 32" "unat (di_rs2 ins) < 32"
    using regs_ok decode_valid_registers [OF f(3)]
    by (simp_all add: c_def ticked_def regs_ok_def valid_registers_def word_less_nat_alt)
  let ?x = "execute_operation (c\<lparr>pc := pc cpu + kInstructionBytes\<rparr>) r1 ins
       (registers cpu ! unat (di_rs1 ins)) (registers cpu ! unat (di_rs2 ins)) (pc cpu + kInstructionBytes)"
  obtain cpu1 r2 completed where x: "?x = Inr (cpu1, r2, completed)"
    and g: "good (c\<lparr>pc := pc cpu + kInstructionBytes\<rparr>) r1 (cpu1, r2, completed)"
    using execute_operation_good [OF fr(1)] unfolding good_result_def by (metis prod_cases3)
  have same: "registers (c\<lparr>pc := p\<rparr>) = registers cpu" "registers c = registers cpu" "pc c = pc cpu" for p
    by (simp_all add: c_def ticked_def)
  have z: "(registers cpu1)[0 := 0] = registers cpu1"
    using outcome_regs_zero [of "c\<lparr>pc := pc cpu + kInstructionBytes\<rparr>" r1 cpu1 r2] g regs_ok same
    by (simp add: good_def)
  have fin: "completed \<or> sr_trap r2 \<noteq> None" using g by (simp add: good_def disj_commute) blast
  let ?r = "r2\<lparr>sr_retired := True, sr_next_pc := pc cpu1, sr_next_privilege := privilege cpu1, sr_halted := halted cpu1\<rparr>"
  have ex: "execute c r1 ins = Inr (cpu1, if sr_trap r2 = None then ?r else r2)"
    using x fin regs same fr(2) by (auto simp: execute_def reg_def Let_def)
  have tr: "translate c (start_record cpu) (pc cpu) VirtualAccess.InstructionFetch = (c, record_translation (start_record cpu) VirtualAccess.InstructionFetch
      \<lparr>at_virtual_address = pc cpu, at_physical_address = pa\<rparr>, Some pa)"
    using f(1) by (intro translate_success) (simp add: c_def)
  have rt: "sr_trap r2 \<noteq> None \<Longrightarrow> \<not> sr_retired r2"
    using g by (auto simp: good_def outcome_def trap_outcome_def)
  have "step cpu = (case execute c r1 ins of Inl e \<Rightarrow> Inl e
      | Inr (cpu4, record4) \<Rightarrow> Inr (if sr_retired record4
          then cpu4\<lparr>registers := (registers cpu4)[0 := 0], csrs := retire_instruction (csrs cpu4)\<rparr>
          else cpu4\<lparr>registers := (registers cpu4)[0 := 0]\<rparr>, record4))"
    using assms(2) f tr same
    by (simp add: step_def start_record_def c_def ticked_def Let_def aligned4_iff r1_def split: sum.split)
  then have s: "cpu' = (if sr_trap r2 = None then cpu1\<lparr>csrs := retire_instruction (csrs cpu1)\<rparr> else cpu1)"
    "r = (if sr_trap r2 = None then ?r else r2)"
    using assms(4) ex z rt by (auto simp: Let_def split: if_splits)
  then have "sr_trap r = sr_trap r2" by simp
  then show thesis using that [of r1 cpu1 r2 completed] x fr s(1) c_def issued_def by (simp add: executes_def)
qed

subsection \<open>Control transfer\<close>

text \<open>The next address of every instruction that does not return from a trap, on integers.\<close>

definition branch_operations :: "Operation set" where
  "branch_operations = {Beq, Bne, Blt, Bge, Bltu, Bgeu}"

definition isa_taken :: "Operation \<Rightarrow> int \<Rightarrow> int \<Rightarrow> bool" where
  "isa_taken op a b =
     (if op = Beq then a = b
      else if op = Bne then a \<noteq> b
      else if op = Blt then a < b
      else if op = Bge then \<not> a < b
      else if op = Bltu then isa_unsigned a < isa_unsigned b
      else \<not> isa_unsigned a < isa_unsigned b)"

definition isa_next_pc :: "Operation \<Rightarrow> int \<Rightarrow> int \<Rightarrow> int \<Rightarrow> int \<Rightarrow> int" where
  "isa_next_pc op p a b imm =
     (if op = Jal then p + imm
      else if op = Jalr then 2 * ((a + imm) div 2)
      else if op \<in> branch_operations \<and> isa_taken op a b then p + imm
      else p + 4)"

lemma branch_taken_isa: "branch_taken op a b \<longleftrightarrow> isa_taken op (sint a) (sint b)"
proof -
  have "a = b \<longleftrightarrow> sint a = sint b" by (auto intro: signed_word_eqI)
  then show ?thesis
    by (simp add: branch_taken_def isa_taken_def isa_unsigned_sint word_less_def word_le_def not_less)
qed

lemma and_not_1_int: "k AND NOT 1 = 2 * (k div 2)" for k :: int
proof (rule bit_eqI)
  fix n
  show "bit (k AND NOT 1) n = bit (2 * (k div 2)) n"
    unfolding bit_and_iff bit_not_iff bit_1_iff bit_double_iff by (cases n) (simp_all add: bit_Suc)
qed

lemma and_not_1_isa: "(a + b :: u64) AND NOT 1 = word_of_int (2 * ((sint a + sint b) div 2))"
proof -
  have "(a + b) AND NOT 1 = word_of_int ((sint a + sint b) AND NOT 1)"
    by (simp add: wi_hom_add [symmetric] word_wi_log_defs [symmetric])
  then show ?thesis by (simp only: and_not_1_int)
qed

lemma mod_instruction_bytes: "(word_of_int k :: u64) mod kInstructionBytes = 0 \<longleftrightarrow> k mod 4 = 0"
proof -
  have "(word_of_int k :: u64) mod kInstructionBytes = take_bit 2 (word_of_int k)"
    by (simp add: kInstructionBytes_def take_bit_eq_mod)
  also have "\<dots> = word_of_int (take_bit 2 k)" by (rule bit_word_eqI) (simp add: bit_simps)
  finally have "(word_of_int k :: u64) mod kInstructionBytes = word_of_int (k mod 4)" by (simp add: take_bit_eq_mod)
  moreover have "(word_of_int (k mod 4) :: u64) = 0 \<longleftrightarrow> k mod 4 = 0"
    using zdvd_imp_le [of "2 ^ 64" "k mod 4"] pos_mod_bound [of 4 k] pos_mod_sign [of 4 k]
    by (auto simp: word_of_int_eq_0_iff)
  ultimately show ?thesis by simp
qed

definition control_operations :: "Operation set" where
  "control_operations = {Jal, Jalr} \<union> branch_operations"

definition isa_link :: "Operation \<Rightarrow> u8 \<Rightarrow> u64 \<Rightarrow> u64 list \<Rightarrow> u64 list" where
  "isa_link op rd p regs = (if op \<in> {Jal, Jalr} \<and> rd \<noteq> 0 then regs[unat rd := p + 4] else regs)"

text \<open>A transfer of control to \<open>t\<close>, or the trap of a target that is not four-byte aligned.\<close>

definition transfers :: "Cpu \<Rightarrow> CsrFile \<Rightarrow> u64 \<Rightarrow> int \<Rightarrow> u64 list \<Rightarrow> Cpu \<Rightarrow> StepRecord \<Rightarrow> bool" where
  "transfers cpu f p t regs cpu' r \<longleftrightarrow>
     (if t mod 4 = 0
      then sr_trap r = None \<and> pc cpu' = word_of_int t \<and> bus cpu' = bus cpu \<and> registers cpu' = regs \<and>
        continues cpu f cpu'
      else \<exists>d. sr_trap r = Some \<lparr>trap_cause = InstructionAddressMisaligned, trap_pc = p,
        trap_value = word_of_int t, trap_detail = d\<rparr>)"

lemma write_register_fields [simp]:
  "sr_trap (snd (write_register cpu r i v)) = sr_trap r" "bus (fst (write_register cpu r i v)) = bus cpu"
  "pc (fst (write_register cpu r i v)) = pc cpu" "csrs (fst (write_register cpu r i v)) = csrs cpu"
  "privilege (fst (write_register cpu r i v)) = privilege cpu" "halted (fst (write_register cpu r i v)) = halted cpu"
  "config (fst (write_register cpu r i v)) = config cpu"
  "registers (fst (write_register cpu r i v)) = (if i = 0 then registers cpu else (registers cpu)[unat i := v])"
  by (simp_all add: write_register_def)

lemma jump_transfers:
  assumes "fresh r" "jump cpu r rd s (word_of_int t) = (cpu', r', completed)"
  shows "transfers cpu (csrs cpu) (sr_pc r) t (if rd = 0 then registers cpu else (registers cpu)[unat rd := s]) cpu' r'"
proof (cases "t mod 4 = 0")
  case True
  then show ?thesis
    using assms by (auto simp: jump_def mod_instruction_bytes split_beta transfers_def fresh_def continues_def)
next
  case False
  then have "r' = snd (raise_trap cpu r InstructionAddressMisaligned (word_of_int t) ''jump target is not four-byte aligned'')"
    using assms(2) by (auto simp: jump_def mod_instruction_bytes finish_def)
  then show ?thesis using False by (simp add: transfers_def)
qed

lemma branch_transfers:
  assumes "fresh r" "branch cpu r imm taken = (cpu', r')"
    "t = (if taken then sint (sr_pc r) + sint imm else k)" "k mod 4 = 0" "pc cpu = word_of_int k"
  shows "transfers cpu (csrs cpu) (sr_pc r) t (registers cpu) cpu' r'"
proof (cases taken)
  case True
  then have target: "add_offset (sr_pc r) imm = word_of_int t"
    using assms(3) by (simp add: add_offset_def wi_hom_add [symmetric])
  have b: "(if t mod 4 \<noteq> 0 then raise_trap cpu r InstructionAddressMisaligned (word_of_int t)
      ''taken branch target is not four-byte aligned'' else (cpu\<lparr>pc := word_of_int t\<rparr>, r)) = (cpu', r')"
    using assms(2) True by (simp only: branch_def target Let_def mod_instruction_bytes if_False not_True_eq_False)
  show ?thesis
  proof (cases "t mod 4 = 0")
    case True
    then show ?thesis using b assms(1) by (auto simp: transfers_def fresh_def continues_def)
  next
    case False
    then have "r' = snd (raise_trap cpu r InstructionAddressMisaligned (word_of_int t)
      ''taken branch target is not four-byte aligned'')" using b by (simp only: if_True) simp
    then show ?thesis using False by (simp add: transfers_def)
  qed
next
  case False
  then show ?thesis using assms by (auto simp: branch_def transfers_def fresh_def continues_def)
qed

lemma transfers_issued [simp]: "transfers (issued cpu) = transfers cpu"
  by (intro ext) (simp add: transfers_def continues_def)

lemma execute_control:
  assumes "di_operation ins \<in> control_operations" "fresh r" "sr_pc r = p" "aligned4 p" "pc cpu = p + 4"
    "execute_operation cpu r ins lhs rhs (p + kInstructionBytes) = Inr (cpu', r', completed)"
  shows "transfers cpu (csrs cpu) p (isa_next_pc (di_operation ins) (sint p) (sint lhs) (sint rhs) (sint (di_immediate ins)))
    (isa_link (di_operation ins) (di_rd ins) p (registers cpu)) cpu' r'"
proof -
  let ?op = "di_operation ins" and ?imm = "di_immediate ins"
  have aligned: "(sint p + 4) mod 4 = 0"
    using assms(4) mod_instruction_bytes [of "sint p"] by (simp add: aligned4_iff)
  consider "?op = Jal" | "?op = Jalr" | "?op \<in> branch_operations"
    using assms(1) by (auto simp: control_operations_def)
  then show ?thesis
  proof cases
    case 1
    then have "jump cpu r (di_rd ins) (p + kInstructionBytes) (word_of_int (sint p + sint ?imm)) = (cpu', r', completed)"
      using assms(6) by (simp add: execute_operation_def exec_control_def Let_def add_offset_def assms(3))
    from jump_transfers [OF assms(2) this] show ?thesis
      using 1 by (simp add: isa_next_pc_def isa_link_def assms(3) kInstructionBytes_def split: if_splits)
  next
    case 2
    then have "jump cpu r (di_rd ins) (p + kInstructionBytes)
        (word_of_int (2 * ((sint lhs + sint ?imm) div 2))) = (cpu', r', completed)"
      using assms(6) unfolding and_not_1_isa [symmetric]
      by (simp add: execute_operation_def exec_control_def Let_def add_offset_def)
    from jump_transfers [OF assms(2) this] show ?thesis
      using 2 by (simp add: isa_next_pc_def isa_link_def assms(3) kInstructionBytes_def split: if_splits)
  next
    case 3
    then have "branch cpu r ?imm (isa_taken ?op (sint lhs) (sint rhs)) = (cpu', r')"
      using assms(6)
      by (auto simp: execute_operation_def exec_control_def Let_def branch_taken_isa branch_operations_def finish_def)
    from branch_transfers [OF assms(2) this refl aligned] assms(5) show ?thesis
      using 3 by (auto simp: isa_next_pc_def isa_link_def assms(3) kInstructionBytes_def
        wi_hom_add [symmetric] branch_operations_def)
  qed
qed

text \<open>The whole step of a control transfer.\<close>

lemma step_control:
  assumes "cpu_ok cpu" "\<not> halted cpu" "fetches cpu ins" "step cpu = Inr (cpu', r)"
    "di_operation ins \<in> control_operations"
  shows "transfers cpu (counted cpu) (pc cpu) (isa_next_pc (di_operation ins) (sint (pc cpu))
      (sint (source1 cpu ins)) (sint (source2 cpu ins)) (sint (di_immediate ins)))
    (isa_link (di_operation ins) (di_rd ins) (pc cpu) (registers cpu)) cpu' r"
proof -
  obtain r1 cpu1 r2 completed where "executes cpu ins cpu' r r1 (cpu1, r2, completed)"
    using step_fetched [OF assms(1-4)] .
  note x = executesD [OF this]
  have "aligned4 (pc cpu)" using assms(3) by (simp add: fetches_def)
  from execute_control [OF assms(5) x(2,3) this issued_fields(5) x(1)] show ?thesis
    using x(4,5) by (simp add: transfers_def continues_def counted_def split: if_splits)
qed

subsection \<open>Loads and stores\<close>

definition load_operations :: "Operation set" where
  "load_operations = {Lb, Lh, Lw, Ld, Lbu, Lhu, Lwu}"

definition store_operations :: "Operation set" where
  "store_operations = {Sb, Sh, Sw, Sd}"

definition access_width :: "Operation \<Rightarrow> nat" where
  "access_width op =
     (if op \<in> {Lb, Lbu, Sb} then 1 else if op \<in> {Lh, Lhu, Sh} then 2 else if op \<in> {Lw, Lwu, Sw} then 4 else 8)"

text \<open>The number that \<open>w\<close> bytes in little-endian order denote, and the value a load makes of it.\<close>

definition isa_bytes :: "(nat \<Rightarrow> u8) \<Rightarrow> nat \<Rightarrow> int" where
  "isa_bytes f w = (\<Sum>i<w. uint (f i) * 256 ^ i)"

definition isa_load :: "Operation \<Rightarrow> (nat \<Rightarrow> u8) \<Rightarrow> int" where
  "isa_load op f =
     (let w = access_width op; n = isa_bytes f w
      in if op \<in> {Lb, Lh, Lw} \<and> 2 * n \<ge> 256 ^ w then n - 256 ^ w else n)"

lemma isa_bytes_Suc [simp]: "isa_bytes f (Suc w) = isa_bytes f w + uint (f w) * 256 ^ w"
  by (simp add: isa_bytes_def)

lemma isa_bytes_0 [simp]: "isa_bytes f 0 = 0"
  by (simp add: isa_bytes_def)

lemma isa_bytes_range: "0 \<le> isa_bytes f w \<and> isa_bytes f w < 256 ^ w"
proof (induction w)
  case (Suc w)
  have "uint (f w) \<le> 255" using uint_lt2p [of "f w"] by simp
  then have "uint (f w) * 256 ^ w \<le> 255 * 256 ^ w" by (rule mult_right_mono) simp
  moreover have "0 \<le> uint (f w) * 256 ^ w" by simp
  ultimately show ?case using Suc unfolding isa_bytes_Suc power_Suc by linarith
qed simp

lemma le_value_isa: "le_value f w = word_of_int (isa_bytes f w)"
proof (induction w)
  case (Suc w)
  have "le_value f w OR push_bit (w * 8) (ucast (f w)) = le_value f w + push_bit (w * 8) (ucast (f w))"
    by (rule disjunctive_add [symmetric]) (auto simp: bit_le_value bit_simps)
  moreover have "push_bit (w * 8) (ucast (f w)) = (word_of_int (uint (f w) * 256 ^ w) :: u64)"
  proof -
    have "(256 :: int) ^ w = 2 ^ (w * 8)" by (simp add: power_mult mult.commute [of w])
    then have "uint (f w) * 256 ^ w = push_bit (w * 8) (uint (f w))" by (simp only: push_bit_eq_mult)
    then show ?thesis by (intro bit_word_eqI) (auto simp: bit_simps)
  qed
  ultimately show ?case using Suc by (simp only: le_value_Suc isa_bytes_Suc wi_hom_add)
qed simp

lemma signed_take_bit_top:
  fixes n :: int
  assumes "0 \<le> n" "n < 2 ^ Suc k"
  shows "signed_take_bit k n = (if 2 * n \<ge> 2 ^ Suc k then n - 2 ^ Suc k else n)"
proof -
  have "bit n k \<longleftrightarrow> 2 ^ k \<le> n"
  proof (cases "2 ^ k \<le> n")
    case True
    then have "n div 2 ^ k = 1" using assms by (intro int_div_pos_eq [of _ _ _ "n - 2 ^ k"]) simp_all
    then show ?thesis using True by (simp add: bit_iff_odd)
  next
    case False
    then show ?thesis using assms by (simp add: bit_iff_odd)
  qed
  moreover have "take_bit (Suc k) n = n" using assms by (simp add: take_bit_int_eq_self)
  ultimately show ?thesis by (simp add: signed_take_bit_eq_take_bit_minus)
qed

lemma signed_take_bit_word: "k < 64 \<Longrightarrow> signed_take_bit k (word_of_int n :: u64) = word_of_int (signed_take_bit k n)"
  by (rule bit_word_eqI) (auto simp: bit_simps min_def)

lemma load_value_isa:
  assumes "op \<in> load_operations"
  shows "(if \<not> is_unsigned_load op \<and> access_width op < 8 then sign_extend (le_value f (access_width op)) (access_width op * 8)
    else le_value f (access_width op)) = word_of_int (isa_load op f)"
proof (cases "op \<in> {Lb, Lh, Lw}")
  case True
  let ?w = "access_width op"
  have w: "0 < ?w" "?w < 8" using True by (auto simp: access_width_def)
  have e: "Suc (?w * 8 - 1) = ?w * 8" using w by simp
  have p: "(256 :: int) ^ ?w = 2 ^ Suc (?w * 8 - 1)" unfolding e by (simp add: power_mult mult.commute [of ?w])
  have "sign_extend (le_value f ?w) (?w * 8) = word_of_int (signed_take_bit (?w * 8 - 1) (isa_bytes f ?w))"
    using w by (simp add: sign_extend_signed_take_bit le_value_isa signed_take_bit_word)
  also have "signed_take_bit (?w * 8 - 1) (isa_bytes f ?w) = isa_load op f"
    using True isa_bytes_range [of f ?w] signed_take_bit_top [of "isa_bytes f ?w" "?w * 8 - 1"]
    unfolding isa_load_def Let_def p by simp
  finally show ?thesis using True w by (auto simp: is_unsigned_load_def)
next
  case False
  then show ?thesis using assms
    by (auto simp: load_operations_def is_unsigned_load_def access_width_def isa_load_def Let_def le_value_isa)
qed

lemma load_width_isa: "op \<in> load_operations \<Longrightarrow> load_width op = Inr (access_width op)"
  by (auto simp: load_operations_def load_width_def access_width_def)

lemma store_width_isa: "op \<in> store_operations \<Longrightarrow> store_width op = Inr (access_width op)"
  by (auto simp: store_operations_def store_width_def access_width_def)

lemma execute_load_operation:
  "di_operation ins \<in> load_operations \<Longrightarrow> execute_operation cpu r ins lhs rhs s = exec_memory cpu r ins lhs rhs"
  by (auto simp: load_operations_def execute_operation_def)

lemma execute_store_operation:
  "di_operation ins \<in> store_operations \<Longrightarrow>
     execute_operation cpu r ins lhs rhs s =
       Inr (store cpu r (add_offset lhs (di_immediate ins)) (access_width (di_operation ins)) rhs)"
  by (auto simp: store_operations_def execute_operation_def exec_memory_def store_width_def access_width_def)

text \<open>The address of an access, and what one step owes it: an access without a fault.\<close>

definition access_address :: "Cpu \<Rightarrow> DecodedInstruction \<Rightarrow> u64" where
  "access_address cpu ins =
     word_of_int (sint (source1 cpu ins) + sint (di_immediate ins))"

lemma access_address_offset:
  "add_offset (source1 cpu ins) (di_immediate ins) = access_address cpu ins"
  by (simp add: access_address_def add_offset_def wi_hom_add [symmetric])

lemma execute_load:
  assumes "di_operation ins \<in> load_operations" "translates cpu VirtualAccess.Load va pa"
    "unat va mod access_width (di_operation ins) = 0" "ram_accessible (bus cpu) pa (access_width (di_operation ins))"
    "add_offset lhs (di_immediate ins) = va"
  shows "execute_operation cpu r ins lhs rhs s = Inr (finish (write_register cpu
      (record_translation r VirtualAccess.Load \<lparr>at_virtual_address = va, at_physical_address = pa\<rparr>) (di_rd ins)
      (word_of_int (isa_load (di_operation ins) (\<lambda>i. bus_byte (bus cpu) (pa + of_nat i))))) True)"
proof -
  let ?op = "di_operation ins"
  have "load cpu r va (access_width ?op) (\<not> is_unsigned_load ?op) =
    (cpu, record_translation r VirtualAccess.Load \<lparr>at_virtual_address = va, at_physical_address = pa\<rparr>,
     Some (word_of_int (isa_load ?op (\<lambda>i. bus_byte (bus cpu) (pa + of_nat i)))))"
    using assms(3) load_value_isa [OF assms(1), of "\<lambda>i. bus_byte (bus cpu) (pa + of_nat i)"]
    by (simp add: load_def translate_success [OF assms(2)] bus_read_ram [OF assms(4)])
  then show ?thesis
    using assms(1,5) by (simp add: execute_load_operation exec_memory_def load_width_isa Let_def load_operations_def [symmetric] split_beta)
qed

lemma le_byte_masked: "i < w \<Longrightarrow> w \<le> 8 \<Longrightarrow> le_byte (v AND mask_for_width w) i = le_byte v i"
  by (rule bit_word_eqI) (auto simp: bit_le_byte mask_for_width_mask bit_simps)

lemma execute_store:
  assumes "di_operation ins \<in> store_operations" "translates cpu VirtualAccess.Store va pa"
    "unat va mod access_width (di_operation ins) = 0" "ram_accessible (bus cpu) pa (access_width (di_operation ins))"
    "add_offset lhs (di_immediate ins) = va"
    "execute_operation cpu r ins lhs rhs s = Inr (cpu', r', completed)"
  shows "sr_trap r' = sr_trap r \<and> registers cpu' = registers cpu \<and> pc cpu' = pc cpu \<and>
    continues cpu (csrs cpu) cpu' \<and> fst (bus_write (bus cpu) pa (access_width (di_operation ins))
      (rhs AND mask_for_width (access_width (di_operation ins))) AccessKind.Store) = bus cpu' \<and>
    (\<forall>a u. ram_accessible (bus cpu') a u = ram_accessible (bus cpu) a u) \<and>
    (\<forall>x. bus_byte (bus cpu') x =
       (if unat (x - pa) < access_width (di_operation ins) then le_byte rhs (unat (x - pa)) else bus_byte (bus cpu) x))"
proof -
  let ?w = "access_width (di_operation ins)" and ?v = "rhs AND mask_for_width (access_width (di_operation ins))"
  have ok: "snd (bus_write (bus cpu) pa ?w ?v AccessKind.Store) = None"
    using assms(4) by (rule bus_write_ram [where v = ?v and k = AccessKind.Store]) simp
  have "?w \<le> 8" by (simp add: access_width_def)
  have "store cpu r va ?w rhs = (cpu', r', completed)" using assms(1,5,6) by (simp add: execute_store_operation)
  then have "cpu' = cpu\<lparr>bus := fst (bus_write (bus cpu) pa ?w ?v AccessKind.Store)\<rparr>" "sr_trap r' = sr_trap r"
    using assms(3) ok by (auto simp: store_def translate_success [OF assms(2)] Let_def split_beta)
  then show ?thesis
    using \<open>?w \<le> 8\<close> by (simp add: bus_write_byte [OF assms(4)] bus_write_accessible [OF assms(4)] le_byte_masked continues_def)
qed

text \<open>The faults of an access: misaligned, or without a translation or a device.\<close>

definition misaligned_cause :: "Operation \<Rightarrow> TrapCause" where
  "misaligned_cause op = (if op \<in> load_operations then LoadAddressMisaligned else StoreAddressMisaligned)"

definition access_kind :: "Operation \<Rightarrow> VirtualAccess" where
  "access_kind op = (if op \<in> load_operations then VirtualAccess.Load else VirtualAccess.Store)"

lemma load_misaligned:
  "unat va mod w \<noteq> 0 \<Longrightarrow> 0 < w \<Longrightarrow> load cpu r va w sg =
     (fst (raise_trap cpu r LoadAddressMisaligned va ''load address is not naturally aligned''),
      snd (raise_trap cpu r LoadAddressMisaligned va ''load address is not naturally aligned''), None)"
  by (cases "w = 1") (auto simp: load_def split_beta)

lemma store_misaligned:
  "unat va mod w \<noteq> 0 \<Longrightarrow> 0 < w \<Longrightarrow> store cpu r va w v =
     (fst (raise_trap cpu r StoreAddressMisaligned va ''store address is not naturally aligned''),
      snd (raise_trap cpu r StoreAddressMisaligned va ''store address is not naturally aligned''), False)"
  by (cases "w = 1") (auto simp: store_def split_beta)

lemma load_untranslated:
  assumes "\<not> (\<exists>pa. translates cpu VirtualAccess.Load va pa)" "w > 1 \<longrightarrow> unat va mod w = 0"
    "c = (if unreadable_tables cpu va then LoadAccessFault else LoadPageFault)"
  shows "\<exists>d. load cpu r va w sg = (fst (raise_trap cpu r c va d), snd (raise_trap cpu r c va d), None)"
  using translate_failure [OF assms(1), of r] assms(2,3)
  by (fastforce simp: load_def page_fault_cause_def access_fault_cause_def)

lemma store_untranslated:
  assumes "\<not> (\<exists>pa. translates cpu VirtualAccess.Store va pa)" "w > 1 \<longrightarrow> unat va mod w = 0"
    "c = (if unreadable_tables cpu va then StoreAccessFault else StorePageFault)"
  shows "\<exists>d. store cpu r va w v = (fst (raise_trap cpu r c va d), snd (raise_trap cpu r c va d), False)"
  using translate_failure [OF assms(1), of r] assms(2,3)
  by (fastforce simp: store_def Let_def page_fault_cause_def access_fault_cause_def)

lemma load_refused:
  assumes "translates cpu VirtualAccess.Load va pa" "w > 1 \<longrightarrow> unat va mod w = 0"
    "bus_read (bus cpu) pa w AccessKind.Load = Inl e"
  shows "\<exists>d r1. sr_pc r1 = sr_pc r \<and> load cpu r va w sg =
    (fst (raise_trap cpu r1 LoadAccessFault va d), snd (raise_trap cpu r1 LoadAccessFault va d), None)"
proof -
  let ?r = "record_translation r VirtualAccess.Load \<lparr>at_virtual_address = va, at_physical_address = pa\<rparr>"
  have "sr_pc ?r = sr_pc r" by simp
  then show ?thesis using assms(2,3)
    by (intro exI [of _ "bf_detail e"] exI [of _ ?r]) (auto simp: load_def translate_success [OF assms(1)] split_beta)
qed

lemma store_refused:
  assumes "translates cpu VirtualAccess.Store va pa" "w > 1 \<longrightarrow> unat va mod w = 0"
    "snd (bus_write (bus cpu) pa w (v AND mask_for_width w) AccessKind.Store) \<noteq> None"
  shows "\<exists>d r1. sr_pc r1 = sr_pc r \<and> store cpu r va w v =
    (fst (raise_trap cpu r1 StoreAccessFault va d), snd (raise_trap cpu r1 StoreAccessFault va d), False)"
proof -
  obtain b e where "bus_write (bus cpu) pa w (v AND mask_for_width w) AccessKind.Store = (b, Some e)"
    using assms(3) by (cases "bus_write (bus cpu) pa w (v AND mask_for_width w) AccessKind.Store") auto
  with bus_write_error have e: "bus_write (bus cpu) pa w (v AND mask_for_width w) AccessKind.Store = (bus cpu, Some e)"
    by blast
  let ?r = "record_translation r VirtualAccess.Store \<lparr>at_virtual_address = va, at_physical_address = pa\<rparr>"
  have "cpu\<lparr>bus := bus cpu\<rparr> = cpu" "sr_pc ?r = sr_pc r" by simp_all
  then show ?thesis using assms(2) e
    by (intro exI [of _ "bf_detail e"] exI [of _ ?r]) (auto simp: store_def translate_success [OF assms(1)] Let_def split_beta)
qed

text \<open>
  An access that cannot be performed: the address has no translation, or the bus refuses the access at
  the translated address, since no device is there or since the device does.
\<close>

definition refused :: "Bus \<Rightarrow> Operation \<Rightarrow> u64 \<Rightarrow> u64 \<Rightarrow> bool" where
  "refused b op v pa \<longleftrightarrow>
     (if op \<in> load_operations then \<exists>e. bus_read b pa (access_width op) AccessKind.Load = Inl e
      else snd (bus_write b pa (access_width op) (v AND mask_for_width (access_width op)) AccessKind.Store) \<noteq> None)"

definition unreachable :: "Cpu \<Rightarrow> Operation \<Rightarrow> u64 \<Rightarrow> u64 \<Rightarrow> bool" where
  "unreachable cpu op va v \<longleftrightarrow> (\<forall>pa. translates cpu (access_kind op) va pa \<longrightarrow> refused (bus cpu) op v pa)"

definition access_cause :: "Cpu \<Rightarrow> Operation \<Rightarrow> u64 \<Rightarrow> TrapCause" where
  "access_cause cpu op va =
     (if unat va mod access_width op \<noteq> 0 then misaligned_cause op
      else if (\<exists>pa. translates cpu (access_kind op) va pa) \<or> unreadable_tables cpu va
      then (if op \<in> load_operations then LoadAccessFault else StoreAccessFault)
      else (if op \<in> load_operations then LoadPageFault else StorePageFault))"

lemma load_fault:
  assumes "op \<in> load_operations" "w = access_width op" "unat va mod w \<noteq> 0 \<or> unreachable cpu op va v"
    "c = access_cause cpu op va"
  shows "\<exists>d r1. sr_pc r1 = sr_pc r \<and>
    load cpu r va w sg = (fst (raise_trap cpu r1 c va d), snd (raise_trap cpu r1 c va d), None)"
proof (cases "unat va mod w = 0")
  case False
  have "0 < w" using assms(2) by (simp add: access_width_def)
  then show ?thesis using load_misaligned [OF False, of cpu r sg] False assms(1,2,4)
    by (auto simp: access_cause_def misaligned_cause_def)
next
  case True
  then show ?thesis
    using load_untranslated [of cpu va w _ r sg] load_refused [of cpu va _ w _ r sg] assms
    by (cases "\<exists>pa. translates cpu VirtualAccess.Load va pa")
      (fastforce simp: access_cause_def access_kind_def unreachable_def refused_def)+
qed

lemma store_fault:
  assumes "op \<in> store_operations" "w = access_width op" "unat va mod w \<noteq> 0 \<or> unreachable cpu op va v"
    "c = access_cause cpu op va"
  shows "\<exists>d r1. sr_pc r1 = sr_pc r \<and>
    store cpu r va w v = (fst (raise_trap cpu r1 c va d), snd (raise_trap cpu r1 c va d), False)"
proof (cases "unat va mod w = 0")
  case False
  have "0 < w" "op \<notin> load_operations" using assms(1,2) by (auto simp: access_width_def store_operations_def load_operations_def)
  then show ?thesis using store_misaligned [OF False, of cpu r v] False assms(1,2,4)
    by (auto simp: access_cause_def misaligned_cause_def)
next
  case True
  have "op \<notin> load_operations" using assms(1) by (auto simp: store_operations_def load_operations_def)
  with True show ?thesis
    using store_untranslated [of cpu va w _ r v] store_refused [of cpu va _ w v r] assms
    by (cases "\<exists>pa. translates cpu VirtualAccess.Store va pa")
      (fastforce simp: access_cause_def access_kind_def unreachable_def refused_def)+
qed

subsection \<open>Whole steps of loads and stores\<close>

lemma step_load:
  assumes "cpu_ok cpu" "\<not> halted cpu" "fetches cpu ins" "step cpu = Inr (cpu', r)"
    "di_operation ins \<in> load_operations" "unat (access_address cpu ins) mod access_width (di_operation ins) = 0"
    "translates cpu VirtualAccess.Load (access_address cpu ins) pa"
    "ram_accessible (bus cpu) pa (access_width (di_operation ins))"
  shows "sr_trap r = None \<and> bus cpu' = bus cpu \<and> pc cpu' = pc cpu + 4 \<and> continues cpu (counted cpu) cpu' \<and>
    registers cpu' = (if di_rd ins = 0 then registers cpu else (registers cpu)[unat (di_rd ins) :=
      word_of_int (isa_load (di_operation ins) (\<lambda>i. bus_byte (bus cpu) (pa + of_nat i)))])"
proof -
  obtain r1 cpu1 r2 completed where "executes cpu ins cpu' r r1 (cpu1, r2, completed)"
    using step_fetched [OF assms(1-4)] .
  note x = executesD [OF this]
  have "translates (issued cpu) VirtualAccess.Load (access_address cpu ins) pa" "bus (issued cpu) = bus cpu" "registers (issued cpu) = registers cpu"
    using assms(7) by simp (simp_all add: ticked_def)
  then show ?thesis
    using x execute_load [OF assms(5), of "issued cpu" "access_address cpu ins" pa] assms(6,8)
    by (auto simp: access_address_offset finish_def fresh_def kInstructionBytes_def continues_def counted_def)
qed

lemma step_store:
  assumes "cpu_ok cpu" "\<not> halted cpu" "fetches cpu ins" "step cpu = Inr (cpu', r)"
    "di_operation ins \<in> store_operations" "unat (access_address cpu ins) mod access_width (di_operation ins) = 0"
    "translates cpu VirtualAccess.Store (access_address cpu ins) pa"
    "ram_accessible (bus cpu) pa (access_width (di_operation ins))"
  shows "sr_trap r = None \<and> registers cpu' = registers cpu \<and> pc cpu' = pc cpu + 4 \<and>
    continues cpu (counted cpu) cpu' \<and>
    fst (bus_write (bus cpu) pa (access_width (di_operation ins))
      (source2 cpu ins AND mask_for_width (access_width (di_operation ins))) AccessKind.Store) = bus cpu' \<and>
    (\<forall>a u. ram_accessible (bus cpu') a u = ram_accessible (bus cpu) a u) \<and>
    (\<forall>x. bus_byte (bus cpu') x =
       (if unat (x - pa) < access_width (di_operation ins)
        then le_byte (source2 cpu ins) (unat (x - pa)) else bus_byte (bus cpu) x))"
proof -
  obtain r1 cpu1 r2 completed where "executes cpu ins cpu' r r1 (cpu1, r2, completed)"
    using step_fetched [OF assms(1-4)] .
  note x = executesD [OF this]
  have c: "translates (issued cpu) VirtualAccess.Store (access_address cpu ins) pa" "bus (issued cpu) = bus cpu" "registers (issued cpu) = registers cpu"
    using assms(7) by simp (simp_all add: ticked_def)
  from execute_store [OF assms(5) c(1) assms(6) _ access_address_offset x(1)] show ?thesis
    using x(2,4,5) assms(8) c(2,3)
    by (simp add: fresh_def kInstructionBytes_def continues_def counted_def)
qed

lemma step_access_fault:
  assumes "cpu_ok cpu" "\<not> halted cpu" "fetches cpu ins" "step cpu = Inr (cpu', r)"
    "di_operation ins \<in> load_operations \<union> store_operations"
    "unat (access_address cpu ins) mod access_width (di_operation ins) \<noteq> 0 \<or>
     unreachable cpu (di_operation ins) (access_address cpu ins) (source2 cpu ins)"
  shows "\<exists>d. sr_trap r = Some \<lparr>trap_cause = access_cause cpu (di_operation ins) (access_address cpu ins), trap_pc = pc cpu,
    trap_value = access_address cpu ins, trap_detail = d\<rparr>"
proof -
  let ?op = "di_operation ins"
  let ?va = "access_address cpu ins" and ?rhs = "source2 cpu ins"
  let ?c = "access_cause cpu ?op ?va"
  obtain r1 cpu1 r2 completed where "executes cpu ins cpu' r r1 (cpu1, r2, completed)"
    using step_fetched [OF assms(1-4)] .
  note x = executesD [OF this]
  have u: "unat ?va mod access_width ?op \<noteq> 0 \<or> unreachable (issued cpu) ?op ?va ?rhs"
    using assms(6) by (simp add: unreachable_def)
  have c: "?c = access_cause (issued cpu) ?op ?va" by (simp add: access_cause_def)
  show ?thesis
  proof (cases "?op \<in> load_operations")
    case True
    then obtain d r3 where l: "sr_pc r3 = sr_pc r1"
      "load (issued cpu) r1 ?va (access_width ?op) (\<not> is_unsigned_load ?op) =
        (fst (raise_trap (issued cpu) r3 ?c ?va d), snd (raise_trap (issued cpu) r3 ?c ?va d), None)"
      using load_fault [OF True refl _ c, of ?rhs r1 "\<not> is_unsigned_load ?op"] u by (auto simp: access_kind_def)
    have "sr_trap r2 = sr_trap (snd (raise_trap (issued cpu) r3 ?c ?va d))"
      using x(1) True l(2)
      by (auto simp: execute_load_operation exec_memory_def load_width_isa Let_def load_operations_def [symmetric]
          access_address_offset)
    then show ?thesis using l(1) x(3,4) by auto
  next
    case False
    then have st: "?op \<in> store_operations" using assms(5) by simp
    then obtain d r3 where l: "sr_pc r3 = sr_pc r1"
      "store (issued cpu) r1 ?va (access_width ?op) ?rhs =
        (fst (raise_trap (issued cpu) r3 ?c ?va d), snd (raise_trap (issued cpu) r3 ?c ?va d), False)"
      using store_fault [OF st refl _ c, of ?rhs r1] u False by (auto simp: access_kind_def)
    have "sr_trap r2 = sr_trap (snd (raise_trap (issued cpu) r3 ?c ?va d))"
      using x(1) l(2) by (auto simp: execute_store_operation [OF st] access_address_offset)
    then show ?thesis using l(1) x(3,4) by auto
  qed
qed

subsection \<open>Whole steps of integer and CSR instructions\<close>

definition integer_operations :: "Operation set" where
  "integer_operations = {Lui, Auipc} \<union> alu_operations"

definition isa_integer :: "Operation \<Rightarrow> int \<Rightarrow> int \<Rightarrow> int \<Rightarrow> int \<Rightarrow> int" where
  "isa_integer op p a b imm =
     (if op = Lui then imm
      else if op = Auipc then p + imm
      else isa_result op a (if immediate_form op then imm else b))"

lemma execute_integer:
  assumes "decode raw = Inr ins" "di_operation ins \<in> integer_operations" "sr_pc r = p"
  shows "execute_operation cpu r ins lhs rhs s = Inr (finish (write_register cpu r (di_rd ins)
     (word_of_int (isa_integer (di_operation ins) (sint p) (sint lhs) (sint rhs) (sint (di_immediate ins))))) True)"
proof (cases "di_operation ins \<in> alu_operations")
  case True
  then have "di_operation ins \<noteq> Lui" "di_operation ins \<noteq> Auipc" by (auto simp: alu_operations_def)
  then show ?thesis by (simp add: execute_alu [OF assms(1) True] isa_integer_def)
next
  case False
  then consider "di_operation ins = Lui" | "di_operation ins = Auipc"
    using assms(2) by (auto simp: integer_operations_def)
  then show ?thesis
  proof cases
    case 1
    then show ?thesis by (simp add: execute_operation_def exec_control_def isa_integer_def)
  next
    case 2
    then show ?thesis by (simp add: execute_operation_def exec_control_def isa_integer_def assms(3) add_offset_def)
  qed
qed

lemma step_integer:
  assumes "cpu_ok cpu" "\<not> halted cpu" "fetches cpu ins" "step cpu = Inr (cpu', r)"
    "di_operation ins \<in> integer_operations"
  shows "sr_trap r = None \<and> bus cpu' = bus cpu \<and> pc cpu' = pc cpu + 4 \<and> continues cpu (counted cpu) cpu' \<and>
    registers cpu' = (if di_rd ins = 0 then registers cpu else (registers cpu)[unat (di_rd ins) :=
      word_of_int (isa_integer (di_operation ins) (sint (pc cpu)) (sint (source1 cpu ins))
        (sint (source2 cpu ins)) (sint (di_immediate ins)))])"
proof -
  obtain r1 cpu1 r2 completed where "executes cpu ins cpu' r r1 (cpu1, r2, completed)"
    using step_fetched [OF assms(1-4)] .
  note x = executesD [OF this]
  obtain raw where "decode raw = Inr ins" using assms(3) by (auto simp: fetches_def)
  from execute_integer [OF this assms(5) x(3), of "issued cpu"] have e: "(cpu1, r2, completed) =
      finish (write_register (issued cpu) r1 (di_rd ins) (word_of_int (isa_integer (di_operation ins) (sint (pc cpu))
        (sint (source1 cpu ins)) (sint (source2 cpu ins)) (sint (di_immediate ins))))) True"
    using x(1) by (metis sum.inject(2))
  have "bus (issued cpu) = bus cpu" "registers (issued cpu) = registers cpu" by (simp_all add: ticked_def)
  then show ?thesis using e x(2,4,5) by (simp add: finish_def fresh_def kInstructionBytes_def continues_def counted_def)
qed

definition csr_operations :: "Operation set" where
  "csr_operations = {Csrrw, Csrrs, Csrrc, Csrrwi, Csrrsi, Csrrci}"

text \<open>The source of a CSR instruction, the value it puts into the register, and whether it writes.\<close>

definition csr_source :: "Cpu \<Rightarrow> DecodedInstruction \<Rightarrow> u64" where
  "csr_source cpu ins =
     (if di_operation ins \<in> {Csrrwi, Csrrsi, Csrrci} then ucast (di_rs1 ins)
      else source1 cpu ins)"

definition csr_combined :: "Operation \<Rightarrow> u64 \<Rightarrow> u64 \<Rightarrow> u64" where
  "csr_combined op old source =
     (if op \<in> {Csrrw, Csrrwi} then source
      else if op \<in> {Csrrs, Csrrsi} then old OR source
      else old AND NOT source)"

definition csr_writes :: "Operation \<Rightarrow> u64 \<Rightarrow> bool" where
  "csr_writes op source \<longleftrightarrow> op \<in> {Csrrw, Csrrwi} \<or> source \<noteq> 0"

lemma csr_update_isa:
  "op \<in> csr_operations \<Longrightarrow> csr_writes op src \<Longrightarrow> csr_update op old src = (csr_combined op old src, True)"
  "op \<in> csr_operations \<Longrightarrow> \<not> csr_writes op src \<Longrightarrow> \<not> snd (csr_update op old src)"
  by (auto simp: csr_operations_def csr_writes_def csr_update_def csr_combined_def)

lemma execute_csr_operation:
  "di_operation ins \<in> csr_operations \<Longrightarrow>
     execute_operation cpu r ins (source1 cpu ins) rhs s = Inr (exec_csr cpu r ins (source1 cpu ins))"
  by (auto simp: csr_operations_def execute_operation_def)

lemma csr_read_permits:
  assumes "csr_read f a p = Inr old"
  shows "snd (csr_write f a v p) = None \<longleftrightarrow> \<not> csr_is_read_only a"
proof -
  have "validate_access f a p False = None" using assms by (auto simp: csr_read_def split: option.splits)
  then show ?thesis by (auto simp: csr_write_result validate_write_iff validate_read_iff)
qed

definition illegal_instruction :: "Cpu \<Rightarrow> DecodedInstruction \<Rightarrow> StepRecord \<Rightarrow> bool" where
  "illegal_instruction cpu ins r \<longleftrightarrow> (\<exists>d. sr_trap r = Some \<lparr>trap_cause = IllegalInstruction,
     trap_pc = pc cpu, trap_value = ucast (di_raw ins), trap_detail = d\<rparr>)"

lemma step_csr:
  assumes "cpu_ok cpu" "\<not> halted cpu" "fetches cpu ins" "step cpu = Inr (cpu', r)"
    "di_operation ins \<in> csr_operations" "f = tick_cycle (csrs cpu)"
    "w \<longleftrightarrow> csr_writes (di_operation ins) (csr_source cpu ins)"
  shows "case csr_read f (di_csr ins) (privilege cpu) of
      Inl e \<Rightarrow> illegal_instruction cpu ins r
    | Inr old \<Rightarrow>
        if w \<and> csr_is_read_only (di_csr ins) then illegal_instruction cpu ins r
        else sr_trap r = None \<and> bus cpu' = bus cpu \<and> pc cpu' = pc cpu + 4 \<and>
          registers cpu' = (if di_rd ins = 0 then registers cpu else (registers cpu)[unat (di_rd ins) := old]) \<and>
          continues cpu (retire_instruction (if w then fst (csr_write f (di_csr ins)
            (csr_combined (di_operation ins) old (csr_source cpu ins)) (privilege cpu)) else f)) cpu'"
proof -
  let ?op = "di_operation ins"
  obtain r1 cpu1 r2 completed where "executes cpu ins cpu' r r1 (cpu1, r2, completed)"
    using step_fetched [OF assms(1-4)] .
  note x = executesD [OF this]
  have c: "bus (issued cpu) = bus cpu" "registers (issued cpu) = registers cpu" "csrs (issued cpu) = f" "privilege (issued cpu) = privilege cpu"
    by (simp_all add: ticked_def assms(6))
  note t = c [simplified]
  have e: "exec_csr (issued cpu) r1 ins (source1 cpu ins) = (cpu1, r2, completed)"
    using x(1) assms(5) execute_csr_operation [of ins "issued cpu"] c(2) by (simp only: sum.inject)
  have src: "(if ?op = Csrrwi \<or> ?op = Csrrsi \<or> ?op = Csrrci then ucast (di_rs1 ins)
      else source1 cpu ins) = csr_source cpu ins" by (simp add: csr_source_def)
  let ?new = "\<lambda>old. csr_combined ?op old (csr_source cpu ins)"
  show ?thesis
  proof (cases "csr_read f (di_csr ins) (privilege cpu)")
    case (Inl err)
    then have "r2 = snd (raise_trap (issued cpu) r1 IllegalInstruction (ucast (di_raw ins)) (ce_detail err))"
      using e [unfolded exec_csr_def Let_def c Inl sum.case] by (simp add: finish_def)
    then show ?thesis using Inl x(3,4) by (simp add: illegal_instruction_def)
  next
    case old: (Inr old)
    note unfolded = e [unfolded exec_csr_def Let_def c old sum.case src]
    show ?thesis
    proof (cases w)
      case False
      then have "(cpu1, r2, completed) = finish (write_register (issued cpu) r1 (di_rd ins) old) True"
        using unfolded csr_update_isa(2) [OF assms(5)] assms(7) by (simp add: split_beta)
      then show ?thesis using False old x(2,4,5) by (simp add: finish_def fresh_def t kInstructionBytes_def continues_def)
    next
      case True
      then have u: "csr_update ?op old (csr_source cpu ins) = (?new old, True)"
        using csr_update_isa(1) [OF assms(5)] assms(7) by simp
      obtain f' err where w: "csr_write f (di_csr ins) (?new old) (privilege cpu) = (f', err)" by fastforce
      show ?thesis
      proof (cases err)
        case (Some d)
        then have "r2 = snd (raise_trap ((issued cpu)\<lparr>csrs := f'\<rparr>) r1 IllegalInstruction (ucast (di_raw ins)) (ce_detail d))"
          using unfolded by (simp add: u w finish_def)
        then show ?thesis
          using Some True old w csr_read_permits [OF old, of "?new old"] x(3,4)
          by (simp add: illegal_instruction_def)
      next
        case None
        then have "(cpu1, r2, completed) = finish (write_register ((issued cpu)\<lparr>csrs := f'\<rparr>) r1 (di_rd ins) old) True"
          using unfolded by (simp add: u w)
        then show ?thesis
          using None True old w csr_read_permits [OF old, of "?new old"] x(2,4,5)
          by (simp add: finish_def fresh_def t kInstructionBytes_def continues_def)
      qed
    qed
  qed
qed

end
