(* ===== verification/SystemSteps.thy ===== *)
theory SystemSteps
  imports Instructions
begin

text \<open>
  The steps of the SYSTEM and MISC-MEM instructions, and the steps that do not reach an instruction: a
  misaligned program counter, a fetch without a translation or a device, and an encoding that the decoder
  refuses.
\<close>

subsection \<open>Fences, calls, breakpoints, returns and waiting\<close>

definition system_operations :: "Operation set" where
  "system_operations = {Fence, FenceI, SfenceVma, Ecall, Ebreak, Sret, Mret, Wfi}"

lemma execute_system:
  "di_operation ins \<in> system_operations \<Longrightarrow> execute_operation cpu r ins lhs rhs s = Inr (exec_system cpu r ins)"
  by (auto simp: system_operations_def execute_operation_def)

text \<open>The step does nothing but advance.\<close>

definition advances :: "Cpu \<Rightarrow> StepRecord \<Rightarrow> Cpu \<Rightarrow> bool" where
  "advances cpu r cpu' \<longleftrightarrow> sr_trap r = None \<and> pc cpu' = pc cpu + 4 \<and> registers cpu' = registers cpu \<and>
     bus cpu' = bus cpu \<and> continues cpu (counted cpu) cpu'"

definition traps_with :: "Cpu \<Rightarrow> StepRecord \<Rightarrow> TrapCause \<Rightarrow> u64 \<Rightarrow> bool" where
  "traps_with cpu r c v \<longleftrightarrow> (\<exists>t. sr_trap r = Some t \<and> trap_cause t = c \<and> trap_pc t = pc cpu \<and> trap_value t = v)"

lemma traps_withI: "sr_pc r1 = pc cpu \<Longrightarrow> sr_trap r = sr_trap (snd (raise_trap c r1 cause v d)) \<Longrightarrow> traps_with cpu r cause v"
  by (simp add: traps_with_def)

lemma exec_ebreak_trap: "\<exists>d. sr_trap (snd (exec_ebreak cpu r)) = sr_trap (snd (raise_trap cpu r Breakpoint 0 d))"
  by (auto simp: exec_ebreak_def Let_def split_beta)

text \<open>What a step of each of these instructions does, with the privilege it needs.\<close>

lemma step_completes:
  assumes "cpu_ok cpu" "\<not> halted cpu" "fetches cpu ins" "step cpu = Inr (cpu', r)"
    "di_operation ins \<in> system_operations"
    "\<And>r1. \<exists>r2. exec_system (issued cpu) r1 ins = (c1, r2, True) \<and> sr_trap r2 = sr_trap r1"
  shows "sr_trap r = None \<and> cpu' = c1\<lparr>csrs := retire_instruction (csrs c1)\<rparr>"
proof -
  obtain r1 cpu1 r2 completed where "executes cpu ins cpu' r r1 (cpu1, r2, completed)"
    using step_fetched [OF assms(1-4)] .
  note x = executesD [OF this]
  have "exec_system (issued cpu) r1 ins = (cpu1, r2, completed)" using x(1) execute_system [OF assms(5)] by simp
  then have "cpu1 = c1" "sr_trap r2 = sr_trap r1" using assms(6) [of r1] by auto
  then show ?thesis using x(2,4,5) by (simp add: fresh_def)
qed

lemma step_raises:
  assumes "cpu_ok cpu" "\<not> halted cpu" "fetches cpu ins" "step cpu = Inr (cpu', r)"
    "di_operation ins \<in> system_operations"
    "\<And>r1. \<exists>c1 r2 d. exec_system (issued cpu) r1 ins = (c1, r2, False) \<and>
       sr_trap r2 = sr_trap (snd (raise_trap (issued cpu) r1 c v d))"
  shows "traps_with cpu r c v"
proof -
  obtain r1 cpu1 r3 completed where "executes cpu ins cpu' r r1 (cpu1, r3, completed)"
    using step_fetched [OF assms(1-4)] .
  note x = executesD [OF this]
  have "exec_system (issued cpu) r1 ins = (cpu1, r3, completed)" using x(1) execute_system [OF assms(5)] by simp
  then show ?thesis using assms(6) [of r1] traps_withI [OF x(3)] x(4) by auto
qed

lemma step_fence:
  assumes "cpu_ok cpu" "\<not> halted cpu" "fetches cpu ins" "step cpu = Inr (cpu', r)"
    "di_operation ins \<in> {Fence, FenceI} \<or> di_operation ins = SfenceVma \<and> privilege cpu \<noteq> User \<or>
     di_operation ins = Wfi \<and> \<not> halt_on_wfi (config cpu)"
  shows "advances cpu r cpu'"
proof -
  have "sr_trap r = None \<and> cpu' = (issued cpu)\<lparr>csrs := retire_instruction (csrs (issued cpu))\<rparr>"
    by (rule step_completes [OF assms(1-4)])
      (use assms(5) in \<open>auto simp: exec_system_def system_operations_def Let_def\<close>)
  then show ?thesis by (simp add: advances_def continues_def counted_def)
qed

text \<open>A return leaves the handler: the mode, the address and the stack of interrupt enables go back.\<close>

lemma step_return:
  assumes "cpu_ok cpu" "\<not> halted cpu" "fetches cpu ins" "step cpu = Inr (cpu', r)"
    "di_operation ins = Sret \<and> privilege cpu \<noteq> User \<and> mode = SupervisorReturn \<or>
     di_operation ins = Mret \<and> privilege cpu = Machine \<and> mode = MachineReturn"
    "return_from_trap (tick_cycle (csrs cpu)) mode = (f, t)"
  shows "sr_trap r = None \<and> registers cpu' = registers cpu \<and> bus cpu' = bus cpu \<and>
    pc cpu' = tr_pc t \<and> privilege cpu' = tr_target t \<and> csrs cpu' = retire_instruction f"
proof -
  have "sr_trap r = None \<and> cpu' = (exec_return (issued cpu) mode)\<lparr>csrs := retire_instruction (csrs (exec_return (issued cpu) mode))\<rparr>"
    by (rule step_completes [OF assms(1-4)])
      (use assms(5) in \<open>auto simp: exec_system_def system_operations_def Let_def\<close>)
  then show ?thesis using assms(6) by (simp add: exec_return_def)
qed

lemma step_wfi:
  assumes "cpu_ok cpu" "\<not> halted cpu" "fetches cpu ins" "step cpu = Inr (cpu', r)"
    "di_operation ins = Wfi" "halt_on_wfi (config cpu)"
  shows "sr_trap r = None \<and> halted cpu' \<and> pc cpu' = pc cpu + 4 \<and> registers cpu' = registers cpu \<and>
    bus cpu' = bus cpu \<and> csrs cpu' = counted cpu"
proof -
  let ?c = "(issued cpu)\<lparr>halted := True, halt_detail := ''WFI reached with no interrupt source configured''\<rparr>"
  have "sr_trap r = None \<and> cpu' = ?c\<lparr>csrs := retire_instruction (csrs ?c)\<rparr>"
    by (rule step_completes [OF assms(1-4)])
      (use assms(5,6) in \<open>auto simp: exec_system_def system_operations_def Let_def\<close>)
  then show ?thesis by (simp add: counted_def)
qed

lemma step_ecall:
  assumes "cpu_ok cpu" "\<not> halted cpu" "fetches cpu ins" "step cpu = Inr (cpu', r)" "di_operation ins = Ecall"
  shows "traps_with cpu r (fst (ecall_cause (privilege cpu))) 0"
  by (rule step_raises [OF assms(1-4)])
    (auto simp: assms(5) exec_system_def system_operations_def finish_def split_beta)

lemma step_ebreak:
  assumes "cpu_ok cpu" "\<not> halted cpu" "fetches cpu ins" "step cpu = Inr (cpu', r)" "di_operation ins = Ebreak"
  shows "traps_with cpu r Breakpoint 0"
  by (rule step_raises [OF assms(1-4)])
    (use exec_ebreak_trap in \<open>auto simp: assms(5) exec_system_def system_operations_def finish_def\<close>)

lemma step_privileged:
  assumes "cpu_ok cpu" "\<not> halted cpu" "fetches cpu ins" "step cpu = Inr (cpu', r)"
    "di_operation ins \<in> {SfenceVma, Sret} \<and> privilege cpu = User \<or> di_operation ins = Mret \<and> privilege cpu \<noteq> Machine"
  shows "traps_with cpu r IllegalInstruction (ucast (di_raw ins))"
  by (rule step_raises [OF assms(1-4)])
    (use assms(5) in \<open>auto simp: exec_system_def system_operations_def finish_def Let_def\<close>)

subsection \<open>Steps that do not reach an instruction\<close>

lemma step_unfold:
  assumes "\<not> halted cpu"
  shows "step cpu =
    (if pc cpu mod kInstructionBytes \<noteq> 0
     then Inr (raise_trap (ticked cpu) (start_record cpu) InstructionAddressMisaligned (pc cpu)
       ''program counter is not four-byte aligned'')
     else case translate (ticked cpu) (start_record cpu) (pc cpu) VirtualAccess.InstructionFetch of
       (cpu2, r2, None) \<Rightarrow> Inr (cpu2, r2)
     | (cpu2, r2, Some fetch) \<Rightarrow>
         (case bus_read (bus cpu2) fetch 4 AccessKind.InstructionFetch of
            Inl flt \<Rightarrow> Inr (raise_trap cpu2 r2 InstructionAccessFault (pc cpu2) (bf_detail flt))
          | Inr fetched \<Rightarrow>
              (case decode (ucast fetched) of
                 Inl e \<Rightarrow> Inr (raise_trap cpu2 (r2\<lparr>sr_instruction := ucast fetched,
                     sr_assembly := ''.word '' @ show_dec (unat (ucast fetched :: u32))\<rparr>)
                   IllegalInstruction (ucast (ucast fetched :: u32)) (de_detail e))
               | Inr decoded \<Rightarrow> step cpu)))"
  using assms
  by (auto simp: step_def start_record_def ticked_def Let_def split: prod.split option.split sum.split)

lemma ticked_frame [simp]: "bus (ticked cpu) = bus cpu" "pc (ticked cpu) = pc cpu"
  by (simp_all add: ticked_def)

lemma step_unfetched:
  assumes "\<not> halted cpu" "step cpu = Inr (cpu', r)"
  shows "\<not> aligned4 (pc cpu) \<Longrightarrow> traps_with cpu r InstructionAddressMisaligned (pc cpu)"
    and "aligned4 (pc cpu) \<Longrightarrow> \<not> (\<exists>pa. translates cpu VirtualAccess.InstructionFetch (pc cpu) pa) \<Longrightarrow>
      \<exists>c \<in> {InstructionPageFault, InstructionAccessFault}. traps_with cpu r c (pc cpu)"
    and "aligned4 (pc cpu) \<Longrightarrow> translates cpu VirtualAccess.InstructionFetch (pc cpu) pa \<Longrightarrow>
      bus_read (bus cpu) pa 4 AccessKind.InstructionFetch = Inl flt \<Longrightarrow> traps_with cpu r InstructionAccessFault (pc cpu)"
    and "aligned4 (pc cpu) \<Longrightarrow> translates cpu VirtualAccess.InstructionFetch (pc cpu) pa \<Longrightarrow>
      bus_read (bus cpu) pa 4 AccessKind.InstructionFetch = Inr v \<Longrightarrow> decode (ucast v) = Inl e \<Longrightarrow>
      traps_with cpu r IllegalInstruction (ucast (ucast v :: u32))"
proof -
  have pc: "sr_pc (start_record cpu) = pc cpu" by (simp add: start_record_def)
  note s = trans [OF step_unfold [OF assms(1), symmetric] assms(2)]
  show "\<not> aligned4 (pc cpu) \<Longrightarrow> traps_with cpu r InstructionAddressMisaligned (pc cpu)"
    using s by (simp add: aligned4_iff) (metis pc snd_conv traps_withI)
  assume al: "aligned4 (pc cpu)"
  show "\<exists>c \<in> {InstructionPageFault, InstructionAccessFault}. traps_with cpu r c (pc cpu)"
    if "\<not> (\<exists>pa. translates cpu VirtualAccess.InstructionFetch (pc cpu) pa)"
  proof -
    have none: "\<not> (\<exists>pa. translates (ticked cpu) VirtualAccess.InstructionFetch (pc cpu) pa)" using that by simp
    obtain c d where t: "translate (ticked cpu) (start_record cpu) (pc cpu) VirtualAccess.InstructionFetch =
        (fst (raise_trap (ticked cpu) (start_record cpu) c (pc cpu) d), snd (raise_trap (ticked cpu) (start_record cpu) c (pc cpu) d), None)"
      "c = InstructionPageFault \<or> c = InstructionAccessFault"
      using translate_failure [OF none, of "start_record cpu"]
      by (auto simp: Let_def page_fault_cause_def access_fault_cause_def split: if_splits)
    then have "sr_trap r = sr_trap (snd (raise_trap (ticked cpu) (start_record cpu) c (pc cpu) d))"
      using s al by (simp add: aligned4_iff)
    then show ?thesis using traps_withI [OF pc] t(2) by blast
  qed
  assume tr: "translates cpu VirtualAccess.InstructionFetch (pc cpu) pa"
  then have t: "translate (ticked cpu) (start_record cpu) (pc cpu) VirtualAccess.InstructionFetch =
      (ticked cpu, record_translation (start_record cpu) VirtualAccess.InstructionFetch
        \<lparr>at_virtual_address = pc cpu, at_physical_address = pa\<rparr>, Some pa)"
    by (intro translate_success) simp
  show "traps_with cpu r InstructionAccessFault (pc cpu)"
    if "bus_read (bus cpu) pa 4 AccessKind.InstructionFetch = Inl flt"
  proof (rule traps_withI)
    show "sr_trap r = sr_trap (snd (raise_trap (ticked cpu) (record_translation (start_record cpu) VirtualAccess.InstructionFetch
        \<lparr>at_virtual_address = pc cpu, at_physical_address = pa\<rparr>) InstructionAccessFault (pc cpu) (bf_detail flt)))"
      using s al t that by (simp add: aligned4_iff)
  qed (simp add: pc)
  show "traps_with cpu r IllegalInstruction (ucast (ucast v :: u32))"
    if "bus_read (bus cpu) pa 4 AccessKind.InstructionFetch = Inr v" "decode (ucast v) = Inl e"
  proof (rule traps_withI)
    let ?r = "(record_translation (start_record cpu) VirtualAccess.InstructionFetch
        \<lparr>at_virtual_address = pc cpu, at_physical_address = pa\<rparr>)\<lparr>sr_instruction := ucast v,
          sr_assembly := ''.word '' @ show_dec (unat (ucast v :: u32))\<rparr>"
    show "sr_trap r = sr_trap (snd (raise_trap (ticked cpu) ?r IllegalInstruction (ucast (ucast v :: u32)) (de_detail e)))"
      using s al t that by (simp add: aligned4_iff)
    show "sr_pc ?r = pc cpu" by (simp add: pc)
  qed
qed

end
