(* ===== verification/AddressSpace.thy ===== *)
theory AddressSpace
  imports Instructions
begin

text \<open>
  The memory a program sees: the virtual address space that the hart's translation makes of the bytes of
  RAM. A space is \<open>private\<close> when stores through it reach neither its own page tables nor the same byte under
  a second address; then a store changes exactly the virtual bytes it names.
\<close>

subsection \<open>Virtual bytes\<close>

definition reach :: "Cpu \<Rightarrow> VirtualAccess \<Rightarrow> u64 \<Rightarrow> u64 option" where
  "reach cpu k va =
     (if bare cpu then Some va
      else case walk_sv39 (bus cpu) va (sv39_context cpu k) of
        Inl e \<Rightarrow> None
      | Inr t \<Rightarrow> Some (st_physical_address t))"

text \<open>Where the byte at a virtual address lives, by whichever access may reach it.\<close>

definition place :: "Cpu \<Rightarrow> u64 \<Rightarrow> u64 option" where
  "place cpu va =
     (case reach cpu VirtualAccess.Load va of
        Some pa \<Rightarrow> Some pa
      | None \<Rightarrow> (case reach cpu VirtualAccess.InstructionFetch va of
           Some pa \<Rightarrow> Some pa
         | None \<Rightarrow> reach cpu VirtualAccess.Store va))"

definition virtual_byte :: "Cpu \<Rightarrow> u64 \<Rightarrow> u8" where
  "virtual_byte cpu va = (case place cpu va of None \<Rightarrow> 0 | Some pa \<Rightarrow> bus_byte (bus cpu) pa)"

definition virtual_ram :: "Cpu \<Rightarrow> VirtualAccess \<Rightarrow> u64 \<Rightarrow> nat \<Rightarrow> bool" where
  "virtual_ram cpu k va w = (case reach cpu k va of None \<Rightarrow> False | Some pa \<Rightarrow> ram_accessible (bus cpu) pa w)"

lemma reach_iff: "reach cpu k va = Some pa \<longleftrightarrow> translates cpu k va pa"
  by (auto simp: reach_def translates_def split: sum.split)

lemma virtual_ram_iff: "virtual_ram cpu k va w \<longleftrightarrow> (\<exists>pa. translates cpu k va pa \<and> ram_accessible (bus cpu) pa w)"
  by (auto simp: virtual_ram_def reach_iff [symmetric] split: option.split)

lemma bare_space [simp]:
  assumes "bare cpu"
  shows "reach cpu = (\<lambda>k va. Some va)" "place cpu = Some" "virtual_byte cpu = bus_byte (bus cpu)"
    "virtual_ram cpu = (\<lambda>k. ram_accessible (bus cpu))"
  using assms by (auto simp: reach_def place_def virtual_byte_def virtual_ram_def fun_eq_iff)

text \<open>All accesses that reach a virtual address reach the same byte.\<close>

lemma maps_to_unique:
  "maps_to b va level table l a pte \<Longrightarrow> maps_to b va level table l' a' pte' \<Longrightarrow> l' = l \<and> a' = a \<and> pte' = pte"
proof (induction rule: maps_to.induct)
  case (leaf table level pte)
  then show ?case by (cases level) (auto simp: maps_to_0 maps_to_Suc pte_pointer_def)
next
  case (pointer table level pte l a leaf_pte)
  then show ?case by (auto simp: maps_to_Suc pte_pointer_def)
qed

lemma translates_same:
  assumes "translates cpu k va pa" "translates cpu k' va pa'"
  shows "pa' = pa"
proof (cases "bare cpu")
  case False
  then obtain t t' where t: "walk_sv39 (bus cpu) va (sv39_context cpu k) = Inr t" "pa = st_physical_address t"
    "walk_sv39 (bus cpu) va (sv39_context cpu k') = Inr t'" "pa' = st_physical_address t'"
    using assms by (auto simp: translates_def)
  then obtain l a pte l' a' pte' where m: "maps_to (bus cpu) va 2 (root_table (sv39_context cpu k)) l a pte"
    "t = translation va l a pte" "maps_to (bus cpu) va 2 (root_table (sv39_context cpu k')) l' a' pte'"
    "t' = translation va l' a' pte'" unfolding walk_sv39_iff by blast
  show ?thesis
    using maps_to_unique [OF m(1)] m(2-4) t(2,4) sv39_context_root [of cpu k k'] by (auto simp: translation_def)
qed (use assms in \<open>simp add: translates_def\<close>)

lemma reach_place:
  assumes "reach cpu k va = Some pa"
  shows "place cpu va = Some pa"
proof -
  have all: "reach cpu k' va = None \<or> reach cpu k' va = Some pa" for k'
    using assms translates_same [of cpu k va pa k'] by (cases "reach cpu k' va") (simp_all add: reach_iff)
  show ?thesis
    using all [of VirtualAccess.Load] all [of VirtualAccess.InstructionFetch] all [of VirtualAccess.Store] assms
    by (cases k) (auto simp: place_def)
qed

text \<open>An aligned access reaches consecutive bytes.\<close>

lemma translates_range:
  assumes "translates cpu k va pa" "unat va mod w = 0" "valid_width w" "i < w"
  shows "translates cpu k (va + of_nat i) (pa + of_nat i)"
proof (cases "bare cpu")
  case False
  then obtain t where t: "walk_sv39 (bus cpu) va (sv39_context cpu k) = Inr t" "pa = st_physical_address t"
    using assms(1) by (auto simp: translates_def)
  then obtain l a pte where m: "t = translation va l a pte" unfolding walk_sv39_iff by blast
  have "drop_bit (12 + 9 * l) va = drop_bit (12 + 9 * l) (va + of_nat i)"
    using drop_bit_add_low [OF assms(2-4), of "12 + 9 * l"] by simp
  from walk_sv39_same_page [OF t(1) _ this] show ?thesis
    using False t(2) physical_add [OF assms(2-4), of l pte] by (simp add: m translation_def translates_def)
qed (use assms in \<open>simp add: translates_def\<close>)

lemma virtual_byte_range:
  assumes "translates cpu k va pa" "unat va mod w = 0" "valid_width w" "i < w"
  shows "virtual_byte cpu (va + of_nat i) = bus_byte (bus cpu) (pa + of_nat i)"
  using reach_place [of cpu k] translates_range [OF assms] by (simp add: virtual_byte_def reach_iff)

lemma place_reach: "place cpu va = Some pa \<Longrightarrow> \<exists>k. reach cpu k va = Some pa"
  by (auto simp: place_def split: option.splits)

subsection \<open>Private spaces\<close>

definition tables_protected :: "Cpu \<Rightarrow> bool" where
  "tables_protected cpu \<longleftrightarrow>
     (\<forall>va entry y pa. visits (bus cpu) va 2 (root_table (sv39_context cpu VirtualAccess.Load)) entry \<longrightarrow>
        reach cpu VirtualAccess.Store y = Some pa \<longrightarrow> 8 \<le> unat (pa - entry))"

definition unaliased :: "Cpu \<Rightarrow> bool" where
  "unaliased cpu \<longleftrightarrow> (\<forall>x y pa. place cpu x = Some pa \<longrightarrow> reach cpu VirtualAccess.Store y = Some pa \<longrightarrow> x = y)"

definition private_space :: "Cpu \<Rightarrow> bool" where
  "private_space cpu \<longleftrightarrow> bare cpu \<or> unaliased cpu \<and> tables_protected cpu"

text \<open>A bus read that shares no byte with a write does not see it, whatever devices they reach.\<close>

lemma bus_read_elsewhere_ram:
  assumes "ram_accessible b pa w" "\<And>i j. i < w \<Longrightarrow> j < u \<Longrightarrow> pa + of_nat i \<noteq> a + of_nat j" "ram_accessible b a u"
  shows "bus_read (fst (bus_write b pa w v k)) a u k' = bus_read b a u k'"
proof -
  let ?c = "fst (bus_write b pa w v k)"
  have "bus_byte ?c (a + of_nat j) = bus_byte b (a + of_nat j)" if "j < u" for j
  proof -
    have "\<not> unat (a + of_nat j - pa) < w" using assms(2) [OF _ that, of "unat (a + of_nat j - pa)"] by auto
    then show ?thesis using bus_write_byte [OF assms(1)] by simp
  qed
  then have "le_value (\<lambda>j. bus_byte ?c (a + of_nat j)) u = le_value (\<lambda>j. bus_byte b (a + of_nat j)) u"
    by (intro le_value_cong) simp
  moreover have "ram_accessible ?c a u" using assms(3) bus_write_accessible [OF assms(1)] by simp
  ultimately show ?thesis using bus_read_ram assms(3) by simp
qed

lemma bus_read_elsewhere:
  assumes "bus_ok b" "\<And>i j. i < w \<Longrightarrow> j < u \<Longrightarrow> pa + of_nat i \<noteq> a + of_nat j"
  shows "bus_read (fst (bus_write b pa w v k)) a u k' = bus_read b a u k'"
proof (cases "ram_accessible b pa w \<and> ram_accessible b a u")
  case True
  then show ?thesis using bus_read_elsewhere_ram assms(2) by blast
next
  case False
  show ?thesis
  proof (cases "valid_width w \<and> find_device (devices b) pa w \<noteq> None")
    case unmapped: False
    then have "fst (bus_write b pa w v k) = b" by (auto simp: bus_write_def)
    then show ?thesis by simp
  next
    case True
    then obtain i where i: "find_device (devices b) pa w = Some i" "valid_width w" by auto
    define d where "d = fst (device_write (devices b ! i) (pa - device_base (devices b ! i)) w v)"
    have wr: "devices (fst (bus_write b pa w v k)) = (devices b)[i := d]"
      using i by (auto simp: bus_write_def d_def Let_def split_beta split: option.split)
    have f: "find_device ((devices b)[i := d]) a u = find_device (devices b) a u"
      unfolding wr [symmetric] by (rule find_device_layout) simp
    have same: "device_base d = device_base (devices b ! i)" "device_name d = device_name (devices b ! i)"
      "accepts_image (devices b ! i) \<or> device_read d = device_read (devices b ! i)"
      unfolding d_def by (cases "devices b ! i"; simp add: uart_read_def fun_eq_iff)+
    have "accepts_image (devices b ! i) \<Longrightarrow> valid_width u \<Longrightarrow> find_device (devices b) a u \<noteq> Some i"
      using False i assms(1) by (auto simp: ram_accessible_def)
    then show ?thesis
      using f same find_device_Some [OF i(1)]
      by (auto simp: bus_read_def wr Let_def nth_list_update device_detail_def split: option.split sum.split)
  qed
qed

text \<open>A step that keeps the mode leaves the translation to the tables.\<close>

definition same_mode :: "Cpu \<Rightarrow> Cpu \<Rightarrow> bool" where
  "same_mode cpu cpu' \<longleftrightarrow> privilege cpu' = privilege cpu \<and> csrs cpu' = counted cpu"

lemma continues_same_mode: "continues cpu (counted cpu) cpu' \<Longrightarrow> same_mode cpu cpu'"
  by (simp add: continues_def same_mode_def)

lemma same_mode_context:
  assumes "same_mode cpu cpu'"
  shows "bare cpu' = bare cpu" "sv39_context cpu' = sv39_context cpu"
  using assms by (simp_all add: fun_eq_iff same_mode_def counted_def bare_def sv39_context_def mstatus_value_def
      retire_instruction_def tick_cycle_def)

lemma same_walks:
  assumes "same_mode cpu cpu'"
    "\<And>va k. \<not> bare cpu \<Longrightarrow> walk_sv39 (bus cpu') va (sv39_context cpu k) = walk_sv39 (bus cpu) va (sv39_context cpu k)"
  shows "reach cpu' = reach cpu" "place cpu' = place cpu"
proof -
  show "reach cpu' = reach cpu"
    using assms(2) by (simp add: reach_def same_mode_context [OF assms(1)] fun_eq_iff)
  then show "place cpu' = place cpu" by (simp only: place_def [abs_def])
qed

lemma same_bus_space:
  assumes "continues cpu (counted cpu) cpu'" "bus cpu' = bus cpu"
  shows "private_space cpu' = private_space cpu" "virtual_byte cpu' = virtual_byte cpu" "virtual_ram cpu' = virtual_ram cpu"
  using same_walks [OF continues_same_mode [OF assms(1)]] assms(2) same_mode_context [OF continues_same_mode [OF assms(1)]]
  by (simp_all only: private_space_def unaliased_def tables_protected_def virtual_byte_def [abs_def] virtual_ram_def [abs_def])

text \<open>A store that cannot reach the tables keeps the whole translation.\<close>

lemma store_translation:
  assumes "bare cpu \<or> tables_protected cpu" "same_mode cpu cpu'" "bus_ok (bus cpu)"
    "translates cpu VirtualAccess.Store va pa" "unat va mod w = 0" "valid_width w"
    "bus cpu' = fst (bus_write (bus cpu) pa w v k)"
  shows "reach cpu' = reach cpu" "place cpu' = place cpu" "\<not> bare cpu \<Longrightarrow> tables_protected cpu'"
proof -
  have reads: "bus_read (bus cpu') a 8 PageTableWalk = bus_read (bus cpu) a 8 PageTableWalk"
    if "\<not> bare cpu" "visits (bus cpu) z 2 (root_table (sv39_context cpu VirtualAccess.Load)) a" for z a
    unfolding assms(7)
  proof (rule bus_read_elsewhere [OF assms(3)])
    fix i j :: nat
    assume "i < w" "j < 8"
    then have "reach cpu VirtualAccess.Store (va + of_nat i) = Some (pa + of_nat i)"
      using translates_range [OF assms(4-6)] by (simp add: reach_iff)
    then have "8 \<le> unat (pa + of_nat i - a)"
      using assms(1) that unfolding tables_protected_def by blast
    moreover have "unat (of_nat j :: u64) = j" using \<open>j < 8\<close> by (intro unat_of_nat_u64) simp
    ultimately show "pa + of_nat i \<noteq> a + of_nat j" using \<open>j < 8\<close> by auto
  qed
  have root: "root_table (sv39_context cpu l) = root_table (sv39_context cpu VirtualAccess.Load)" for l
    by (rule sv39_context_root)
  have walks: "walk_sv39 (bus cpu') z (sv39_context cpu l) = walk_sv39 (bus cpu) z (sv39_context cpu l)" if "\<not> bare cpu" for z l
    by (rule walk_sv39_visits, rule reads [OF that]) (simp only: root [of l])
  show same: "reach cpu' = reach cpu" "place cpu' = place cpu" using same_walks [OF assms(2) walks] by simp_all
  assume "\<not> bare cpu"
  then have "visits (bus cpu') z 2 (root_table (sv39_context cpu VirtualAccess.Load)) a =
      visits (bus cpu) z 2 (root_table (sv39_context cpu VirtualAccess.Load)) a" for z a
    by (intro visits_cong reads)
  then show "tables_protected cpu'"
    using assms(1) \<open>\<not> bare cpu\<close> by (simp add: tables_protected_def same same_mode_context [OF assms(2)])
qed

text \<open>A store through a private space keeps it and changes exactly its bytes.\<close>

lemma store_space:
  assumes "private_space cpu" "continues cpu (counted cpu) cpu'"
    "translates cpu VirtualAccess.Store va pa" "unat va mod w = 0" "ram_accessible (bus cpu) pa w"
    "bus cpu' = fst (bus_write (bus cpu) pa w v k)"
  shows "private_space cpu'" "virtual_ram cpu' = virtual_ram cpu"
    "virtual_byte cpu' x = (if unat (x - va) < w then le_byte v (unat (x - va)) else virtual_byte cpu x)"
proof -
  have w: "valid_width w" "bus_ok (bus cpu)" using assms(5) by (simp_all add: ram_accessible_def)
  have prot: "bare cpu \<or> tables_protected cpu" using assms(1) by (auto simp: private_space_def)
  note mode = continues_same_mode [OF assms(2)]
  note same = store_translation [OF prot mode w(2) assms(3,4) w(1) assms(6)]
  show "private_space cpu'"
    using assms(1) same by (auto simp: private_space_def unaliased_def same_mode_context [OF mode])
  have "ram_accessible (bus cpu') = ram_accessible (bus cpu)"
    by (intro ext) (simp add: assms(6) bus_write_accessible [OF assms(5)])
  then show "virtual_ram cpu' = virtual_ram cpu" using same(1) by (simp only: virtual_ram_def [abs_def])
  have byte: "bus_byte (bus cpu') z = (if unat (z - pa) < w then le_byte v (unat (z - pa)) else bus_byte (bus cpu) z)" for z
    unfolding assms(6) by (rule bus_write_byte [OF assms(5)])
  have stored: "reach cpu VirtualAccess.Store (va + of_nat i) = Some (pa + of_nat i)" if "i < w" for i
    using translates_range [OF assms(3,4) w(1) that] by (simp add: reach_iff)
  show "virtual_byte cpu' x = (if unat (x - va) < w then le_byte v (unat (x - va)) else virtual_byte cpu x)"
  proof (cases "unat (x - va) < w")
    case True
    have "x = va + of_nat (unat (x - va))" by simp
    then have "place cpu x = Some (pa + of_nat (unat (x - va)))" using reach_place [OF stored [OF True]] by simp
    then show ?thesis using True by (simp add: virtual_byte_def same(2) byte)
  next
    case False
    have "\<not> unat (z - pa) < w" if "place cpu x = Some z" for z
    proof
      assume i: "unat (z - pa) < w"
      then have "reach cpu VirtualAccess.Store (va + of_nat (unat (z - pa))) = Some z" using stored [OF i] by simp
      then have "x = va + of_nat (unat (z - pa))"
        using assms(1) that unfolding private_space_def unaliased_def by (cases "bare cpu") auto
      then show False using False i by simp
    qed
    then show ?thesis using False by (simp add: virtual_byte_def same(2) byte split: option.split)
  qed
qed

subsection \<open>Runs in user mode\<close>

text \<open>
  A step in user mode that does not trap keeps the translation when the tables are out of its reach, and
  changes only bytes it may store to.
\<close>

lemma user_step_space:
  assumes "cpu_ok cpu" "privilege cpu = User" "\<not> bare cpu" "tables_protected cpu" "\<not> halted cpu"
    "step cpu = Inr (cpu', r)" "sr_trap r = None"
  shows "same_mode cpu cpu'" "reach cpu' = reach cpu" "tables_protected cpu'"
    "bus_byte (bus cpu') x \<noteq> bus_byte (bus cpu) x \<Longrightarrow> \<exists>va. translates cpu VirtualAccess.Store va x"
proof -
  have ok: "regs_ok (registers cpu)" "bus_ok (bus cpu)" using assms(1) by (simp_all add: cpu_ok_def)
  show mode: "same_mode cpu cpu'"
    using user_step_csrs [OF assms(1,2,5-7)] assms(2) by (simp add: same_mode_def counted_def)
  have b: "bus cpu' = replay_bus (bus cpu) r" using step_record [OF ok(1) assms(6)] by simp
  have "reach cpu' = reach cpu \<and> tables_protected cpu' \<and>
    (bus_byte (bus cpu') x \<noteq> bus_byte (bus cpu) x \<longrightarrow> (\<exists>va. translates cpu VirtualAccess.Store va x))"
  proof (cases "sr_memory_write r")
    case None
    then have "bus cpu' = bus cpu" using b by (simp add: replay_bus_def)
    then show ?thesis
      using same_walks [OF mode] assms(4) same_mode_context [OF mode] by (simp add: tables_protected_def)
  next
    case (Some m)
    let ?pa = "mw_physical_address m" and ?w = "mw_width m"
    have b': "bus cpu' = fst (bus_write (bus cpu) ?pa ?w (mw_value m) AccessKind.Store)"
      using b Some by (simp add: replay_bus_def)
    have m: "translates cpu VirtualAccess.Store (mw_address m) ?pa" "unat (mw_address m) mod ?w = 0" "valid_width ?w"
      using step_memory_write [OF ok(1) assms(6) Some] by simp_all
    note same = store_translation [OF disjI2 [OF assms(4)] mode ok(2) m b']
    have "\<exists>va. translates cpu VirtualAccess.Store va x" if "bus_byte (bus cpu') x \<noteq> bus_byte (bus cpu) x"
    proof -
      have "unat (x - ?pa) < ?w" using bus_write_frame_byte [OF ok(2)] that unfolding b' by blast
      from translates_range [OF m this] show ?thesis by auto
    qed
    then show ?thesis using same(1,3) assms(3) by blast
  qed
  then show "reach cpu' = reach cpu" "tables_protected cpu'"
    "bus_byte (bus cpu') x \<noteq> bus_byte (bus cpu) x \<Longrightarrow> \<exists>va. translates cpu VirtualAccess.Store va x" by blast+
qed

lemma user_steps_space:
  assumes "steps cpu rs cpu'" "cpu_ok cpu" "privilege cpu = User" "\<not> bare cpu" "tables_protected cpu"
    "\<forall>r\<in>set rs. sr_trap r = None"
  shows "privilege cpu' = User \<and> reach cpu' = reach cpu \<and>
    csrs cpu' = (csrs cpu)\<lparr>mcycle := mcycle (csrs cpu) + of_nat (length rs), minstret := minstret (csrs cpu) + of_nat (length rs)\<rparr> \<and>
    (\<forall>x. bus_byte (bus cpu') x \<noteq> bus_byte (bus cpu) x \<longrightarrow> (\<exists>va. translates cpu VirtualAccess.Store va x))"
  using assms
proof (induction rule: steps.induct)
  case (steps_done cpu)
  then show ?case by simp
next
  case (steps_step cpu cpu1 r rs cpu')
  have trap: "sr_trap r = None" using steps_step.prems by simp
  note s = user_step_space [OF steps_step.prems(1-4) steps_step.hyps(1,2) trap]
  have p: "privilege cpu1 = User" "csrs cpu1 = counted cpu" using s(1) steps_step.prems(2) by (simp_all add: same_mode_def)
  have "cpu_ok cpu1" "\<not> bare cpu1"
    using step_ok [OF steps_step.prems(1) steps_step.hyps(2)] same_mode_context [OF s(1)] steps_step.prems(3) by simp_all
  note IH = steps_step.IH [OF this(1) p(1) this(2) s(3)]
  have t: "translates cpu1 k va x \<longleftrightarrow> translates cpu k va x" for k va x using s(2) by (simp add: reach_iff [symmetric])
  have "\<exists>va. translates cpu VirtualAccess.Store va x" if "bus_byte (bus cpu') x \<noteq> bus_byte (bus cpu) x" for x
    using IH that s(4) [of x] steps_step.prems(5) t by (cases "bus_byte (bus cpu1) x = bus_byte (bus cpu) x") auto
  then show ?case
    using IH s(2) steps_step.prems(5) p(2)
    by (auto simp: counted_def retire_instruction_def tick_cycle_def algebra_simps)
qed

end
