(* ===== verification/IsaMachine.thy ===== *)
theory IsaMachine
  imports SystemSteps AddressSpace
begin

text \<open>
  The abstract machine of the instruction set: a program counter, 32 registers and a memory of bytes,
  without records, privileges, traps, page tables or devices, and the simulation that the hart performs its
  steps, on its physical memory where translation is off and on a private virtual address space under Sv39.
\<close>

subsection \<open>Forward simulation\<close>

text \<open>
  \<open>iterate\<close> repeats the partial step of a specification. When each of its steps from the abstraction of a
  state is a step of the implementation that keeps the invariant, so is every run.
\<close>

fun iterate :: "('s \<Rightarrow> 's option) \<Rightarrow> nat \<Rightarrow> 's \<Rightarrow> 's option" where
  "iterate next 0 s = Some s"
| "iterate next (Suc n) s = (case next s of None \<Rightarrow> None | Some s' \<Rightarrow> iterate next n s')"

lemma iterate_add: "iterate next (m + n) s = (case iterate next m s of None \<Rightarrow> None | Some s' \<Rightarrow> iterate next n s')"
  by (induction m arbitrary: s) (auto split: option.split)

locale forward_simulation =
  fixes spec :: "'s \<Rightarrow> 's option"
    and impl :: "'c \<Rightarrow> 'o \<Rightarrow> 'c \<Rightarrow> bool"
    and abs :: "'c \<Rightarrow> 's"
    and inv :: "'c \<Rightarrow> bool"
    and exhibits :: "'s \<Rightarrow> 'o \<Rightarrow> bool"
  assumes simulates: "inv c \<Longrightarrow> spec (abs c) = Some s \<Longrightarrow>
    \<exists>out c'. impl c out c' \<and> exhibits (abs c) out \<and> inv c' \<and> abs c' = s"
begin

inductive path :: "'c \<Rightarrow> 'o list \<Rightarrow> 'c \<Rightarrow> bool" where
  path_done: "path c [] c"
| path_step: "impl c out c1 \<Longrightarrow> path c1 outs c' \<Longrightarrow> path c (out # outs) c'"

lemma simulates_iterate:
  "inv c \<Longrightarrow> iterate spec n (abs c) = Some s \<Longrightarrow>
     \<exists>outs c'. path c outs c' \<and> length outs = n \<and> inv c' \<and> abs c' = s \<and>
       (\<forall>i<n. \<exists>si. iterate spec i (abs c) = Some si \<and> exhibits si (outs ! i))"
proof (induction n arbitrary: c)
  case 0
  then show ?case using path_done by auto
next
  case (Suc n)
  then obtain s1 where s1: "spec (abs c) = Some s1" "iterate spec n s1 = Some s" by (auto split: option.splits)
  obtain out c1 where c1: "impl c out c1" "exhibits (abs c) out" "inv c1" "abs c1 = s1"
    using simulates [OF Suc.prems(1) s1(1)] by blast
  obtain outs c' where o: "path c1 outs c'" "length outs = n" "inv c'" "abs c' = s"
    "\<forall>i<n. \<exists>si. iterate spec i s1 = Some si \<and> exhibits si (outs ! i)"
    using Suc.IH [OF c1(3)] s1(2) c1(4) by blast
  have "\<exists>si. iterate spec i (abs c) = Some si \<and> exhibits si ((out # outs) ! i)" if "i < Suc n" for i
    using that o(5) s1(1) c1(2) by (cases i) auto
  then show ?case using path_step [OF c1(1) o(1)] o(2-4) by (intro exI [of _ "out # outs"]) auto
qed

end

subsection \<open>The machine of the instruction set\<close>

text \<open>
  \<open>isa_ram k a w\<close> says that the memory map allows an access of kind \<open>k\<close> to \<open>w\<close> bytes at \<open>a\<close>.
\<close>

record Isa =
  isa_pc :: u64
  isa_regs :: "nat \<Rightarrow> u64"
  isa_ram :: "VirtualAccess \<Rightarrow> u64 \<Rightarrow> nat \<Rightarrow> bool"
  isa_mem :: "u64 \<Rightarrow> u8"

definition isa_set :: "u8 \<Rightarrow> int \<Rightarrow> Isa \<Rightarrow> Isa" where
  "isa_set rd v s = (if rd = 0 then s else s\<lparr>isa_regs := (isa_regs s)(unat rd := word_of_int v)\<rparr>)"

definition isa_fetch :: "Isa \<Rightarrow> DecodedInstruction option" where
  "isa_fetch s =
     (if unat (isa_pc s) mod 4 = 0 \<and> isa_ram s VirtualAccess.InstructionFetch (isa_pc s) 4
      then (case decode (word_of_int (isa_bytes (\<lambda>i. isa_mem s (isa_pc s + of_nat i)) 4)) of
              Inl e \<Rightarrow> None | Inr ins \<Rightarrow> Some ins)
      else None)"

definition isa_execute :: "DecodedInstruction \<Rightarrow> Isa \<Rightarrow> Isa option" where
  "isa_execute ins s =
     (let op = di_operation ins; rd = di_rd ins; imm = sint (di_immediate ins);
          p = sint (isa_pc s); a = sint (isa_regs s (unat (di_rs1 ins))); b = sint (isa_regs s (unat (di_rs2 ins)));
          on = s\<lparr>isa_pc := isa_pc s + 4\<rparr>; va = (word_of_int (a + imm) :: u64); w = access_width op
      in if op \<in> integer_operations then Some (isa_set rd (isa_integer op p a b imm) on)
         else if op \<in> control_operations then
           (let t = isa_next_pc op p a b imm; s' = (if op \<in> {Jal, Jalr} then isa_set rd (p + 4) s else s)
            in if t mod 4 = 0 then Some (s'\<lparr>isa_pc := word_of_int t\<rparr>) else None)
         else if op \<in> load_operations then
           (if unat va mod w = 0 \<and> isa_ram s VirtualAccess.Load va w
            then Some (isa_set rd (isa_load op (\<lambda>i. isa_mem s (va + of_nat i))) on) else None)
         else if op \<in> store_operations then
           (if unat va mod w = 0 \<and> isa_ram s VirtualAccess.Store va w
            then Some (on\<lparr>isa_mem := (\<lambda>x. if unat (x - va) < w then word_of_int (b div 256 ^ unat (x - va))
                                           else isa_mem s x)\<rparr>)
            else None)
         else if op \<in> {Fence, FenceI} then Some on
         else None)"

definition isa_step :: "Isa \<Rightarrow> Isa option" where
  "isa_step s = (case isa_fetch s of None \<Rightarrow> None | Some ins \<Rightarrow> isa_execute ins s)"

definition isa_of :: "Cpu \<Rightarrow> Isa" where
  "isa_of cpu = \<lparr>isa_pc = pc cpu, isa_regs = (\<lambda>i. if i < 32 then registers cpu ! i else 0),
     isa_ram = virtual_ram cpu, isa_mem = virtual_byte cpu\<rparr>"

subsection \<open>The hart performs its steps\<close>

lemma isa_of_fields [simp]:
  "isa_pc (isa_of cpu) = pc cpu" "isa_ram (isa_of cpu) = virtual_ram cpu" "isa_mem (isa_of cpu) = virtual_byte cpu"
  "i < 32 \<Longrightarrow> isa_regs (isa_of cpu) i = registers cpu ! i"
  by (simp_all add: isa_of_def)

text \<open>The instruction word that the hart reads is the one of the abstract memory.\<close>

lemma fetched_word: "ucast (le_value f 4) = (word_of_int (isa_bytes f 4) :: u32)"
  unfolding le_value_isa by (rule bit_word_eqI) (simp add: bit_simps)

lemma word_of_bytes:
  assumes "\<And>i. i < 4 \<Longrightarrow> f i = ucast (drop_bit (8 * i) w)"
  shows "ucast (le_value f 4) = (w :: u32)" "word_of_int (isa_bytes f 4) = w"
proof -
  have "le_value f 4 = le_value (\<lambda>i. ucast (drop_bit (8 * i) w)) 4" by (rule le_value_cong) (rule assms)
  moreover have "ucast (le_value (\<lambda>i. ucast (drop_bit (8 * i) w)) 4) = w"
    by (rule bit_word_eqI) (simp add: bit_simps bit_le_value)
  ultimately show *: "ucast (le_value f 4) = w" by simp
  then show "word_of_int (isa_bytes f 4) = w" by (simp add: fetched_word)
qed

lemma isa_bytes_cong: "(\<And>i. i < w \<Longrightarrow> f i = g i) \<Longrightarrow> isa_bytes f w = isa_bytes g w"
  by (simp add: isa_bytes_def)

lemma isa_fetch_fetches:
  assumes "isa_fetch (isa_of cpu) = Some ins"
  shows "fetches cpu ins" "valid_registers ins"
proof -
  obtain pa where pa: "translates cpu VirtualAccess.InstructionFetch (pc cpu) pa" "ram_accessible (bus cpu) pa 4"
    using assms by (auto simp: isa_fetch_def virtual_ram_iff split: if_splits)
  let ?f = "\<lambda>i. bus_byte (bus cpu) (pa + of_nat i)"
  have aligned: "unat (pc cpu) mod 4 = 0" using assms by (auto simp: isa_fetch_def split: if_splits)
  have "isa_bytes (\<lambda>i. virtual_byte cpu (pc cpu + of_nat i)) 4 = isa_bytes ?f 4"
    by (rule isa_bytes_cong, rule virtual_byte_range [OF pa(1) aligned]) (simp_all add: valid_width_def)
  then have d: "decode (word_of_int (isa_bytes ?f 4)) = Inr ins"
    using assms by (auto simp: isa_fetch_def split: if_splits sum.splits)
  then show "fetches cpu ins"
    using aligned pa bus_read_ram [OF pa(2)] unfolding fetches_def aligned4_unat by (auto simp: fetched_word)
  show "valid_registers ins" using decode_valid_registers [OF d] .
qed

lemma le_byte_isa: "i < 8 \<Longrightarrow> le_byte b i = word_of_int (sint b div 256 ^ i)"
proof -
  assume "i < 8"
  have "(256 :: int) ^ i = 2 ^ (i * 8)" by (simp add: power_mult mult.commute [of i])
  then have "sint b div 256 ^ i = drop_bit (i * 8) (sint b)" by (simp only: drop_bit_eq_div)
  moreover have "n < 8 \<Longrightarrow> 63 \<le> i * 8 + n \<Longrightarrow> i * 8 + n = 63" for n using \<open>i < 8\<close> by linarith
  ultimately show ?thesis using \<open>i < 8\<close>
    by (intro bit_word_eqI) (fastforce simp: bit_le_byte bit_simps min_def not_le)
qed

lemma isa_of_update:
  assumes "pc cpu' = p" "bus cpu' = bus cpu" "continues cpu (counted cpu) cpu'" "length (registers cpu) = 32" "rd < 32"
    "registers cpu' = (if rd = 0 then registers cpu else (registers cpu)[unat rd := word_of_int v])"
  shows "isa_of cpu' = isa_set rd v ((isa_of cpu)\<lparr>isa_pc := p\<rparr>)"
  using assms same_bus_space [OF assms(3,2)]
  by (auto simp: isa_of_def isa_set_def nth_list_update word_less_nat_alt unat_eq_0)

lemma operation_groups:
  "op \<in> control_operations \<Longrightarrow> op \<notin> integer_operations"
  "op \<in> load_operations \<Longrightarrow> op \<notin> integer_operations \<and> op \<notin> control_operations"
  "op \<in> store_operations \<Longrightarrow> op \<notin> integer_operations \<and> op \<notin> control_operations \<and> op \<notin> load_operations"
  by (auto simp: integer_operations_def alu_operations_def control_operations_def branch_operations_def
      load_operations_def store_operations_def)

text \<open>What a load and a store do to the abstraction of a private memory.\<close>

lemma isa_load_step:
  assumes "cpu_ok cpu" "\<not> halted cpu" "private_space cpu" "fetches cpu ins" "step cpu = Inr (cpu', r)"
    "di_operation ins \<in> load_operations" "w = access_width (di_operation ins)" "va = access_address cpu ins"
    "unat va mod w = 0" "virtual_ram cpu VirtualAccess.Load va w" "di_rd ins < 32"
  shows "sr_trap r = None \<and> continues cpu (counted cpu) cpu' \<and> private_space cpu' \<and>
    isa_of cpu' = isa_set (di_rd ins) (isa_load (di_operation ins) (\<lambda>i. virtual_byte cpu (va + of_nat i)))
      ((isa_of cpu)\<lparr>isa_pc := pc cpu + 4\<rparr>)"
proof -
  obtain pa where pa: "translates cpu VirtualAccess.Load va pa" "ram_accessible (bus cpu) pa w"
    using assms(10) by (auto simp: virtual_ram_iff)
  then have w: "valid_width w" by (simp add: ram_accessible_def)
  have "isa_load (di_operation ins) (\<lambda>i. virtual_byte cpu (va + of_nat i)) =
      isa_load (di_operation ins) (\<lambda>i. bus_byte (bus cpu) (pa + of_nat i))"
    using isa_bytes_cong [OF virtual_byte_range [OF pa(1) assms(9) w]] by (simp add: isa_load_def assms(7))
  moreover have "length (registers cpu) = 32" using assms(1) by (simp add: cpu_ok_def regs_ok_def)
  ultimately show ?thesis
    using step_load [OF assms(1,2,4,5,6), of pa] pa isa_of_update [of cpu' "pc cpu + 4" cpu "di_rd ins"]
      same_bus_space(1) [of cpu cpu'] assms(3,7-9,11) by auto
qed

lemma isa_store_step:
  assumes "cpu_ok cpu" "\<not> halted cpu" "private_space cpu" "fetches cpu ins" "step cpu = Inr (cpu', r)"
    "di_operation ins \<in> store_operations" "w = access_width (di_operation ins)" "va = access_address cpu ins"
    "unat va mod w = 0" "virtual_ram cpu VirtualAccess.Store va w"
  shows "sr_trap r = None \<and> continues cpu (counted cpu) cpu' \<and> private_space cpu' \<and>
    isa_of cpu' = (isa_of cpu)\<lparr>isa_pc := pc cpu + 4, isa_mem := (\<lambda>x. if unat (x - va) < w
      then word_of_int (sint (source2 cpu ins) div 256 ^ unat (x - va)) else virtual_byte cpu x)\<rparr>"
proof -
  obtain pa where pa: "translates cpu VirtualAccess.Store va pa" "ram_accessible (bus cpu) pa w"
    using assms(10) by (auto simp: virtual_ram_iff)
  have st: "sr_trap r = None" "pc cpu' = pc cpu + 4" "registers cpu' = registers cpu" "continues cpu (counted cpu) cpu'"
    "bus cpu' = fst (bus_write (bus cpu) pa w (source2 cpu ins AND mask_for_width w) AccessKind.Store)"
    using step_store [OF assms(1,2,4,5,6), of pa] pa assms(7-9) by simp_all
  note space = store_space [OF assms(3) st(4) pa(1) assms(9) pa(2) st(5)]
  have "w \<le> 8" by (simp add: access_width_def assms(7))
  then have "i < w \<Longrightarrow> le_byte (source2 cpu ins AND mask_for_width w) i = word_of_int (sint (source2 cpu ins) div 256 ^ i)" for i
    by (simp add: le_byte_masked) (simp add: le_byte_isa)
  then have "virtual_byte cpu' = (\<lambda>x. if unat (x - va) < w
      then word_of_int (sint (source2 cpu ins) div 256 ^ unat (x - va)) else virtual_byte cpu x)"
    by (intro ext) (simp add: space(3))
  then show ?thesis using st(1-4) space(1,2) by (simp add: isa_of_def cong: if_cong)
qed

lemma isa_execute_step:
  assumes "cpu_ok cpu" "\<not> halted cpu" "private_space cpu" "isa_fetch (isa_of cpu) = Some ins"
    "isa_execute ins (isa_of cpu) = Some s" "step cpu = Inr (cpu', r)"
  shows "sr_trap r = None \<and> isa_of cpu' = s \<and> continues cpu (counted cpu) cpu' \<and> private_space cpu'"
proof -
  let ?op = "di_operation ins" and ?w = "access_width (di_operation ins)" and ?va = "access_address cpu ins"
  note f = isa_fetch_fetches [OF assms(4)]
  have len: "length (registers cpu) = 32" using assms(1) by (simp add: cpu_ok_def regs_ok_def)
  have idx: "unat (di_rs1 ins) < 32" "unat (di_rs2 ins) < 32" "di_rd ins < 32"
    using f(2) by (simp_all add: valid_registers_def word_less_nat_alt)
  note ex = assms(5) [unfolded isa_execute_def Let_def, simplified idx isa_of_fields]
  have va: "word_of_int (sint (source1 cpu ins) + sint (di_immediate ins)) = ?va" "source1 cpu ins + di_immediate ins = ?va"
    by (simp_all add: access_address_def)
  consider "?op \<in> integer_operations" | "?op \<in> control_operations" | "?op \<in> load_operations" | "?op \<in> store_operations"
    | "?op \<in> {Fence, FenceI}" "?op \<notin> integer_operations" "?op \<notin> control_operations" "?op \<notin> load_operations" "?op \<notin> store_operations"
    using ex by (metis option.distinct(1))
  then show ?thesis
  proof cases
    case 1
    then show ?thesis
      using ex step_integer [OF assms(1,2) f(1) assms(6) 1] isa_of_update [OF _ _ _ len idx(3)] assms(3)
        same_bus_space(1) [of cpu cpu'] by auto
  next
    case 2
    let ?t = "isa_next_pc ?op (sint (pc cpu)) (sint (source1 cpu ins)) (sint (source2 cpu ins)) (sint (di_immediate ins))"
    have t: "?t mod 4 = 0" "s = (if ?op \<in> {Jal, Jalr} then isa_set (di_rd ins) (sint (pc cpu) + 4) (isa_of cpu)
        else isa_of cpu)\<lparr>isa_pc := word_of_int ?t\<rparr>"
      using ex 2 operation_groups(1) [OF 2] by (auto split: if_splits)
    then have c: "sr_trap r = None" "pc cpu' = word_of_int ?t" "bus cpu' = bus cpu"
      "registers cpu' = isa_link ?op (di_rd ins) (pc cpu) (registers cpu)" "continues cpu (counted cpu) cpu'"
      using step_control [OF assms(1,2) f(1) assms(6) 2] by (simp_all add: transfers_def)
    have "registers cpu' = (if (if ?op \<in> {Jal, Jalr} then di_rd ins else 0) = 0 then registers cpu
        else (registers cpu)[unat (if ?op \<in> {Jal, Jalr} then di_rd ins else 0) := word_of_int (sint (pc cpu) + 4)])"
      using c(4) by (simp add: isa_link_def)
    from isa_of_update [OF c(2,3,5) len _ this] show ?thesis
      using t(2) c(1,5) idx(3) same_bus_space(1) [OF c(5,3)] assms(3) by (simp add: isa_set_def)
  next
    case 3
    then have "unat ?va mod ?w = 0" "virtual_ram cpu VirtualAccess.Load ?va ?w"
      "s = isa_set (di_rd ins) (isa_load ?op (\<lambda>i. virtual_byte cpu (?va + of_nat i))) ((isa_of cpu)\<lparr>isa_pc := pc cpu + 4\<rparr>)"
      using ex operation_groups(2) [OF 3] by (auto simp: va split: if_splits)
    with isa_load_step [OF assms(1-3) f(1) assms(6) 3 refl refl] idx(3) show ?thesis by simp
  next
    case 4
    then have "unat ?va mod ?w = 0" "virtual_ram cpu VirtualAccess.Store ?va ?w"
      "s = (isa_of cpu)\<lparr>isa_pc := pc cpu + 4, isa_mem := (\<lambda>x. if unat (x - ?va) < ?w
          then word_of_int (sint (source2 cpu ins) div 256 ^ unat (x - ?va)) else virtual_byte cpu x)\<rparr>"
      using ex [unfolded va] operation_groups(3) [OF 4] by (auto simp: va split: if_splits)
    with isa_store_step [OF assms(1-3) f(1) assms(6) 4 refl refl] show ?thesis by simp
  next
    case 5
    then have "s = (isa_of cpu)\<lparr>isa_pc := pc cpu + 4\<rparr>" using ex by simp
    moreover have "advances cpu r cpu'" using step_fence [OF assms(1,2) f(1) assms(6)] 5(1) by blast
    ultimately show ?thesis
      using same_bus_space [of cpu cpu'] assms(3) by (simp add: advances_def isa_of_def cong: if_cong)
  qed
qed

text \<open>A running hart with a private memory.\<close>

definition isa_mode :: "Cpu \<Rightarrow> bool" where
  "isa_mode cpu \<longleftrightarrow> cpu_ok cpu \<and> \<not> halted cpu \<and> private_space cpu"

text \<open>The record of a step that the abstract machine makes from \<open>s\<close>.\<close>

definition records_step :: "Isa \<Rightarrow> StepRecord \<Rightarrow> bool" where
  "records_step s r \<longleftrightarrow> sr_trap r = None \<and> sr_retired r \<and> sr_pc r = isa_pc s"

lemma isa_simulates:
  assumes "isa_mode cpu" "isa_step (isa_of cpu) = Some s"
  shows "\<exists>r cpu'. (\<not> halted cpu \<and> step cpu = Inr (cpu', r)) \<and> records_step (isa_of cpu) r \<and>
    isa_mode cpu' \<and> isa_of cpu' = s"
proof -
  have m: "cpu_ok cpu" "\<not> halted cpu" "private_space cpu" using assms(1) by (simp_all add: isa_mode_def)
  then have regs: "regs_ok (registers cpu)" by (simp add: cpu_ok_def)
  obtain cpu' r where s: "step cpu = Inr (cpu', r)" using step_total [OF regs] by blast
  obtain ins where i: "isa_fetch (isa_of cpu) = Some ins" "isa_execute ins (isa_of cpu) = Some s"
    using assms(2) by (auto simp: isa_step_def split: option.splits)
  note e = isa_execute_step [OF m i s]
  have "sr_retired r" using step_plain [OF regs s m(2)] e by blast
  then have "records_step (isa_of cpu) r" using e step_record(9) [OF regs s] by (simp add: records_step_def)
  moreover have "isa_mode cpu'"
    using step_ok [OF m(1) s] e m by (simp add: isa_mode_def continues_def)
  ultimately show ?thesis using s m(2) e by blast
qed

interpretation hart: forward_simulation isa_step "\<lambda>cpu r cpu'. \<not> halted cpu \<and> step cpu = Inr (cpu', r)"
  isa_of isa_mode records_step
  by unfold_locales (rule isa_simulates)

lemma hart_path: "hart.path cpu rs cpu' \<Longrightarrow> steps cpu rs cpu'"
  by (induction rule: hart.path.induct) (auto intro: steps.intros)

lemma isa_runs:
  assumes "isa_mode cpu" "iterate isa_step n (isa_of cpu) = Some s"
  shows "\<exists>rs cpu'. steps cpu rs cpu' \<and> length rs = n \<and> isa_mode cpu' \<and> isa_of cpu' = s \<and>
    (\<forall>i<n. \<exists>si. iterate isa_step i (isa_of cpu) = Some si \<and> records_step si (rs ! i))"
  using hart.simulates_iterate [OF assms] hart_path by blast

end
