(* ===== verification/Elf.thy ===== *)
theory Elf
  imports Bus Text
begin

text \<open>
  The image loader (\<^verbatim>\<open>elf.hpp\<close>, \<^verbatim>\<open>elf.cpp\<close>): reading a file, parsing it into an entry point
  and loadable segments, and loading the segments into the image-loadable memory of a bus. The
  order that \<^verbatim>\<open>std::sort\<close> gives to segments with equal load addresses is not determined by the
  standard, so the sorting routine is an argument of the parser; \<open>sorts\<close> states what the standard
  promises of it.
\<close>

subsection \<open>Results\<close>

definition and_then :: "exn + 'a \<Rightarrow> ('a \<Rightarrow> exn + 'b) \<Rightarrow> exn + 'b" where
  "and_then m f = (case m of Inl e \<Rightarrow> Inl e | Inr x \<Rightarrow> f x)"

definition throw_if :: "bool \<Rightarrow> string \<Rightarrow> exn + unit" where
  "throw_if b message = (if b then Inl (ElfError message) else Inr ())"

lemma and_then_simps [simp]: "and_then (Inl e) f = Inl e" "and_then (Inr x) f = f x"
  by (simp_all add: and_then_def)

lemma and_then_Inr [simp]: "and_then m f = Inr y \<longleftrightarrow> (\<exists>x. m = Inr x \<and> f x = Inr y)"
  by (cases m) simp_all

lemma throw_if_Inr [simp]: "throw_if b message = Inr u \<longleftrightarrow> \<not> b"
  by (simp add: throw_if_def)

lemma throw_if_False [simp]: "throw_if False message = Inr ()"
  by (simp add: throw_if_def)

subsection \<open>Segments and images\<close>

record ElfSegment =
  virtual_address :: u64
  load_address :: u64
  file_offset :: u64
  file_size :: u64
  memory_size :: u64
  flags :: u32

definition readable :: "ElfSegment \<Rightarrow> bool" where
  "readable s \<longleftrightarrow> flags s AND 0x4 \<noteq> 0"

definition writable :: "ElfSegment \<Rightarrow> bool" where
  "writable s \<longleftrightarrow> flags s AND 0x2 \<noteq> 0"

definition executable :: "ElfSegment \<Rightarrow> bool" where
  "executable s \<longleftrightarrow> flags s AND 0x1 \<noteq> 0"

record ElfImage =
  entry :: u64
  segments :: "ElfSegment list"

subsection \<open>Reading the file\<close>

text \<open>
  What the host stream does for a path: it may not open, report its size (negative on failure),
  and read that many bytes, or fail while reading.
\<close>

record HostFile =
  hf_opens :: bool
  hf_tellg :: int
  hf_read :: "u8 list option"

definition read_file :: "string \<Rightarrow> HostFile \<Rightarrow> exn + u8 list" where
  "read_file path f =
     (if \<not> hf_opens f then Inl (ElfError (''cannot open ELF file: '' @ path))
      else if hf_tellg f < 0 then Inl (ElfError (''cannot determine ELF file size: '' @ path))
      else let sz = (word_of_int (hf_tellg f) :: u64)
      in if sz > -1 then Inl (ElfError ''ELF file is too large for this host'')
         else (case hf_read f of
                 None \<Rightarrow> Inl (ElfError (''failed while reading ELF file: '' @ path))
               | Some bytes \<Rightarrow> Inr bytes))"

definition require_range :: "u8 list \<Rightarrow> u64 \<Rightarrow> u64 \<Rightarrow> string \<Rightarrow> exn + unit" where
  "require_range bytes offset sz description =
     throw_if (offset > of_nat (length bytes) \<or> sz > of_nat (length bytes) - offset)
       (description @ '' extends beyond the ELF file'')"

text \<open>\<^verbatim>\<open>read_little_endian<T>\<close> for a \<open>T\<close> of \<open>n\<close> bytes, before the final conversion to \<open>T\<close>.\<close>

definition read_little_endian :: "nat \<Rightarrow> u8 list \<Rightarrow> u64 \<Rightarrow> exn + u64" where
  "read_little_endian n bytes offset =
     and_then (require_range bytes offset (of_nat n) ''integer field'')
       (\<lambda>_. Inr (le_value (\<lambda>index. bytes ! (unat offset + index)) n))"

definition read_u16 :: "u8 list \<Rightarrow> u64 \<Rightarrow> exn + u16" where
  "read_u16 bytes offset = and_then (read_little_endian 2 bytes offset) (\<lambda>v. Inr (ucast v))"

definition read_u32 :: "u8 list \<Rightarrow> u64 \<Rightarrow> exn + u32" where
  "read_u32 bytes offset = and_then (read_little_endian 4 bytes offset) (\<lambda>v. Inr (ucast v))"

definition read_u64 :: "u8 list \<Rightarrow> u64 \<Rightarrow> exn + u64" where
  "read_u64 bytes offset = and_then (read_little_endian 8 bytes offset) Inr"

subsection \<open>Parsing\<close>

definition kElfHeaderSize :: nat where "kElfHeaderSize = 64"
definition kProgramHeaderSize :: u16 where "kProgramHeaderSize = 56"
definition kLoadableSegment :: u32 where "kLoadableSegment = 1"
definition kElfExecutable :: u16 where "kElfExecutable = 2"
definition kMachineRiscV :: u16 where "kMachineRiscV = 243"

text \<open>The checks of the identification and of the fixed header fields.\<close>

definition check_header :: "u8 list \<Rightarrow> exn + unit" where
  "check_header bytes =
     and_then (require_range bytes 0 (of_nat kElfHeaderSize) ''ELF header'') (\<lambda>_.
     and_then (throw_if (bytes ! 0 \<noteq> 0x7f \<or> bytes ! 1 \<noteq> 0x45 \<or> bytes ! 2 \<noteq> 0x4C \<or> bytes ! 3 \<noteq> 0x46)
       ''input is not an ELF file'') (\<lambda>_.
     and_then (throw_if (bytes ! 4 \<noteq> 2) ''only ELF64 images are supported'') (\<lambda>_.
     and_then (throw_if (bytes ! 5 \<noteq> 1) ''only little-endian ELF images are supported'') (\<lambda>_.
     and_then (throw_if (bytes ! 6 \<noteq> 1) ''unsupported ELF identification version'') (\<lambda>_.
     and_then (read_u16 bytes 16) (\<lambda>type.
     and_then (throw_if (type \<noteq> kElfExecutable) ''only fixed-address ET_EXEC images are supported'') (\<lambda>_.
     and_then (read_u16 bytes 18) (\<lambda>machine.
     and_then (throw_if (machine \<noteq> kMachineRiscV) ''ELF image is not for the RISC-V architecture'') (\<lambda>_.
     and_then (read_u32 bytes 20) (\<lambda>version.
     and_then (throw_if (version \<noteq> 1) ''unsupported ELF header version'') (\<lambda>_.
     and_then (read_u16 bytes 52) (\<lambda>header_size.
     throw_if (header_size \<noteq> of_nat kElfHeaderSize) ''unexpected ELF64 header size''))))))))))))"

text \<open>The program-header table: its offset, entry size and number of entries.\<close>

definition program_headers :: "u8 list \<Rightarrow> exn + (u64 \<times> u16 \<times> u16)" where
  "program_headers bytes =
     and_then (read_u64 bytes 32) (\<lambda>program_offset.
     and_then (read_u16 bytes 54) (\<lambda>program_entry_size.
     and_then (read_u16 bytes 56) (\<lambda>program_count.
     and_then (throw_if (program_count \<noteq> 0 \<and> program_entry_size \<noteq> kProgramHeaderSize)
       ''unexpected ELF64 program-header size'') (\<lambda>_.
     and_then (throw_if (program_count > 4096)
       ''ELF image has an unreasonable number of program headers'') (\<lambda>_.
     and_then (require_range bytes program_offset (ucast program_entry_size * ucast program_count)
       ''program-header table'') (\<lambda>_.
     Inr (program_offset, program_entry_size, program_count)))))))"

text \<open>One iteration of the loop over the program headers; \<open>None\<close> is \<^verbatim>\<open>continue\<close>.\<close>

definition parse_segment :: "u8 list \<Rightarrow> u64 \<Rightarrow> exn + ElfSegment option" where
  "parse_segment bytes offset =
     and_then (read_u32 bytes offset) (\<lambda>type.
     if type \<noteq> kLoadableSegment then Inr None else
     and_then (read_u32 bytes (offset + 4)) (\<lambda>flags.
     and_then (read_u64 bytes (offset + 8)) (\<lambda>file_offset.
     and_then (read_u64 bytes (offset + 16)) (\<lambda>virtual_address.
     and_then (read_u64 bytes (offset + 24)) (\<lambda>physical_address.
     and_then (read_u64 bytes (offset + 32)) (\<lambda>file_size.
     and_then (read_u64 bytes (offset + 40)) (\<lambda>memory_size.
     and_then (read_u64 bytes (offset + 48)) (\<lambda>alignment.
     and_then (throw_if (file_size > memory_size) ''PT_LOAD file size exceeds its in-memory size'') (\<lambda>_.
     and_then (require_range bytes file_offset file_size ''PT_LOAD payload'') (\<lambda>_.
     and_then (throw_if (alignment \<noteq> 0 \<and> alignment AND (alignment - 1) \<noteq> 0)
       ''PT_LOAD alignment is not a power of two'') (\<lambda>_.
     let load_address = (if physical_address = 0 then virtual_address else physical_address) in
     and_then (throw_if (load_address \<noteq> virtual_address)
       ''non-identity PT_LOAD virtual and physical addresses require an MMU'') (\<lambda>_.
     and_then (throw_if (memory_size \<noteq> 0 \<and> add_overflows load_address (memory_size - 1))
       ''PT_LOAD memory range overflows the guest address space'') (\<lambda>_.
     Inr (Some \<lparr>virtual_address = virtual_address, load_address = load_address,
       file_offset = file_offset, file_size = file_size, memory_size = memory_size,
       flags = flags\<rparr>))))))))))))))"

fun parse_segments :: "u8 list \<Rightarrow> u64 \<Rightarrow> u16 \<Rightarrow> nat list \<Rightarrow> exn + ElfSegment list" where
  "parse_segments bytes program_offset entry_size [] = Inr []"
| "parse_segments bytes program_offset entry_size (index # indexes) =
     and_then (parse_segment bytes (program_offset + of_nat index * ucast entry_size)) (\<lambda>s.
     and_then (parse_segments bytes program_offset entry_size indexes) (\<lambda>rest.
     Inr (case s of None \<Rightarrow> rest | Some s \<Rightarrow> s # rest)))"

fun adjacent_overlap :: "ElfSegment list \<Rightarrow> bool" where
  "adjacent_overlap (previous # current # rest) \<longleftrightarrow>
     (memory_size previous \<noteq> 0 \<and>
        load_address current < load_address previous + memory_size previous) \<or>
     adjacent_overlap (current # rest)"
| "adjacent_overlap _ \<longleftrightarrow> False"

definition entry_is_executable :: "ElfImage \<Rightarrow> bool" where
  "entry_is_executable img \<longleftrightarrow>
     list_ex (\<lambda>s. executable s \<and> entry img \<ge> virtual_address s \<and>
                  entry img - virtual_address s < memory_size s) (segments img)"

definition parse :: "(ElfSegment list \<Rightarrow> ElfSegment list) \<Rightarrow> u8 list \<Rightarrow> exn + ElfImage" where
  "parse std_sort bytes =
     and_then (check_header bytes) (\<lambda>_.
     and_then (program_headers bytes) (\<lambda>(program_offset, program_entry_size, program_count).
     and_then (read_u64 bytes 24) (\<lambda>entry.
     and_then (parse_segments bytes program_offset program_entry_size [0..<unat program_count]) (\<lambda>loadable.
     and_then (throw_if (loadable = []) ''ELF image contains no loadable segments'') (\<lambda>_.
     let img = \<lparr>entry = entry, segments = std_sort loadable\<rparr> in
     and_then (throw_if (adjacent_overlap (segments img))
       ''overlapping PT_LOAD memory ranges are rejected'') (\<lambda>_.
     and_then (throw_if (\<not> entry_is_executable img)
       ''ELF entry point is outside every executable PT_LOAD segment'') (\<lambda>_.
     Inr img)))))))"

definition inspect_elf ::
  "(ElfSegment list \<Rightarrow> ElfSegment list) \<Rightarrow> string \<Rightarrow> HostFile \<Rightarrow> exn + ElfImage" where
  "inspect_elf std_sort path f = and_then (read_file path f) (parse std_sort)"

subsection \<open>Loading\<close>

definition range_message :: "ElfSegment \<Rightarrow> string" where
  "range_message s = ''PT_LOAD range [0x'' @ show_hex (unat (load_address s)) @ '', 0x'' @
     show_hex (unat (load_address s + memory_size s)) @ '') is outside image-loadable RAM''"

text \<open>
  The zero-fill loop; its last argument is the number of bytes left, \<^verbatim>\<open>memory_size - offset\<close>.
\<close>

fun zero_fill :: "Bus \<Rightarrow> u64 \<Rightarrow> u64 \<Rightarrow> nat \<Rightarrow> Bus \<times> BusFault option" where
  "zero_fill bus address offset 0 = (bus, None)"
| "zero_fill bus address offset (Suc remaining) =
     (case bus_write bus (address + offset) 1 0 ImageLoad of
        (bus', Some fault) \<Rightarrow> (bus', Some fault)
      | (bus', None) \<Rightarrow> zero_fill bus' address (offset + 1) remaining)"

definition payload :: "u8 list \<Rightarrow> ElfSegment \<Rightarrow> u8 list" where
  "payload bytes s = take (unat (file_size s)) (drop (unat (file_offset s)) bytes)"

definition load_segment :: "u8 list \<Rightarrow> Bus \<Rightarrow> ElfSegment \<Rightarrow> Bus \<times> exn option" where
  "load_segment bytes bus s =
     (case write_bytes bus (load_address s) (payload bytes s) ImageLoad of
        (bus1, Some fault) \<Rightarrow>
          (bus1, Some (ElfError (''unexpected bus fault while loading PT_LOAD: '' @ bf_detail fault)))
      | (bus1, None) \<Rightarrow>
          (case zero_fill bus1 (load_address s) (file_size s)
                  (unat (memory_size s) - unat (file_size s)) of
             (bus2, Some fault) \<Rightarrow>
               (bus2, Some (ElfError (''unexpected bus fault while zero-filling PT_LOAD: '' @ bf_detail fault)))
           | (bus2, None) \<Rightarrow> (bus2, None)))"

fun load_segments :: "u8 list \<Rightarrow> Bus \<Rightarrow> ElfSegment list \<Rightarrow> Bus \<times> exn option" where
  "load_segments bytes bus [] = (bus, None)"
| "load_segments bytes bus (s # rest) =
     (case load_segment bytes bus s of
        (bus', Some e) \<Rightarrow> (bus', Some e)
      | (bus', None) \<Rightarrow> load_segments bytes bus' rest)"

definition invalid_range :: "Bus \<Rightarrow> ElfSegment \<Rightarrow> bool" where
  "invalid_range bus s \<longleftrightarrow> \<not> image_range_is_valid bus (load_address s) (memory_size s)"

definition load_elf ::
  "(ElfSegment list \<Rightarrow> ElfSegment list) \<Rightarrow> string \<Rightarrow> HostFile \<Rightarrow> Bus \<Rightarrow> Bus \<times> (exn + ElfImage)" where
  "load_elf std_sort path f bus =
     (case read_file path f of
        Inl e \<Rightarrow> (bus, Inl e)
      | Inr bytes \<Rightarrow>
          (case parse std_sort bytes of
             Inl e \<Rightarrow> (bus, Inl e)
           | Inr img \<Rightarrow>
               (case find (invalid_range bus) (segments img) of
                  Some s \<Rightarrow> (bus, Inl (ElfError (range_message s)))
                | None \<Rightarrow>
                    (case load_segments bytes bus (segments img) of
                       (bus', Some e) \<Rightarrow> (bus', Inl e)
                     | (bus', None) \<Rightarrow> (bus', Inr img)))))"

end
