(* ===== verification/ElfLoad.thy ===== *)
theory ElfLoad
  imports Elf
begin

text \<open>
  The facts about the image loader: what the parser guarantees of an accepted image, the kind of
  its errors, the memory after loading (each segment's payload followed by zeros, nothing else
  changed), and the acceptance of the images that \<^verbatim>\<open>tests/test_elf.cpp\<close> builds.
\<close>

subsection \<open>What the parser guarantees\<close>

definition sorts :: "(ElfSegment list \<Rightarrow> ElfSegment list) \<Rightarrow> bool" where
  "sorts std_sort \<longleftrightarrow>
     (\<forall>xs. mset (std_sort xs) = mset xs \<and> sorted (map load_address (std_sort xs)))"

lemma sorts_sort_key: "sorts (sort_key load_address)"
  by (simp add: sorts_def)

lemma require_range_Inr [simp]:
  "require_range bytes offset sz d = Inr u \<longleftrightarrow>
     \<not> (offset > of_nat (length bytes) \<or> sz > of_nat (length bytes) - offset)"
  by (simp add: require_range_def)

lemma in_range_iff:
  assumes "length bytes < 2 ^ 64"
  shows "\<not> ((offset :: u64) > of_nat (length bytes) \<or> sz > of_nat (length bytes) - offset) \<longleftrightarrow>
    unat offset + unat sz \<le> length bytes"
proof -
  have len: "unat (of_nat (length bytes) :: u64) = length bytes" using assms by (rule unat_of_nat_u64)
  show ?thesis
    by (auto simp: word_less_nat_alt not_less word_le_nat_alt len unat_sub_if')
qed

definition segment_ok :: "nat \<Rightarrow> ElfSegment \<Rightarrow> bool" where
  "segment_ok len s \<longleftrightarrow> file_size s \<le> memory_size s \<and> unat (file_offset s) + unat (file_size s) \<le> len \<and>
     load_address s = virtual_address s \<and> unat (load_address s) + unat (memory_size s) \<le> 2 ^ 64"

lemma parse_segment_checks:
  assumes "parse_segment bytes offset = Inr (Some s)"
  shows "\<not> file_size s > memory_size s" "require_range bytes (file_offset s) (file_size s) ''PT_LOAD payload'' = Inr ()"
    "load_address s = virtual_address s"
    "\<not> (memory_size s \<noteq> 0 \<and> add_overflows (load_address s) (memory_size s - 1))"
proof -
  have "\<not> file_size s > memory_size s \<and> require_range bytes (file_offset s) (file_size s) ''PT_LOAD payload'' = Inr () \<and>
    load_address s = virtual_address s \<and> \<not> (memory_size s \<noteq> 0 \<and> add_overflows (load_address s) (memory_size s - 1))"
    using assms by (clarsimp simp: parse_segment_def Let_def simp del: require_range_Inr split: if_splits) auto
  then show "\<not> file_size s > memory_size s" "require_range bytes (file_offset s) (file_size s) ''PT_LOAD payload'' = Inr ()"
    "load_address s = virtual_address s"
    "\<not> (memory_size s \<noteq> 0 \<and> add_overflows (load_address s) (memory_size s - 1))" by blast+
qed

lemma parse_segment_ok:
  assumes "parse_segment bytes offset = Inr (Some s)" "length bytes < 2 ^ 64"
  shows "segment_ok (length bytes) s"
proof -
  note checks = parse_segment_checks [OF assms(1)]
  have "unat (load_address s) + unat (memory_size s) \<le> 2 ^ 64"
    using checks(4) unat_u64_less [of "load_address s"]
    by (cases "memory_size s = 0") (auto simp: add_overflows_iff unat_minus_one)
  then show ?thesis
    using checks in_range_iff [OF assms(2)] by (simp add: segment_ok_def)
qed

lemma parse_segments_ok:
  assumes "parse_segments bytes off es is = Inr ss" "length bytes < 2 ^ 64" "s \<in> set ss"
  shows "segment_ok (length bytes) s"
  using assms(1,3)
proof (induction "is" arbitrary: ss)
  case (Cons i "is")
  then show ?case using parse_segment_ok [OF _ assms(2)] by (auto split: option.splits)
qed simp

lemma parse_Inr:
  "parse std_sort bytes = Inr img \<longleftrightarrow>
     (\<exists>off es n e loadable. check_header bytes = Inr () \<and> program_headers bytes = Inr (off, es, n) \<and>
        read_u64 bytes 24 = Inr e \<and> parse_segments bytes off es [0..<unat n] = Inr loadable \<and>
        loadable \<noteq> [] \<and> img = \<lparr>entry = e, segments = std_sort loadable\<rparr> \<and>
        \<not> adjacent_overlap (segments img) \<and> entry_is_executable img)"
  by (auto simp: parse_def Let_def split: prod.splits)

text \<open>The segments follow each other without overlap.\<close>

definition apart :: "ElfSegment \<Rightarrow> ElfSegment \<Rightarrow> bool" where
  "apart s t \<longleftrightarrow> unat (load_address s) + unat (memory_size s) \<le> unat (load_address t)"

definition below_top :: "ElfSegment \<Rightarrow> bool" where
  "below_top s \<longleftrightarrow> unat (load_address s) + unat (memory_size s) < 2 ^ 64"

lemma apart_adjacent:
  assumes "below_top s" "load_address s \<le> load_address t"
    "\<not> (memory_size s \<noteq> 0 \<and> load_address t < load_address s + memory_size s)"
  shows "apart s t"
proof -
  have "unat (load_address s + memory_size s) = unat (load_address s) + unat (memory_size s)"
    using assms(1) by (simp add: below_top_def unat_word_ariths)
  then show ?thesis
    using assms(2,3) by (cases "memory_size s = 0") (auto simp: apart_def word_le_nat_alt word_less_nat_alt)
qed

lemma apart_trans: "apart s t \<Longrightarrow> apart t u \<Longrightarrow> apart s u"
  by (simp add: apart_def)

lemma adjacent_apart:
  "sorted (map load_address ss) \<Longrightarrow> \<not> adjacent_overlap ss \<Longrightarrow> \<forall>s\<in>set ss. below_top s \<Longrightarrow> sorted_wrt apart ss"
proof (induction ss rule: adjacent_overlap.induct)
  case (1 s t rest)
  then have "sorted_wrt apart (t # rest)" by simp
  moreover have "apart s t" using 1 by (intro apart_adjacent) auto
  ultimately show ?case using apart_trans by fastforce
qed simp_all

lemma parse_ok:
  assumes "parse std_sort bytes = Inr img" "sorts std_sort" "length bytes < 2 ^ 64"
  shows "segments img \<noteq> []" "\<forall>s\<in>set (segments img). segment_ok (length bytes) s"
    "sorted (map load_address (segments img))" "\<not> adjacent_overlap (segments img)"
    "entry_is_executable img"
proof -
  obtain off es e loadable and n :: u16 where
    p: "parse_segments bytes off es [0..<unat n] = Inr loadable" and ne: "loadable \<noteq> []"
      and img: "img = \<lparr>entry = e, segments = std_sort loadable\<rparr>"
      and checks: "\<not> adjacent_overlap (segments img)" "entry_is_executable img"
    using assms(1) unfolding parse_Inr by blast
  have set: "mset (segments img) = mset loadable" and sorted: "sorted (map load_address (segments img))"
    using assms(2) img by (simp_all add: sorts_def)
  have "set (segments img) = set loadable" using set by (rule mset_eq_setD)
  then show "segments img \<noteq> []" "\<forall>s\<in>set (segments img). segment_ok (length bytes) s"
    using ne parse_segments_ok [OF p assms(3)] by auto
  show "sorted (map load_address (segments img))" "\<not> adjacent_overlap (segments img)"
    "entry_is_executable img" using checks sorted by blast+
qed

lemma entry_is_executable_iff:
  "entry_is_executable img \<longleftrightarrow> (\<exists>s\<in>set (segments img). executable s \<and>
     unat (virtual_address s) \<le> unat (entry img) \<and>
     unat (entry img) < unat (virtual_address s) + unat (memory_size s))"
  by (auto simp: entry_is_executable_def list_ex_iff word_le_nat_alt word_less_nat_alt unat_sub_if'
      intro!: bexI)

subsection \<open>Errors\<close>

definition elf_error :: "exn + 'a \<Rightarrow> bool" where
  "elf_error m \<longleftrightarrow> (\<forall>e. m = Inl e \<longrightarrow> (\<exists>t. e = ElfError t))"

lemma elf_error_intros:
  shows "elf_error (Inr x)" and "elf_error (throw_if b t)" and "elf_error (Inl (ElfError t))"
    and "elf_error m \<Longrightarrow> (\<And>x. m = Inr x \<Longrightarrow> elf_error (f x)) \<Longrightarrow> elf_error (and_then m f)"
  by (auto simp: elf_error_def throw_if_def and_then_def split: sum.splits)

lemma elf_error_reads:
  shows "elf_error (require_range bytes off sz d)" and "elf_error (read_u16 bytes off)"
    and "elf_error (read_u32 bytes off)" and "elf_error (read_u64 bytes off)"
  by (auto simp: require_range_def read_u16_def read_u32_def read_u64_def read_little_endian_def
      intro!: elf_error_intros)

lemma elf_error_parse_segments: "elf_error (parse_segments bytes off es is)"
proof (induction "is")
  case (Cons i "is")
  have "elf_error (parse_segment bytes a)" for a
    by (auto simp: parse_segment_def Let_def intro!: elf_error_intros elf_error_reads)
  then show ?case using Cons by (auto intro!: elf_error_intros)
qed (simp add: elf_error_intros)

lemma elf_error_parse: "elf_error (parse std_sort bytes)"
  by (auto simp: parse_def check_header_def program_headers_def Let_def
      intro!: elf_error_intros elf_error_reads elf_error_parse_segments)

lemma elf_error_read_file: "elf_error (read_file path f)"
  by (auto simp: read_file_def Let_def intro!: elf_error_intros split: option.split)

subsection \<open>The memory after loading\<close>

lemma zero_fill_write_bytes:
  "zero_fill bus a (of_nat k) n = write_bytes_loop bus a k (replicate n 0) ImageLoad"
proof (induction n arbitrary: bus k)
  case (Suc n)
  show ?case
    using Suc [of _ "Suc k"] by (simp add: add.commute split: prod.split option.split)
qed simp

text \<open>The byte of a loaded segment at an offset: payload first, zeros after it.\<close>

definition segment_byte :: "u8 list \<Rightarrow> ElfSegment \<Rightarrow> nat \<Rightarrow> u8" where
  "segment_byte bytes s i =
     (if i < unat (file_size s) then bytes ! (unat (file_offset s) + i) else 0)"

definition segment_accessible :: "Bus \<Rightarrow> ElfSegment \<Rightarrow> bool" where
  "segment_accessible bus s \<longleftrightarrow> (\<forall>i < unat (memory_size s). ram_accessible bus (load_address s + of_nat i) 1)"

lemma load_segment_correct:
  assumes ok: "segment_ok (length bytes) s" and acc: "segment_accessible bus s"
  shows "snd (load_segment bytes bus s) = None"
    and "ram_accessible (fst (load_segment bytes bus s)) b u = ram_accessible bus b u"
    and "bus_byte (fst (load_segment bytes bus s)) b =
      (if unat (b - load_address s) < unat (memory_size s) then segment_byte bytes s (unat (b - load_address s))
       else bus_byte bus b)"
proof -
  let ?a = "load_address s" and ?f = "unat (file_size s)" and ?m = "unat (memory_size s)"
  have fm: "?f \<le> ?m" and len: "length (payload bytes s) = ?f" and top: "unat ?a + ?m \<le> 2 ^ 64"
    and nth: "\<And>i. i < ?f \<Longrightarrow> payload bytes s ! i = bytes ! (unat (file_offset s) + i)"
    using ok by (auto simp: segment_ok_def payload_def word_le_nat_alt)
  obtain bus1 e where w: "write_bytes bus ?a (payload bytes s) ImageLoad = (bus1, e)" by (metis surj_pair)
  have acc1: "ram_accessible bus (?a + of_nat i) 1" if "i < length (payload bytes s)" for i
    using acc that fm by (auto simp: segment_accessible_def len)
  have top1: "unat ?a + length (payload bytes s) \<le> 2 ^ 64" using top fm by (simp add: len)
  note one = write_bytes_accessible [OF acc1 top1, of ImageLoad, unfolded w fst_conv snd_conv len]
  have z: "zero_fill bus1 ?a (file_size s) (?m - ?f) =
      write_bytes_loop bus1 ?a ?f (replicate (?m - ?f) 0) ImageLoad"
    using zero_fill_write_bytes [of bus1 ?a ?f] by simp
  obtain bus2 e2 where w2: "write_bytes_loop bus1 ?a ?f (replicate (?m - ?f) 0) ImageLoad = (bus2, e2)"
    by (metis surj_pair)
  have acc2: "\<forall>i<length (replicate (?m - ?f) (0 :: u8)). ram_accessible bus1 (?a + of_nat (?f + i)) 1"
    using acc by (auto simp: segment_accessible_def one(2) less_diff_conv add.commute simp del: of_nat_add)
  have top2: "?f + length (replicate (?m - ?f) (0 :: u8)) \<le> 2 ^ 64" using fm top by simp
  note two = write_bytes_loop_correct [OF acc2 top2, of ImageLoad, unfolded w2 fst_conv snd_conv length_replicate]
  have e: "load_segment bytes bus s = (bus2, None)"
    using w w2 z one(1) two by (simp add: load_segment_def)
  show "snd (load_segment bytes bus s) = None" by (simp add: e)
  show "ram_accessible (fst (load_segment bytes bus s)) b u = ram_accessible bus b u"
    using one(2) two by (simp add: e)
  show "bus_byte (fst (load_segment bytes bus s)) b =
      (if unat (b - ?a) < ?m then segment_byte bytes s (unat (b - ?a)) else bus_byte bus b)"
    using one(3) two fm nth by (auto simp: e segment_byte_def)
qed

definition inside :: "ElfSegment \<Rightarrow> u64 \<Rightarrow> bool" where
  "inside s b \<longleftrightarrow> unat (load_address s) \<le> unat b \<and> unat b < unat (load_address s) + unat (memory_size s)"

lemma inside_offset:
  assumes "segment_ok len s"
  shows "unat (b - load_address s) < unat (memory_size s) \<longleftrightarrow> inside s b"
    and "inside s b \<Longrightarrow> unat (b - load_address s) = unat b - unat (load_address s)"
  using assms unat_u64_less [of b] by (auto simp: inside_def segment_ok_def unat_sub_if')

text \<open>The byte at \<open>b\<close> after the segments, each over the ones before it.\<close>

fun loaded_byte :: "u8 list \<Rightarrow> ElfSegment list \<Rightarrow> u8 \<Rightarrow> u64 \<Rightarrow> u8" where
  "loaded_byte bytes [] old b = old"
| "loaded_byte bytes (s # ss) old b =
     loaded_byte bytes ss (if inside s b then segment_byte bytes s (unat b - unat (load_address s)) else old) b"

lemma load_segments_correct:
  assumes "\<forall>s\<in>set ss. segment_ok (length bytes) s \<and> segment_accessible bus s"
  shows "snd (load_segments bytes bus ss) = None \<and>
    (\<forall>b u. ram_accessible (fst (load_segments bytes bus ss)) b u = ram_accessible bus b u) \<and>
    (\<forall>b. bus_byte (fst (load_segments bytes bus ss)) b = loaded_byte bytes ss (bus_byte bus b) b)"
  using assms
proof (induction ss arbitrary: bus)
  case (Cons s ss)
  then have s: "segment_ok (length bytes) s" "segment_accessible bus s" by simp_all
  obtain bus1 e where w: "load_segment bytes bus s = (bus1, e)" by (metis surj_pair)
  note one = load_segment_correct [OF s, unfolded w fst_conv snd_conv]
  have byte: "bus_byte bus1 b =
      (if inside s b then segment_byte bytes s (unat b - unat (load_address s)) else bus_byte bus b)" for b
    using one(3) [of b] inside_offset [OF s(1), of b] by simp
  have "\<forall>t\<in>set ss. segment_ok (length bytes) t \<and> segment_accessible bus1 t"
    using Cons.prems by (simp add: segment_accessible_def one(2))
  from Cons.IH [OF this] show ?case by (simp add: w one(1,2) byte)
qed simp

lemma loaded_byte_outside: "\<forall>s\<in>set ss. \<not> inside s b \<Longrightarrow> loaded_byte bytes ss old b = old"
  by (induction ss) simp_all

lemma apart_inside: "apart s t \<Longrightarrow> inside s b \<Longrightarrow> \<not> inside t b"
  by (simp add: apart_def inside_def)

lemma loaded_byte_inside:
  "sorted_wrt apart ss \<Longrightarrow> s \<in> set ss \<Longrightarrow> inside s b \<Longrightarrow>
     loaded_byte bytes ss old b = segment_byte bytes s (unat b - unat (load_address s))"
proof (induction ss arbitrary: old)
  case (Cons t ss)
  show ?case
  proof (cases "s = t")
    case True
    with Cons.prems have "\<forall>u\<in>set ss. \<not> inside u b" by (auto dest: apart_inside)
    with True Cons.prems show ?thesis by (simp add: loaded_byte_outside)
  next
    case False
    with Cons show ?thesis by simp
  qed
qed simp

lemma load_elf_outcome:
  assumes "bus_ok bus" "sorts std_sort" "\<forall>bytes. hf_read f = Some bytes \<longrightarrow> length bytes < 2 ^ 64"
    "load_elf std_sort path f bus = (bus', r)"
  obtains e where "r = Inl (ElfError e)" "bus' = bus"
    | bytes img where "r = Inr img" "read_file path f = Inr bytes" "parse std_sort bytes = Inr img"
      "length bytes < 2 ^ 64"
      "\<forall>s\<in>set (segments img). segment_ok (length bytes) s \<and> segment_accessible bus s"
      "load_segments bytes bus (segments img) = (bus', None)"
proof (cases "read_file path f")
  case (Inl e)
  then show ?thesis using assms(4) elf_error_read_file [of path f] that(1)
    by (auto simp: load_elf_def elf_error_def)
next
  case (Inr bytes)
  then have len: "length bytes < 2 ^ 64"
    using assms(3) by (auto simp: read_file_def Let_def split: if_splits option.splits)
  show ?thesis
  proof (cases "parse std_sort bytes")
    case (Inl e)
    then obtain t where "e = ElfError t" using elf_error_parse [of std_sort bytes] by (auto simp: elf_error_def)
    with Inl Inr assms(4) show ?thesis by (intro that(1) [of t]) (auto simp: load_elf_def)
  next
    case img: (Inr img)
    show ?thesis
    proof (cases "find (invalid_range bus) (segments img)")
      case None
      then have valid: "\<forall>s\<in>set (segments img). image_range_is_valid bus (load_address s) (memory_size s)"
        by (simp add: find_None_iff invalid_range_def)
      have ok: "\<forall>s\<in>set (segments img). segment_ok (length bytes) s \<and> segment_accessible bus s"
        using parse_ok(2) [OF img assms(2) len] valid image_range_accessible(2) [OF assms(1)]
        by (auto simp: segment_accessible_def)
      then have "snd (load_segments bytes bus (segments img)) = None"
        using load_segments_correct by blast
      then show ?thesis
        using assms(4) Inr img None ok len that(2) [of img bytes]
        by (auto simp: load_elf_def split: prod.splits option.splits)
    qed (use assms(4) Inr img that(1) in \<open>auto simp: load_elf_def\<close>)
  qed
qed

subsection \<open>The images of the tests\<close>

definition put :: "nat \<Rightarrow> nat \<Rightarrow> u64 \<Rightarrow> u8 list \<Rightarrow> u8 list" where
  "put n offset v bytes = fold (\<lambda>index bs. bs[offset + index := le_byte v index]) [0..<n] bytes"

definition minimal_elf :: "u64 \<Rightarrow> u64 \<Rightarrow> u8 list" where
  "minimal_elf address sz =
     (let bytes = (replicate 0x104 0)[0 := 0x7f, 1 := 0x45, 2 := 0x4C, 3 := 0x46, 4 := 2, 5 := 1, 6 := 1];
          header = [(2, 16, 2), (2, 18, 243), (4, 20, 1), (8, 24, address), (8, 32, 64), (2, 52, 64),
                    (2, 54, 56), (2, 56, 1)];
          program = [(4, 64, 1), (4, 68, 5), (8, 72, 0x100), (8, 80, address), (8, 88, address),
                     (8, 96, 4), (8, 104, sz), (8, 112, 0x1000)]
      in (fold (\<lambda>(n, offset, v). put n offset v) (header @ program) bytes)
           [0x100 := 0x13, 0x101 := 0, 0x102 := 0, 0x103 := 0])"

lemma length_put [simp]: "length (put n off v bytes) = length bytes"
proof -
  have "length (fold (\<lambda>i bs. bs[off + i := f i]) xs bs) = length bs" for f :: "nat \<Rightarrow> u8" and xs bs
    by (induction xs arbitrary: bs) simp_all
  then show ?thesis by (simp add: put_def)
qed

lemma nth_put: "off + n \<le> length bytes \<Longrightarrow> put n off v bytes ! j =
    (if off \<le> j \<and> j < off + n then le_byte v (j - off) else bytes ! j)"
  unfolding put_def
proof (induction n)
  case (Suc n)
  have "length (fold (\<lambda>i bs. bs[off + i := le_byte v i]) [0..<n] bytes) = length bytes"
    using length_put [of n off v bytes] by (simp add: put_def)
  then show ?case using Suc by (auto simp: nth_list_update)
qed auto

definition field_at :: "u8 list \<Rightarrow> nat \<Rightarrow> nat \<Rightarrow> u64 \<Rightarrow> bool" where
  "field_at bytes off n v \<longleftrightarrow> off + n \<le> length bytes \<and> n \<le> 8 \<and> (\<forall>i<n. bytes ! (off + i) = le_byte v i)"

lemma field_at_put [simp]:
  "off + n \<le> length bytes \<Longrightarrow> n \<le> 8 \<Longrightarrow> field_at (put n off v bytes) off n v"
  by (simp add: field_at_def nth_put)

lemma field_at_put_other [simp]:
  assumes "off + n \<le> p \<or> p + m \<le> off" "p + m \<le> length bytes"
  shows "field_at (put m p w bytes) off n v = field_at bytes off n v"
proof -
  have "put m p w bytes ! (off + i) = bytes ! (off + i)" if "i < n" for i
    using assms that by (subst nth_put) auto
  then show ?thesis by (simp add: field_at_def)
qed

lemma field_at_update [simp]:
  "p < off \<or> off + n \<le> p \<Longrightarrow> field_at (bytes[p := b]) off n v = field_at bytes off n v"
  by (auto simp: field_at_def)

lemma read_field:
  assumes "field_at bytes (unat off) n v" "length bytes < 2 ^ 64"
  shows "read_little_endian n bytes off = Inr (v AND mask (n * 8))"
proof -
  have *: "unat off + n \<le> length bytes" "n \<le> 8" "\<And>i. i < n \<Longrightarrow> bytes ! (unat off + i) = le_byte v i"
    using assms(1) by (simp_all add: field_at_def)
  have "unat (of_nat n :: u64) = n" using *(2) by (intro unat_of_nat_u64) simp
  then have "require_range bytes off (of_nat n) ''integer field'' = Inr ()"
    using in_range_iff [OF assms(2), of off "of_nat n"] *(1) by simp
  moreover have "le_value (\<lambda>i. bytes ! (unat off + i)) n = le_value (le_byte v) n"
    by (rule le_value_cong) (rule *(3))
  ultimately show ?thesis using *(2) by (simp add: read_little_endian_def le_value_le_byte)
qed

lemma read_fields:
  assumes "length bytes < 2 ^ 64"
  shows "field_at bytes (unat off) 2 v \<Longrightarrow> read_u16 bytes off = Inr (ucast v)"
    and "field_at bytes (unat off) 4 v \<Longrightarrow> read_u32 bytes off = Inr (ucast v)"
    and "field_at bytes (unat off) 8 v \<Longrightarrow> read_u64 bytes off = Inr v"
proof -
  note read = read_field [OF _ assms]
  have "ucast (v AND mask 16) = (ucast v :: u16)" "ucast (v AND mask 32) = (ucast v :: u32)" "v AND mask 64 = v"
    by (auto intro!: bit_word_eqI simp: bit_simps)
  then show "field_at bytes (unat off) 2 v \<Longrightarrow> read_u16 bytes off = Inr (ucast v)"
    and "field_at bytes (unat off) 4 v \<Longrightarrow> read_u32 bytes off = Inr (ucast v)"
    and "field_at bytes (unat off) 8 v \<Longrightarrow> read_u64 bytes off = Inr v"
    using read [of off] by (simp_all add: read_u16_def read_u32_def read_u64_def)
qed

text \<open>A program header of type \<^verbatim>\<open>PT_LOAD\<close> with equal addresses, at an offset of the file.\<close>

definition program_header :: "u8 list \<Rightarrow> nat \<Rightarrow> u64 \<Rightarrow> u64 \<Rightarrow> u64 \<Rightarrow> u64 \<Rightarrow> u64 \<Rightarrow> u64 \<Rightarrow> bool" where
  "program_header bytes p fl off address fsz msz al \<longleftrightarrow>
     field_at bytes p 4 1 \<and> field_at bytes (p + 4) 4 fl \<and> field_at bytes (p + 8) 8 off \<and>
     field_at bytes (p + 16) 8 address \<and> field_at bytes (p + 24) 8 address \<and>
     field_at bytes (p + 32) 8 fsz \<and> field_at bytes (p + 40) 8 msz \<and> field_at bytes (p + 48) 8 al"

lemma unat_header_offset: "unat (p :: u64) + 56 \<le> 2 ^ 64 \<Longrightarrow> k < 56 \<Longrightarrow> unat (p + of_nat k) = unat p + k"
  by (rule unat_add_of_nat) simp

lemma parse_program_header:
  assumes "program_header bytes (unat p) fl off address fsz msz al" "length bytes < 2 ^ 64"
    and "unat off + unat fsz \<le> length bytes" "al = 0 \<or> al AND (al - 1) = 0"
  shows "parse_segment bytes p =
    (if msz < fsz then Inl (ElfError ''PT_LOAD file size exceeds its in-memory size'')
     else if msz \<noteq> 0 \<and> add_overflows address (msz - 1)
     then Inl (ElfError ''PT_LOAD memory range overflows the guest address space'')
     else Inr (Some \<lparr>virtual_address = address, load_address = address, file_offset = off, file_size = fsz,
            memory_size = msz, flags = ucast fl\<rparr>))"
proof -
  have h: "field_at bytes (unat p) 4 1" "field_at bytes (unat p + 4) 4 fl" "field_at bytes (unat p + 8) 8 off"
     "field_at bytes (unat p + 16) 8 address" "field_at bytes (unat p + 24) 8 address"
     "field_at bytes (unat p + 32) 8 fsz" "field_at bytes (unat p + 40) 8 msz" "field_at bytes (unat p + 48) 8 al"
    using assms(1) by (simp_all add: program_header_def)
  have "unat p + 48 + 8 \<le> length bytes" using h(8) unfolding field_at_def by blast
  then have "unat p + 56 \<le> 2 ^ 64" using assms(2) by linarith
  note at = unat_header_offset [OF this]
  have at': "unat (p + 4) = unat p + 4" "unat (p + 8) = unat p + 8" "unat (p + 16) = unat p + 16"
    "unat (p + 24) = unat p + 24" "unat (p + 32) = unat p + 32" "unat (p + 40) = unat p + 40"
    "unat (p + 48) = unat p + 48"
    using at [of 4] at [of 8] at [of 16] at [of 24] at [of 32] at [of 40] at [of 48] by simp_all
  note r = read_fields [OF assms(2)]
  have "require_range bytes off fsz ''PT_LOAD payload'' = Inr ()"
    using in_range_iff [OF assms(2)] assms(3) by simp
  then show ?thesis
    using assms(4) r(2) [of p 1] r(2) [of "p + 4" fl] r(3) [of "p + 8" off] r(3) [of "p + 16" address]
      r(3) [of "p + 24" address] r(3) [of "p + 32" fsz] r(3) [of "p + 40" msz] r(3) [of "p + 48" al]
    unfolding at' parse_segment_def kLoadableSegment_def
    by (auto simp: h throw_if_def Let_def not_less simp del: require_range_Inr)
qed

lemma sorts_single: "sorts std_sort \<Longrightarrow> std_sort [s] = [s]"
  by (metis mset_single_iff_right mset.simps sorts_def)

lemma length_minimal_elf [simp]: "length (minimal_elf a m) = 0x104"
  by (simp add: minimal_elf_def)

lemma minimal_elf_magic:
  "minimal_elf a m ! 0 = 0x7f" "minimal_elf a m ! 1 = 0x45" "minimal_elf a m ! 2 = 0x4C"
  "minimal_elf a m ! 3 = 0x46" "minimal_elf a m ! 4 = 2" "minimal_elf a m ! 5 = 1" "minimal_elf a m ! 6 = 1"
  by (simp_all add: minimal_elf_def nth_put)

lemma minimal_elf_payload: "minimal_elf a m ! 0x100 = 0x13"
  by (simp add: minimal_elf_def)

lemma minimal_elf_fields:
  "field_at (minimal_elf a m) 16 2 2" "field_at (minimal_elf a m) 18 2 243" "field_at (minimal_elf a m) 20 4 1"
  "field_at (minimal_elf a m) 24 8 a" "field_at (minimal_elf a m) 32 8 64" "field_at (minimal_elf a m) 52 2 64"
  "field_at (minimal_elf a m) 54 2 56" "field_at (minimal_elf a m) 56 2 1"
  by (simp_all add: minimal_elf_def)

text \<open>The checks of a header whose fields hold the expected values.\<close>

definition elf_header :: "u8 list \<Rightarrow> bool" where
  "elf_header bytes \<longleftrightarrow> 64 \<le> length bytes \<and> bytes ! 0 = 0x7f \<and> bytes ! 1 = 0x45 \<and> bytes ! 2 = 0x4C \<and>
     bytes ! 3 = 0x46 \<and> bytes ! 4 = 2 \<and> bytes ! 5 = 1 \<and> bytes ! 6 = 1 \<and>
     field_at bytes 16 2 2 \<and> field_at bytes 18 2 243 \<and> field_at bytes 20 4 1 \<and> field_at bytes 52 2 64"

lemma check_elf_header:
  assumes "elf_header bytes" "length bytes < 2 ^ 64"
  shows "check_header bytes = Inr ()"
proof -
  note r = read_fields [OF assms(2)]
  have "require_range bytes 0 (of_nat kElfHeaderSize) ''ELF header'' = Inr ()"
    using in_range_iff [OF assms(2), of 0 64] assms(1) by (simp add: elf_header_def kElfHeaderSize_def)
  then show ?thesis
    using assms(1) r(1) [of 16 2] r(1) [of 18 243] r(2) [of 20 1] r(1) [of 52 64]
    by (simp add: elf_header_def check_header_def kElfExecutable_def kMachineRiscV_def kElfHeaderSize_def
        del: require_range_Inr)
qed

lemma unat_ucast_small_u16:
  assumes "unat (n :: u64) < 2 ^ 16"
  shows "unat (ucast n :: u16) = unat n" and "(ucast (ucast n :: u16) :: u64) = n"
proof -
  show n: "unat (ucast n :: u16) = unat n"
    using assms by (simp add: unsigned_ucast_eq take_bit_nat_eq_self)
  have "unat (ucast (ucast n :: u16) :: u64) = unat n"
    by (subst unsigned_ucast_eq) (simp add: n take_bit_nat_eq_self_iff unat_u64_less [simplified])
  then show "(ucast (ucast n :: u16) :: u64) = n" by (simp add: word_unat_eq_iff)
qed

lemma program_headers_fields:
  assumes "field_at bytes 32 8 off" "field_at bytes 54 2 56" "field_at bytes 56 2 n" "length bytes < 2 ^ 64"
    and "n \<le> 4096" "unat off + 56 * unat n \<le> length bytes"
  shows "program_headers bytes = Inr (off, 56, ucast n)"
proof -
  note r = read_fields [OF assms(4)]
  have n: "unat (ucast n :: u16) = unat n" "(ucast (ucast n :: u16) :: u64) = n"
    using assms(5) by (simp_all add: unat_ucast_small_u16 word_le_nat_alt)
  have "unat (56 * n) = 56 * unat n"
    using assms(5) by (simp add: unat_word_ariths word_le_nat_alt)
  then have "require_range bytes off (56 * n) ''program-header table'' = Inr ()"
    using in_range_iff [OF assms(4), of off "56 * n"] assms(6) by simp
  then show ?thesis
    using assms r(3) [of 32 off] r(1) [of 54 56] r(1) [of 56 n] n
    by (simp add: program_headers_def kProgramHeaderSize_def throw_if_def word_less_nat_alt word_le_nat_alt del: require_range_Inr)
qed

lemma minimal_elf_program: "program_header (minimal_elf a m) 64 5 0x100 a 4 m 0x1000"
  by (simp add: program_header_def minimal_elf_def)

lemma parse_segments_single:
  "parse_segments bytes off es [0] = map_sum id (\<lambda>s. case s of None \<Rightarrow> [] | Some s \<Rightarrow> [s]) (parse_segment bytes off)"
  by (cases "parse_segment bytes off") (auto split: option.split)

lemma sorts_Nil: "sorts std_sort \<Longrightarrow> std_sort [] = []"
  by (metis mset_zero_iff_right sorts_def)

definition first_segment :: "u64 \<Rightarrow> u64 \<Rightarrow> ElfSegment" where
  "first_segment a m = \<lparr>virtual_address = a, load_address = a, file_offset = 0x100, file_size = 4,
     memory_size = m, flags = 5\<rparr>"

lemma parse_minimal_elf:
  assumes "sorts std_sort"
  shows "parse std_sort (minimal_elf a m) =
    (if m < 4 then Inl (ElfError ''PT_LOAD file size exceeds its in-memory size'')
     else if add_overflows a (m - 1) then Inl (ElfError ''PT_LOAD memory range overflows the guest address space'')
     else Inr \<lparr>entry = a, segments = [first_segment a m]\<rparr>)"
proof -
  have h: "check_header (minimal_elf a m) = Inr ()"
    by (rule check_elf_header) (simp_all add: elf_header_def minimal_elf_magic [simplified] minimal_elf_fields)
  have p: "program_headers (minimal_elf a m) = Inr (64, 56, 1)"
    using program_headers_fields [of "minimal_elf a m" 64 1] by (simp add: minimal_elf_fields)
  have e: "read_u64 (minimal_elf a m) 24 = Inr a"
    using read_fields(3) [of "minimal_elf a m" 24 a] by (simp add: minimal_elf_fields)
  have s: "parse_segment (minimal_elf a m) 64 =
    (if m < 4 then Inl (ElfError ''PT_LOAD file size exceeds its in-memory size'')
     else if m \<noteq> 0 \<and> add_overflows a (m - 1)
     then Inl (ElfError ''PT_LOAD memory range overflows the guest address space'')
     else Inr (Some (first_segment a m)))"
    using parse_program_header [of "minimal_elf a m" 64 5 "0x100" a 4 m "0x1000"] minimal_elf_program
    by (simp add: first_segment_def)
  have "\<not> m < 4 \<Longrightarrow> 0 < m" by (auto simp: word_less_nat_alt word_le_nat_alt)
  then show ?thesis
    by (auto simp add: parse_def h p e parse_segments_single s sorts_single [OF assms(1)] entry_is_executable_def
        executable_def Let_def first_segment_def)
qed

subsection \<open>Images with two segments\<close>

definition two_segment_elf :: "u64 \<Rightarrow> u64 \<Rightarrow> u64 \<Rightarrow> u64 \<Rightarrow> u8 list" where
  "two_segment_elf a m b k =
     fold (\<lambda>(n, offset, v). put n offset v)
       [(2, 56, 2), (4, 120, 1), (4, 124, 6), (8, 128, 0), (8, 136, b), (8, 144, b), (8, 152, 0),
        (8, 160, k), (8, 168, 0)] (minimal_elf a m)"

definition second_segment :: "u64 \<Rightarrow> u64 \<Rightarrow> ElfSegment" where
  "second_segment b k = \<lparr>virtual_address = b, load_address = b, file_offset = 0, file_size = 0,
     memory_size = k, flags = 6\<rparr>"

lemma two_segment_fields:
  "length (two_segment_elf a m b k) = 0x104" "elf_header (two_segment_elf a m b k)"
  "field_at (two_segment_elf a m b k) 24 8 a" "field_at (two_segment_elf a m b k) 32 8 64"
  "field_at (two_segment_elf a m b k) 54 2 56" "field_at (two_segment_elf a m b k) 56 2 2"
  "program_header (two_segment_elf a m b k) 64 5 0x100 a 4 m 0x1000"
  "program_header (two_segment_elf a m b k) 120 6 0 b 0 k 0"
  using minimal_elf_program [of a m]
  by (simp_all add: two_segment_elf_def minimal_elf_fields elf_header_def program_header_def nth_put
      minimal_elf_magic [simplified])

lemma parse_two_segments:
  assumes "\<not> m < 4" "\<not> add_overflows a (m - 1)" "k = 0 \<or> \<not> add_overflows b (k - 1)"
  shows "parse std_sort (two_segment_elf a m b k) =
    (let img = \<lparr>entry = a, segments = std_sort [first_segment a m, second_segment b k]\<rparr>
     in if adjacent_overlap (segments img)
        then Inl (ElfError ''overlapping PT_LOAD memory ranges are rejected'')
        else if \<not> entry_is_executable img
        then Inl (ElfError ''ELF entry point is outside every executable PT_LOAD segment'')
        else Inr img)"
proof -
  let ?e = "two_segment_elf a m b k"
  have h: "check_header ?e = Inr ()"
    by (rule check_elf_header) (simp_all add: two_segment_fields)
  have p: "program_headers ?e = Inr (64, 56, 2)"
    using program_headers_fields [of ?e 64 2] by (simp add: two_segment_fields)
  have e: "read_u64 ?e 24 = Inr a"
    using read_fields(3) [of ?e 24 a] by (simp add: two_segment_fields)
  have s: "parse_segment ?e 64 = Inr (Some (first_segment a m))"
    using parse_program_header [of ?e 64 5 "0x100" a 4 m "0x1000"] assms(1,2)
    by (simp add: two_segment_fields first_segment_def not_less)
  have t: "parse_segment ?e 120 = Inr (Some (second_segment b k))"
    using parse_program_header [of ?e 120 6 0 b 0 k 0] assms(3)
    by (simp add: two_segment_fields second_segment_def)
  have "[0..<2] = [0, 1 :: nat]" by (simp add: upt_rec)
  then have "parse_segments ?e 64 56 [0..<2] = Inr [first_segment a m, second_segment b k]"
    using s t by simp
  then show ?thesis
    by (simp add: parse_def h p e throw_if_def Let_def)
qed

subsection \<open>Properties\<close>

text \<open>
  C23: an accepted image has at least one segment; every segment's payload lies inside the file and is
  no longer than its memory range, its memory range lies inside the address space, its load address is
  its virtual address, the segments are sorted, and the entry point lies in an executable segment.
\<close>

theorem parse_accepts_safe_images:
  assumes "parse std_sort bytes = Inr img" "sorts std_sort" "length bytes < 2 ^ 64"
  shows "segments img \<noteq> [] \<and> sorted (map load_address (segments img)) \<and>
    (\<forall>s\<in>set (segments img). unat (file_size s) \<le> unat (memory_size s) \<and>
       unat (file_offset s) + unat (file_size s) \<le> length bytes \<and>
       unat (load_address s) + unat (memory_size s) \<le> 2 ^ 64 \<and> load_address s = virtual_address s) \<and>
    (\<exists>s\<in>set (segments img). executable s \<and> unat (load_address s) \<le> unat (entry img) \<and>
       unat (entry img) < unat (load_address s) + unat (memory_size s))"
  using parse_ok [OF assms]
  by (auto simp: entry_is_executable_iff segment_ok_def word_le_nat_alt intro!: bexI)

lemma minimal_image:
  "parse (sort_key load_address) (minimal_elf 0x80000000 16) =
     Inr \<lparr>entry = 0x80000000, segments = [first_segment 0x80000000 16]\<rparr>"
  using parse_minimal_elf [OF sorts_sort_key, of "0x80000000" 16]
  by (simp add: add_overflows_def first_segment_def)

lemma minimal_elf_length: "length (minimal_elf a m) < 2 ^ 64"
  by simp

theorem parse_accepts_safe_images_witness:
  "\<exists>img. parse (sort_key load_address) (minimal_elf 0x80000000 16) = Inr img \<and> entry img = 0x80000000 \<and>
     (\<exists>s\<in>set (segments img). executable s \<and> unat (load_address s) \<le> 0x80000000 \<and>
        0x80000000 < unat (load_address s) + unat (memory_size s)) \<and>
     (\<forall>s\<in>set (segments img). unat (file_offset s) + unat (file_size s) \<le> length (minimal_elf 0x80000000 16))"
proof -
  from minimal_image obtain img where img: "parse (sort_key load_address) (minimal_elf 0x80000000 16) = Inr img"
    "entry img = 0x80000000"
    by simp
  from parse_accepts_safe_images [OF img(1) sorts_sort_key minimal_elf_length] img show ?thesis by auto
qed

text \<open>
  The images of \<^verbatim>\<open>tests/test_elf.cpp\<close>, for every load address and size: the parser accepts them
  exactly when the four payload bytes fit and the range does not leave the address space, and returns
  the segment that was written. One byte less or one address more is rejected.
\<close>

theorem parse_minimal_elf_iff:
  assumes "sorts std_sort"
  shows "parse std_sort (minimal_elf a m) = Inr img \<longleftrightarrow> 4 \<le> unat m \<and> unat a + unat m \<le> 2 ^ 64 \<and>
    img = \<lparr>entry = a, segments = [first_segment a m]\<rparr>"
proof -
  have "\<not> m < 4 \<Longrightarrow> unat (m - 1) = unat m - 1"
    by (rule unat_minus_one) (auto simp: word_less_nat_alt)
  then show ?thesis
    by (auto simp: parse_minimal_elf [OF assms] add_overflows_iff word_less_nat_alt)
qed

theorem parse_minimal_elf_iff_witness:
  "parse (sort_key load_address) (minimal_elf 0x80000000 3) \<noteq>
     Inr \<lparr>entry = 0x80000000, segments = [first_segment 0x80000000 3]\<rparr>"
  using parse_minimal_elf_iff [OF sorts_sort_key, of "0x80000000" 3] by simp

text \<open>
  C24: when no segment ends at the top of the address space, the memory ranges of an accepted image do
  not overlap.
\<close>

theorem accepted_segments_apart:
  assumes "parse std_sort bytes = Inr img" "sorts std_sort" "length bytes < 2 ^ 64"
    and "\<forall>s\<in>set (segments img). below_top s"
  shows "sorted_wrt (\<lambda>s t. unat (load_address s) + unat (memory_size s) \<le> unat (load_address t)) (segments img)"
  using adjacent_apart [OF parse_ok(3,4) [OF assms(1-3)] assms(4)] unfolding apart_def .

lemma two_segment_image:
  "parse (sort_key load_address) (two_segment_elf 0x80001000 16 0x80000000 0x1000) =
     Inr \<lparr>entry = 0x80001000, segments = [second_segment 0x80000000 0x1000, first_segment 0x80001000 16]\<rparr>"
  by (simp add: parse_two_segments add_overflows_def first_segment_def second_segment_def
      entry_is_executable_def executable_def Let_def)

theorem accepted_segments_apart_witness:
  "\<exists>img. parse (sort_key load_address) (two_segment_elf 0x80001000 16 0x80000000 0x1000) = Inr img \<and>
     length (segments img) = 2 \<and>
     sorted_wrt (\<lambda>s t. unat (load_address s) + unat (memory_size s) \<le> unat (load_address t)) (segments img)"
  using two_segment_image accepted_segments_apart [OF two_segment_image sorts_sort_key]
  by (simp add: below_top_def first_segment_def second_segment_def two_segment_fields)

text \<open>
  At the top of the address space the overlap check compares with a sum that has wrapped to zero,
  and the parser accepts two segments that share bytes.
\<close>

theorem overlap_at_top_accepted:
  "\<exists>img s t. parse (sort_key load_address) (two_segment_elf (- 0x1000) 0x1000 (- 0x800) 0x800) = Inr img \<and>
     segments img = [s, t] \<and> inside s (- 1) \<and> inside t (- 1)"
  by (subst parse_two_segments)
    (simp_all add: add_overflows_def first_segment_def second_segment_def entry_is_executable_def
      executable_def inside_def unsigned_minus_1_eq_mask mask_eq_exp_minus_1)

text \<open>
  A segment of size zero at the address of another one is accepted or rejected according to the
  order that the sorting routine gives to segments with equal addresses.
\<close>

theorem empty_segment_order:
  "\<exists>std_sort std_sort'. sorts std_sort \<and> sorts std_sort' \<and>
     parse std_sort (two_segment_elf 0x1000 16 0x1000 0) \<noteq> parse std_sort' (two_segment_elf 0x1000 16 0x1000 0)"
proof (intro exI conjI)
  show "sorts (sort_key load_address)" "sorts (\<lambda>ss. sort_key load_address (rev ss))"
    by (simp_all add: sorts_def)
  show "parse (sort_key load_address) (two_segment_elf 0x1000 16 0x1000 0) \<noteq>
      parse (\<lambda>ss. sort_key load_address (rev ss)) (two_segment_elf 0x1000 16 0x1000 0)"
    by (simp add: parse_two_segments add_overflows_def first_segment_def second_segment_def
        entry_is_executable_def executable_def)
qed

lemma failed_load_bus:
  assumes "bus_ok bus" "sorts std_sort" "\<forall>bytes. hf_read f = Some bytes \<longrightarrow> length bytes < 2 ^ 64"
    and "load_elf std_sort path f bus = (bus', Inl e)"
  shows "bus' = bus \<and> (\<exists>message. e = ElfError message)"
  using assms by (rule load_elf_outcome) simp_all

text \<open>
  C15: loading is all or nothing: when it fails, for whatever reason, the bus is the one before the call.
\<close>

theorem failed_load_changes_nothing:
  assumes "bus_ok bus" "sorts std_sort" "\<forall>bytes. hf_read f = Some bytes \<longrightarrow> length bytes < 2 ^ 64"
    and "load_elf std_sort path f bus = (bus', Inl e)"
  shows "bus' = bus \<and> (\<exists>message. e = ElfError message)"
  using assms by (rule failed_load_bus)

definition test_file :: "u8 list \<Rightarrow> HostFile" where
  "test_file bytes = \<lparr>hf_opens = True, hf_tellg = int (length bytes), hf_read = Some bytes\<rparr>"

definition test_bus :: Bus where
  "test_bus = \<lparr>devices = [RamDevice \<lparr>md_base = 0x80000000, md_size = 0x10000, md_name = ''ram'',
     ram_pages = Map.empty\<rparr>]\<rparr>"

lemma test_bus_ok: "bus_ok test_bus"
  by (simp add: bus_ok_def test_bus_def layout_def range_ok_def)

lemma test_file_length:
  "\<forall>bytes. hf_read (test_file (minimal_elf a m)) = Some bytes \<longrightarrow> length bytes < 2 ^ 64"
  by (simp add: test_file_def)

lemma read_test_file: "read_file path (test_file (minimal_elf a m)) = Inr (minimal_elf a m)"
  by (simp add: read_file_def test_file_def)

text \<open>The second test case: an image for another address leaves the bus as it was.\<close>

theorem failed_load_changes_nothing_witness:
  "\<exists>bus' e. load_elf (sort_key load_address) ''guest.elf'' (test_file (minimal_elf 0x90000000 16)) test_bus =
     (bus', Inl e) \<and> bus' = test_bus"
proof -
  have "\<exists>e. load_elf (sort_key load_address) ''guest.elf'' (test_file (minimal_elf 0x90000000 16)) test_bus =
     (test_bus, Inl e)"
    by (simp add: load_elf_def read_test_file parse_minimal_elf sorts_sort_key add_overflows_def
        first_segment_def invalid_range_def image_range_is_valid_def test_bus_def contains_def valid_width_def)
  then show ?thesis
    using failed_load_changes_nothing [OF test_bus_ok sorts_sort_key test_file_length] by blast
qed

lemma loaded_bus:
  assumes "bus_ok bus" "sorts std_sort" "\<forall>bytes. hf_read f = Some bytes \<longrightarrow> length bytes < 2 ^ 64"
    and "load_elf std_sort path f bus = (bus', Inr img)"
    and "\<forall>s\<in>set (segments img). below_top s"
  shows "\<exists>bytes. read_file path f = Inr bytes \<and> parse std_sort bytes = Inr img \<and>
    (\<forall>s\<in>set (segments img). \<forall>i<unat (memory_size s). ram_accessible bus' (load_address s + of_nat i) 1 \<and>
       bus_byte bus' (load_address s + of_nat i) =
         (if i < unat (file_size s) then bytes ! (unat (file_offset s) + i) else 0)) \<and>
    (\<forall>a. (\<forall>s\<in>set (segments img). \<not> inside s a) \<longrightarrow> bus_byte bus' a = bus_byte bus a)"
  using assms(1-4)
proof (rule load_elf_outcome)
  fix bytes img'
  assume i: "Inr img = Inr img'" and f: "read_file path f = Inr bytes" "parse std_sort bytes = Inr img'"
    "length bytes < 2 ^ 64"
    and ok: "\<forall>s\<in>set (segments img'). segment_ok (length bytes) s \<and> segment_accessible bus s"
    and l: "load_segments bytes bus (segments img') = (bus', None)"
  have img': "img' = img" using i by simp
  note loaded = load_segments_correct [OF ok, unfolded l fst_conv snd_conv, unfolded img']
  have apart: "sorted_wrt apart (segments img)"
    using adjacent_apart [OF parse_ok(3,4) [OF f(2) assms(2) f(3)]] assms(5) img' by simp
  have "ram_accessible bus' (load_address s + of_nat i) 1 \<and>
       bus_byte bus' (load_address s + of_nat i) = segment_byte bytes s i"
    if s: "s \<in> set (segments img)" "i < unat (memory_size s)" for s i
  proof -
    have "unat (load_address s + of_nat i) = unat (load_address s) + i"
      using s assms(5) by (intro unat_add_of_nat) (auto simp: below_top_def)
    then have "inside s (load_address s + of_nat i)" "unat (load_address s + of_nat i) - unat (load_address s) = i"
      using s(2) by (simp_all add: inside_def)
    then show ?thesis
      using loaded loaded_byte_inside [OF apart s(1)] ok s img' by (simp add: segment_accessible_def)
  qed
  then show ?thesis
    using f img' loaded by (intro exI [of _ bytes]) (auto simp: segment_byte_def loaded_byte_outside)
qed simp

text \<open>
  C9: after a successful load of an image none of whose segments ends at the top of the address space,
  every segment reads as its payload followed by zeros, and every byte outside the segments is the one
  before the call. Without the condition (\<open>below_top\<close>) accepted segments may overlap, and the later one
  overwrites the earlier.
\<close>

theorem loaded_memory:
  assumes "bus_ok bus" "sorts std_sort" "\<forall>bytes. hf_read f = Some bytes \<longrightarrow> length bytes < 2 ^ 64"
    and "load_elf std_sort path f bus = (bus', Inr img)"
    and "\<forall>s\<in>set (segments img). below_top s"
  shows "\<exists>bytes. read_file path f = Inr bytes \<and> parse std_sort bytes = Inr img \<and>
    (\<forall>s\<in>set (segments img). \<forall>i<unat (memory_size s). ram_accessible bus' (load_address s + of_nat i) 1 \<and>
       bus_byte bus' (load_address s + of_nat i) =
         (if i < unat (file_size s) then bytes ! (unat (file_offset s) + i) else 0)) \<and>
    (\<forall>a. (\<forall>s\<in>set (segments img). \<not> inside s a) \<longrightarrow> bus_byte bus' a = bus_byte bus a)"
  using assms by (rule loaded_bus)

theorem loaded_memory_witness:
  "\<exists>bus' img. load_elf (sort_key load_address) ''guest.elf'' (test_file (minimal_elf 0x80000000 16)) test_bus =
     (bus', Inr img) \<and> bus_byte bus' 0x80000000 = 0x13 \<and> bus_byte bus' 0x80000008 = 0"
proof -
  let ?load = "load_elf (sort_key load_address) ''guest.elf'' (test_file (minimal_elf 0x80000000 16)) test_bus"
  let ?img = "\<lparr>entry = 0x80000000, segments = [first_segment 0x80000000 16]\<rparr>"
  obtain bus' r where l: "?load = (bus', r)" by (metis surj_pair)
  have v: "image_range_is_valid test_bus 0x80000000 16"
    by (simp add: image_range_is_valid_def test_bus_def add_overflows_def contains_def valid_width_def)
  then have "\<forall>s\<in>set [first_segment 0x80000000 16]. segment_ok (length (minimal_elf 0x80000000 16)) s \<and>
      segment_accessible test_bus s"
    using image_range_accessible(2) [OF test_bus_ok v]
    by (simp add: segment_ok_def segment_accessible_def first_segment_def)
  from load_segments_correct [OF this] have "snd ?load = Inr ?img"
    using v by (auto simp: load_elf_def read_test_file parse_minimal_elf sorts_sort_key add_overflows_def
      invalid_range_def first_segment_def split: prod.split option.split)
  then have r: "?load = (bus', Inr ?img)" using l by simp
  have top: "\<forall>s\<in>set (segments ?img). below_top s" by (simp add: below_top_def first_segment_def)
  obtain bytes where b: "read_file ''guest.elf'' (test_file (minimal_elf 0x80000000 16)) = Inr bytes"
    "\<forall>i<unat (memory_size (first_segment 0x80000000 16)).
       bus_byte bus' (load_address (first_segment 0x80000000 16) + of_nat i) =
         (if i < unat (file_size (first_segment 0x80000000 16))
          then bytes ! (unat (file_offset (first_segment 0x80000000 16)) + i) else 0)"
    using loaded_memory [OF test_bus_ok sorts_sort_key test_file_length r top] by auto
  have "bus_byte bus' 0x80000000 = 0x13" "bus_byte bus' 0x80000008 = 0"
    using b(2) [rule_format, of 0] b(2) [rule_format, of 8] b(1)
    by (auto simp add: first_segment_def read_test_file minimal_elf_payload [simplified])
  then show ?thesis using r by blast
qed

end
