(* ===== verification/MachineModel.thy ===== *)
theory MachineModel
  imports Runs ElfLoad
begin

text \<open>
  The machine (\<^verbatim>\<open>machine.hpp\<close>, \<^verbatim>\<open>machine.cpp\<close>): a bus with one RAM and one UART, and a hart on
  that bus. The bus is the one inside the hart's state. The pointers \<^verbatim>\<open>ram_\<close> and \<^verbatim>\<open>uart_\<close> into
  the bus are the base addresses of the devices, which the mapping invariant makes unique.
\<close>

subsection \<open>Configuration and construction\<close>

record MachineConfig =
  mc_ram_base :: u64
  mc_ram_size :: u64
  mc_uart_base :: u64
  mc_cpu :: CpuConfig

text \<open>The default member initialisers.\<close>

definition default_cpu_config :: CpuConfig where
  "default_cpu_config = \<lparr>trap_policy = Halt, halt_on_ebreak = True, halt_on_wfi = True\<rparr>"

definition default_machine_config :: MachineConfig where
  "default_machine_config = \<lparr>mc_ram_base = 0x80000000, mc_ram_size = 128 * 1024 * 1024,
     mc_uart_base = kDefaultBase, mc_cpu = default_cpu_config\<rparr>"

record MachineState =
  m_cpu :: Cpu
  m_ram :: u64
  m_uart :: u64

definition make_machine :: "MachineConfig \<Rightarrow> string option \<Rightarrow> exn + MachineState" where
  "make_machine c output =
     and_then (make_sparse_ram (mc_ram_base c) (mc_ram_size c) ''ram'') (\<lambda>ram.
     and_then (add_device \<lparr>devices = []\<rparr> (Some (RamDevice ram))) (\<lambda>bus1.
     and_then (make_uart (mc_uart_base c) output) (\<lambda>uart.
     and_then (add_device bus1 (Some (UartDevice uart))) (\<lambda>bus2.
     Inr \<lparr>m_cpu = make_cpu bus2 (mc_cpu c), m_ram = mc_ram_base c, m_uart = mc_uart_base c\<rparr>))))"

subsection \<open>Operations\<close>

text \<open>A call through a device pointer.\<close>

definition at_device :: "u64 \<Rightarrow> (Device \<Rightarrow> Device) \<Rightarrow> Bus \<Rightarrow> Bus" where
  "at_device pointer f b =
     b\<lparr>devices := map (\<lambda>d. if device_base d = pointer then f d else d) (devices b)\<rparr>"

fun device_clear :: "Device \<Rightarrow> Device" where
  "device_clear (RamDevice r) = RamDevice (ram_clear r)"
| "device_clear (UartDevice u) = UartDevice (clear_transmitted u)"

definition machine_load ::
  "(ElfSegment list \<Rightarrow> ElfSegment list) \<Rightarrow> string \<Rightarrow> HostFile \<Rightarrow> MachineState \<Rightarrow>
     MachineState \<times> (exn + ElfImage)" where
  "machine_load std_sort path f m =
     (let bus1 = at_device (m_ram m) device_clear (bus (m_cpu m));
          bus2 = at_device (m_uart m) device_clear bus1;
          (bus3, result) = load_elf std_sort path f bus2;
          m3 = m\<lparr>m_cpu := (m_cpu m)\<lparr>bus := bus3\<rparr>\<rparr>
      in (case result of
            Inl e \<Rightarrow> (m3, Inl e)
          | Inr img \<Rightarrow> (m3\<lparr>m_cpu := cpu_reset (m_cpu m3) (entry img)\<rparr>, Inr img)))"

definition machine_run ::
  "('t \<Rightarrow> StepRecord \<Rightarrow> exn + 't) \<Rightarrow> MachineState \<Rightarrow> 't \<Rightarrow> u64 \<Rightarrow> exn + (MachineState \<times> 't \<times> RunResult)" where
  "machine_run emit m trace maximum_steps =
     and_then (run emit (m_cpu m) trace maximum_steps) (\<lambda>(cpu, trace', result).
     Inr (m\<lparr>m_cpu := cpu\<rparr>, trace', result))"

subsection \<open>The invariant\<close>

text \<open>The hart's invariant, and the two devices with their pointers.\<close>

definition machine_devices :: "MachineState \<Rightarrow> SparseRam \<Rightarrow> Uart16550 \<Rightarrow> bool" where
  "machine_devices m r u \<longleftrightarrow>
     (devices (bus (m_cpu m)) = [RamDevice r, UartDevice u] \<or>
      devices (bus (m_cpu m)) = [UartDevice u, RamDevice r]) \<and>
     md_base r = m_ram m \<and> md_base u = m_uart m"

definition machine_ok :: "MachineState \<Rightarrow> bool" where
  "machine_ok m \<longleftrightarrow> cpu_ok (m_cpu m) \<and> (\<exists>r u. machine_devices m r u)"

end
