(* ===== verification/Quiet.thy ===== *)
theory Quiet
  imports Runs ElfLoad
begin

text \<open>
  The host stream attached to the UART has no influence on the machine: forgetting it commutes with
  every bus access, with loading an image, and with every step and run of the hart.
\<close>

subsection \<open>The host stream has no influence\<close>

fun quiet_device :: "Device \<Rightarrow> Device" where
  "quiet_device (RamDevice r) = RamDevice r"
| "quiet_device (UartDevice u) = UartDevice (u\<lparr>uart_output := None\<rparr>)"

definition quiet :: "Bus \<Rightarrow> Bus" where
  "quiet b = b\<lparr>devices := map quiet_device (devices b)\<rparr>"

lemma quiet_device_simps [simp]:
  "layout (quiet_device d) = layout d" "device_base (quiet_device d) = device_base d"
  "device_name (quiet_device d) = device_name d" "accepts_image (quiet_device d) = accepts_image d"
  "device_contains (quiet_device d) = device_contains d" "device_read (quiet_device d) = device_read d"
  by (cases d; simp add: layout_def contains_def uart_read_def fun_eq_iff)+

lemma device_write_quiet:
  "device_write (quiet_device d) a w v = map_prod quiet_device id (device_write d a w v)"
  by (cases d) (simp_all add: uart_write_def Let_def map_prod_def split_beta)

lemma quiet_find [simp]: "find_device (devices (quiet b)) a w = find_device (devices b) a w"
  by (rule find_device_layout) (simp add: quiet_def comp_def)

lemma quiet_nth: "i < length (devices b) \<Longrightarrow> devices (quiet b) ! i = quiet_device (devices b ! i)"
  by (simp add: quiet_def)

lemma bus_read_quiet: "bus_read (quiet b) a w k = bus_read b a w k"
  by (auto simp: bus_read_def Let_def quiet_nth device_detail_def dest: find_device_Some split: option.split sum.split)

lemma bus_write_quiet: "bus_write (quiet b) a w v k = map_prod quiet id (bus_write b a w v k)"
proof (cases "find_device (devices b) a w")
  case (Some i)
  then have i: "i < length (devices b)" using find_device_Some by blast
  obtain d e where "device_write (devices b ! i) (a - device_base (devices b ! i)) w v = (d, e)"
    by (metis surj_pair)
  then show ?thesis
    using Some i
    by (simp add: bus_write_def Let_def quiet_nth device_write_quiet device_detail_def split: option.split)
      (simp add: quiet_def map_update)
qed (simp add: bus_write_def)

lemma write_bytes_loop_quiet:
  "write_bytes_loop (quiet b) a n bytes k = map_prod quiet id (write_bytes_loop b a n bytes k)"
  by (induction bytes arbitrary: b n) (simp_all add: bus_write_quiet split: prod.split option.split)

lemma write_bytes_quiet: "write_bytes (quiet b) a bytes k = map_prod quiet id (write_bytes b a bytes k)"
  by (simp add: write_bytes_def write_bytes_loop_quiet)

lemma zero_fill_quiet: "zero_fill (quiet b) a off n = map_prod quiet id (zero_fill b a off n)"
  by (induction n arbitrary: b off) (simp_all add: bus_write_quiet split: prod.split option.split)

lemma load_segment_quiet: "load_segment bytes (quiet b) s = map_prod quiet id (load_segment bytes b s)"
  by (simp add: load_segment_def write_bytes_quiet zero_fill_quiet split: prod.split option.split)

lemma load_segments_quiet: "load_segments bytes (quiet b) ss = map_prod quiet id (load_segments bytes b ss)"
  by (induction ss arbitrary: b) (simp_all add: load_segment_quiet split: prod.split option.split)

lemma image_range_quiet: "image_range_is_valid (quiet b) a sz = image_range_is_valid b a sz"
  by (auto simp: image_range_is_valid_def quiet_nth dest: find_device_Some split: option.split)

lemma load_elf_quiet: "load_elf std_sort path f (quiet b) = map_prod quiet id (load_elf std_sort path f b)"
  by (simp add: load_elf_def invalid_range_def [abs_def] image_range_quiet load_segments_quiet
      split: sum.split option.split prod.split)

subsection \<open>The hart does not see the host stream\<close>

definition hush :: "Cpu \<Rightarrow> Cpu" where
  "hush cpu = cpu\<lparr>bus := quiet (bus cpu)\<rparr>"

lemma hush_sel [simp]:
  "config (hush c) = config c" "registers (hush c) = registers c" "pc (hush c) = pc c"
  "privilege (hush c) = privilege c" "csrs (hush c) = csrs c" "sequence_number (hush c) = sequence_number c"
  "halted (hush c) = halted c" "halt_detail (hush c) = halt_detail c" "terminal_trap (hush c) = terminal_trap c"
  "bus (hush c) = quiet (bus c)"
  by (simp_all add: hush_def)

lemma hush_update [simp]:
  "(hush c)\<lparr>registers := x1\<rparr> = hush (c\<lparr>registers := x1\<rparr>)" "(hush c)\<lparr>pc := x2\<rparr> = hush (c\<lparr>pc := x2\<rparr>)"
  "(hush c)\<lparr>privilege := x3\<rparr> = hush (c\<lparr>privilege := x3\<rparr>)" "(hush c)\<lparr>csrs := x4\<rparr> = hush (c\<lparr>csrs := x4\<rparr>)"
  "(hush c)\<lparr>sequence_number := x5\<rparr> = hush (c\<lparr>sequence_number := x5\<rparr>)"
  "(hush c)\<lparr>halted := x6\<rparr> = hush (c\<lparr>halted := x6\<rparr>)"
  "(hush c)\<lparr>halt_detail := x7\<rparr> = hush (c\<lparr>halt_detail := x7\<rparr>)"
  "(hush c)\<lparr>terminal_trap := x8\<rparr> = hush (c\<lparr>terminal_trap := x8\<rparr>)"
  "(hush c)\<lparr>bus := quiet b\<rparr> = hush (c\<lparr>bus := b\<rparr>)"
  by (simp_all add: hush_def)

lemma raise_trap_hush: "raise_trap (hush c) r cause v d = map_prod hush id (raise_trap c r cause v d)"
  by (simp add: raise_trap_def Let_def split: prod.split)

lemma write_register_hush: "write_register (hush c) r i v = map_prod hush id (write_register c r i v)"
  by (simp add: write_register_def)

lemma walk_hush: "walk_sv39 (quiet b) a x = walk_sv39 b a x"
  by (rule walk_sv39_cong) (rule bus_read_quiet)

lemma context_hush: "sv39_context (hush c) a = sv39_context c a"
  by (simp add: sv39_context_def)

lemma translate_hush: "translate (hush c) r a x = map_prod hush id (translate c r a x)"
  by (simp add: translate_def walk_hush context_hush raise_trap_hush Let_def split: prod.split sum.split)

lemma load_hush: "load (hush c) r a w s = map_prod hush id (load c r a w s)"
  by (simp add: load_def translate_hush raise_trap_hush bus_read_quiet Let_def split: prod.split sum.split option.split)

lemma store_hush: "store (hush c) r a w v = map_prod hush id (store c r a w v)"
  by (simp add: store_def translate_hush raise_trap_hush bus_write_quiet Let_def split: prod.split option.split)

lemma finish_hush: "finish (map_prod hush id s) b = map_prod hush id (finish s b)"
  by (simp add: finish_def)

lemma jump_hush: "jump (hush c) r rd s t = map_prod hush id (jump c r rd s t)"
  by (simp add: jump_def raise_trap_hush write_register_hush finish_hush split: prod.split)

lemma branch_hush: "branch (hush c) r i t = map_prod hush id (branch c r i t)"
  by (simp add: branch_def raise_trap_hush Let_def)

lemma exec_control_hush: "exec_control (hush c) r i a b s = map_prod hush id (exec_control c r i a b s)"
  by (simp add: exec_control_def Let_def write_register_hush finish_hush jump_hush branch_hush)

lemma exec_memory_hush: "exec_memory (hush c) r i a b = map_sum id (map_prod hush id) (exec_memory c r i a b)"
  by (simp add: exec_memory_def Let_def load_hush store_hush write_register_hush finish_hush split_beta
      del: insert_iff split: option.split sum.split)

lemma exec_ebreak_hush: "exec_ebreak (hush c) r = map_prod hush id (exec_ebreak c r)"
  by (cases "raise_trap c r Breakpoint 0 ''EBREAK requested a debugger trap''")
    (simp add: exec_ebreak_def raise_trap_hush)

lemma exec_return_hush: "exec_return (hush c) m = hush (exec_return c m)"
  by (simp add: exec_return_def Let_def split: prod.split)

lemma exec_system_hush: "exec_system (hush c) r i = map_prod hush id (exec_system c r i)"
  by (simp add: exec_system_def Let_def raise_trap_hush finish_hush exec_ebreak_hush exec_return_hush split: prod.split)

lemma exec_csr_hush: "exec_csr (hush c) r i a = map_prod hush id (exec_csr c r i a)"
  by (simp add: exec_csr_def Let_def raise_trap_hush finish_hush write_register_hush
      split: prod.split sum.split option.split)

lemma execute_operation_hush:
  "execute_operation (hush c) r i a b s = map_sum id (map_prod hush id) (execute_operation c r i a b s)"
  by (simp add: execute_operation_def Let_def exec_control_hush exec_memory_hush exec_system_hush exec_csr_hush
      write_register_hush finish_hush)

lemma reg_hush: "reg (hush c) i = reg c i"
  by (simp add: reg_def)

lemma execute_hush: "execute (hush c) r i = map_sum id (map_prod hush id) (execute c r i)"
  by (auto simp: execute_def Let_def reg_hush execute_operation_hush split_beta split: sum.split)

lemma step_hush: "step (hush c) = map_sum id (map_prod hush id) (step c)"
  by (auto simp: step_def Let_def raise_trap_hush translate_hush bus_read_quiet execute_hush split_beta
      split: option.split sum.split)

lemma steps_hush: "steps c rs c' \<Longrightarrow> steps (hush c) rs (hush c')"
proof (induction rule: steps.induct)
  case (steps_step cpu cpu1 r rs cpu')
  then show ?case by (intro steps.steps_step [of "hush cpu" "hush cpu1"]) (simp_all add: step_hush)
qed (rule steps.steps_done)

lemma run_loop_hush:
  "run_loop emit n (hush c) t k = map_sum id (map_prod hush id) (run_loop emit n c t k)"
  by (induction n arbitrary: c t k) (simp_all add: step_hush split: sum.split prod.split)

lemma steps_unhush: "steps (hush c) rs d \<Longrightarrow> \<exists>c'. steps c rs c' \<and> d = hush c'"
proof (induction rs arbitrary: c)
  case (Cons r rs)
  then obtain d1 where d: "\<not> halted c" "step (hush c) = Inr (d1, r)" "steps d1 rs d"
    by (auto elim: steps_ConsE)
  then obtain c1 where c: "step c = Inr (c1, r)" "d1 = hush c1"
    by (cases "step c") (auto simp: step_hush)
  from Cons.IH [OF d(3) [unfolded c(2)]] show ?case using steps.steps_step [OF d(1) c(1)] by blast
qed (auto intro: steps.steps_done)

lemma hush_same_steps:
  assumes "hush c = hush d"
  shows "(\<exists>c'. steps c rs c') = (\<exists>d'. steps d rs d')"
  using steps_hush [of c rs] steps_hush [of d rs] steps_unhush [of c rs] steps_unhush [of d rs] assms by metis

end
