(* ===== verification/MachineLoad.thy ===== *)
theory MachineLoad
  imports MachineModel Quiet
begin

text \<open>
  The facts about the machine: construction and every operation keep its invariant; what a load leaves
  in memory, after a success and after a failure; and reproducibility: loading an image again, after
  any run, gives a machine with the same executions.
\<close>

subsection \<open>What a run leaves of the devices\<close>

fun pristine_device :: "Device \<Rightarrow> Device" where
  "pristine_device (RamDevice r) = RamDevice (ram_clear r)"
| "pristine_device (UartDevice u) = UartDevice (u\<lparr>uart_transmitted := [], uart_output := None\<rparr>)"

definition pristine :: "Bus \<Rightarrow> Bus" where
  "pristine b = b\<lparr>devices := map pristine_device (devices b)\<rparr>"

lemma pristine_write_byte: "ram_clear (write_byte r a v) = ram_clear r"
  by (simp add: ram_clear_def write_byte_def Let_def)

lemma pristine_ram_write: "ram_clear (fst (ram_write r a w v)) = ram_clear r"
proof -
  have "ram_clear (fold (\<lambda>i r. write_byte r (f i) (g i)) xs r) = ram_clear r" for f g and xs :: "nat list" and r
    by (induction xs arbitrary: r) (simp_all add: pristine_write_byte)
  then show ?thesis by (simp add: ram_write_def ram_write_loop_def)
qed

lemma pristine_device_write: "pristine_device (fst (device_write d a w v)) = pristine_device d"
  by (cases d) (simp_all add: pristine_ram_write uart_write_def Let_def)

lemma pristine_bus_write: "pristine (fst (bus_write b a w v k)) = pristine b"
proof (cases "find_device (devices b) a w")
  case (Some i)
  then have i: "i < length (devices b)" using find_device_Some by blast
  obtain d e where w: "device_write (devices b ! i) (a - device_base (devices b ! i)) w v = (d, e)"
    by (metis surj_pair)
  then have "pristine_device d = pristine_device (devices b ! i)"
    using pristine_device_write [of "devices b ! i" "a - device_base (devices b ! i)" w v] by simp
  then have "map pristine_device ((devices b)[i := d]) = map pristine_device (devices b)"
    using i by (simp add: map_update list_update_same_conv)
  then show ?thesis
    using Some w by (simp add: bus_write_def Let_def pristine_def split: option.split)
qed (simp add: bus_write_def)

lemma pristine_replay: "pristine (replay_bus b r) = pristine b"
  by (simp add: replay_bus_def pristine_bus_write split: option.split)

lemma pristine_steps: "steps cpu rs cpu' \<Longrightarrow> cpu_ok cpu \<Longrightarrow> pristine (bus cpu') = pristine (bus cpu)"
proof (induction rule: steps.induct)
  case (steps_step cpu cpu1 r rs cpu')
  have "regs_ok (registers cpu)" using steps_step.prems by (simp add: cpu_ok_def)
  from step_record(2) [OF this steps_step.hyps(2)] steps_step step_ok [OF steps_step.prems steps_step.hyps(2)]
  show ?case by (simp add: pristine_replay)
qed simp

lemma pristine_write_bytes_loop: "pristine (fst (write_bytes_loop b a n bytes k)) = pristine b"
proof (induction bytes arbitrary: b n)
  case (Cons x bytes)
  then show ?case
    using pristine_bus_write [of b "a + of_nat n" 1 "ucast x" k] by (auto split: prod.split option.split)
qed simp

lemma pristine_write_bytes: "pristine (fst (write_bytes b a bytes k)) = pristine b"
  by (simp add: write_bytes_def pristine_write_bytes_loop)

lemma pristine_zero_fill: "pristine (fst (zero_fill b a off n)) = pristine b"
proof (induction n arbitrary: b off)
  case (Suc n)
  then show ?case
    using pristine_bus_write [of b "a + off" 1 0 ImageLoad] by (auto split: prod.split option.split)
qed simp

lemma pristine_load_segment: "pristine (fst (load_segment bytes b s)) = pristine b"
  using pristine_write_bytes [of b "load_address s" "payload bytes s" ImageLoad]
    pristine_zero_fill [of "fst (write_bytes b (load_address s) (payload bytes s) ImageLoad)" "load_address s"
      "file_size s" "unat (memory_size s) - unat (file_size s)"]
  by (auto simp add: load_segment_def split: prod.split option.split)

lemma pristine_load_segments: "pristine (fst (load_segments bytes b ss)) = pristine b"
proof (induction ss arbitrary: b)
  case (Cons s ss)
  then show ?case using pristine_load_segment [of bytes b s] by (auto split: prod.split option.split)
qed simp

lemma pristine_load_elf: "pristine (fst (load_elf std_sort path f b)) = pristine b"
proof -
  have "pristine b' = pristine b" if "load_segments bytes b ss = (b', e)" for bytes ss b' e
    using pristine_load_segments [of bytes b ss] that by simp
  then show ?thesis by (simp add: load_elf_def split: sum.split option.split prod.split)
qed

subsection \<open>The machine invariant\<close>

lemma regs_ok_reset: "regs_ok (replicate 32 0)"
  by (simp add: regs_ok_def)

lemma cpu_reset_ok: "bus_ok (bus cpu) \<Longrightarrow> cpu_ok (cpu_reset cpu a)"
  by (simp add: cpu_ok_def cpu_reset_def regs_ok_reset csr_reset_ok)

lemma make_machine_ok:
  assumes "make_machine c output = Inr m"
  shows "machine_ok m"
proof -
  obtain ram bus1 uart bus2 where
    *: "make_sparse_ram (mc_ram_base c) (mc_ram_size c) ''ram'' = Inr ram"
      "add_device \<lparr>devices = []\<rparr> (Some (RamDevice ram)) = Inr bus1"
      "make_uart (mc_uart_base c) output = Inr uart"
      "add_device bus1 (Some (UartDevice uart)) = Inr bus2"
      "m = \<lparr>m_cpu = make_cpu bus2 (mc_cpu c), m_ram = mc_ram_base c, m_uart = mc_uart_base c\<rparr>"
    using assms by (auto simp: make_machine_def)
  have r: "device_ok (RamDevice ram)" "md_base ram = mc_ram_base c"
    using *(1) make_mapped_device_ok [of "mc_ram_base c" "mc_ram_size c" "''ram''"]
    by (auto simp: make_sparse_ram_def device_ok_def layout_def MappedDevice.defs SparseRam.defs split: sum.splits)
  have u: "device_ok (UartDevice uart)" "md_base uart = mc_uart_base c"
    using *(3) make_mapped_device_ok [of "mc_uart_base c" kRegisterSpan "''uart16550''"]
    by (auto simp: make_uart_def device_ok_def layout_def MappedDevice.defs Uart16550.defs split: sum.splits)
  have b1: "devices bus1 = [RamDevice ram]" using *(2) by (auto simp: add_device_def split: if_splits)
  have "bus_ok bus1" using add_device_ok [OF bus_ok_empty r(1) *(2)] by simp
  then have b2: "bus_ok bus2" using add_device_ok [OF _ u(1) *(4)] by simp
  have "devices bus2 = sort_key device_base [RamDevice ram, UartDevice uart]"
    using *(4) by (auto simp: add_device_def b1 split: option.splits if_splits)
  then have "devices bus2 = [RamDevice ram, UartDevice uart] \<or> devices bus2 = [UartDevice uart, RamDevice ram]"
    by auto
  then show ?thesis
    using r u b2 *(5) by (auto simp: machine_ok_def machine_devices_def make_cpu_def cpu_reset_ok) (auto simp: cpu_reset_def)
qed

lemma pristine_layout: "map layout (devices (pristine b)) = map layout (devices b)"
proof -
  have "layout (pristine_device d) = layout d" for d
    by (cases d) (simp_all add: layout_def ram_clear_def)
  then show ?thesis by (simp add: pristine_def)
qed

lemma pristine_bus_ok: "pristine b = pristine b' \<Longrightarrow> bus_ok b = bus_ok b'"
  by (rule bus_ok_layout) (metis pristine_layout)

lemma pristine_ram: "pristine_device d = RamDevice r \<Longrightarrow> \<exists>r'. d = RamDevice r' \<and> md_base r' = md_base r"
  by (cases d) (auto simp: ram_clear_def)

lemma pristine_uart: "pristine_device d = UartDevice u \<Longrightarrow> \<exists>u'. d = UartDevice u' \<and> md_base u' = md_base u"
  by (cases d) auto

lemma pristine_devices:
  assumes "machine_devices m r u" "pristine (bus (m_cpu m')) = pristine (bus (m_cpu m))"
    "m_ram m' = m_ram m" "m_uart m' = m_uart m"
  shows "\<exists>r u. machine_devices m' r u"
proof -
  have d: "map pristine_device (devices (bus (m_cpu m'))) = map pristine_device (devices (bus (m_cpu m)))"
    using arg_cong [OF assms(2), of devices] by (simp add: pristine_def)
  have base: "md_base (ram_clear x) = md_base x" for x by (simp add: ram_clear_def)
  from assms(1) consider "devices (bus (m_cpu m)) = [RamDevice r, UartDevice u]"
    | "devices (bus (m_cpu m)) = [UartDevice u, RamDevice r]"
    by (auto simp: machine_devices_def)
  then show ?thesis
  proof cases
    case 1
    with d obtain x y where "devices (bus (m_cpu m')) = [x, y]" "pristine_device x = RamDevice (ram_clear r)"
      "pristine_device y = UartDevice (u\<lparr>uart_transmitted := [], uart_output := None\<rparr>)"
      by auto
    then show ?thesis
      using assms(1,3,4) pristine_ram [of x] pristine_uart [of y] by (fastforce simp: machine_devices_def base)
  next
    case 2
    with d obtain x y where "devices (bus (m_cpu m')) = [x, y]" "pristine_device y = RamDevice (ram_clear r)"
      "pristine_device x = UartDevice (u\<lparr>uart_transmitted := [], uart_output := None\<rparr>)"
      by auto
    then show ?thesis
      using assms(1,3,4) pristine_ram [of y] pristine_uart [of x] by (fastforce simp: machine_devices_def base)
  qed
qed

text \<open>The two clear operations of \<^verbatim>\<open>Machine::load\<close> reach both devices, each once.\<close>

definition cleared :: "Bus \<Rightarrow> Bus" where
  "cleared b = b\<lparr>devices := map device_clear (devices b)\<rparr>"

lemma device_clear_base: "device_base (device_clear d) = device_base d"
  by (cases d) (simp_all add: ram_clear_def clear_transmitted_def)

lemma machine_bases: "machine_ok m \<Longrightarrow> m_ram m \<noteq> m_uart m"
  by (auto simp: machine_ok_def machine_devices_def cpu_ok_def bus_ok_def range_ok_def range_before_def layout_def)

lemma machine_cleared:
  assumes "machine_ok m"
  shows "at_device (m_uart m) device_clear (at_device (m_ram m) device_clear (bus (m_cpu m))) = cleared (bus (m_cpu m))"
  using assms machine_bases [OF assms]
  by (auto simp: machine_ok_def machine_devices_def at_device_def cleared_def ram_clear_def clear_transmitted_def)

lemma quiet_cleared: "quiet (cleared b) = pristine b"
proof -
  have "quiet_device (device_clear d) = pristine_device d" for d by (cases d) (simp_all add: clear_transmitted_def)
  then show ?thesis by (simp add: quiet_def cleared_def pristine_def)
qed

lemma pristine_cleared: "pristine (cleared b) = pristine b"
proof -
  have "pristine_device (device_clear d) = pristine_device d" for d
    by (cases d) (simp_all add: clear_transmitted_def ram_clear_def)
  then show ?thesis by (simp add: cleared_def pristine_def)
qed

lemma cleared_ok: "bus_ok b \<Longrightarrow> bus_ok (cleared b)"
  using pristine_bus_ok [OF pristine_cleared] by blast

lemma cleared_byte: "bus_byte (cleared b) a = 0"
proof -
  have "bus_byte (cleared b) a = 0" if "find_device (devices (cleared b)) a 1 = Some i" for i
  proof -
    have "i < length (devices b)" using find_device_Some [OF that] by (simp add: cleared_def)
    then show ?thesis
      using that by (cases "devices b ! i") (simp_all add: bus_byte_def cleared_def read_byte_def ram_clear_def)
  qed
  then show ?thesis by (cases "find_device (devices (cleared b)) a 1") (simp_all add: bus_byte_def)
qed

lemma machine_load_eq:
  assumes "machine_ok m"
  shows "machine_load std_sort path f m =
    (case load_elf std_sort path f (cleared (bus (m_cpu m))) of
       (b, Inl e) \<Rightarrow> (m\<lparr>m_cpu := (m_cpu m)\<lparr>bus := b\<rparr>\<rparr>, Inl e)
     | (b, Inr img) \<Rightarrow> (m\<lparr>m_cpu := cpu_reset ((m_cpu m)\<lparr>bus := b\<rparr>) (entry img)\<rparr>, Inr img))"
  using machine_cleared [OF assms] by (simp add: machine_load_def Let_def split: prod.split sum.split)

lemma machine_load_pristine:
  assumes "machine_ok m" "machine_load std_sort path f m = (m', result)"
  shows "pristine (bus (m_cpu m')) = pristine (bus (m_cpu m))" "m_ram m' = m_ram m" "m_uart m' = m_uart m"
    "config (m_cpu m') = config (m_cpu m)"
proof -
  have "pristine b = pristine (bus (m_cpu m))" if "load_elf std_sort path f (cleared (bus (m_cpu m))) = (b, x)" for b x
    using pristine_load_elf [of std_sort path f "cleared (bus (m_cpu m))"] that by (simp add: pristine_cleared)
  then show "pristine (bus (m_cpu m')) = pristine (bus (m_cpu m))" "m_ram m' = m_ram m" "m_uart m' = m_uart m"
    "config (m_cpu m') = config (m_cpu m)"
    using assms(2) by (auto simp: machine_load_eq [OF assms(1)] cpu_reset_def split: prod.splits sum.splits)
qed

lemma machine_load_ok:
  assumes "machine_ok m" "machine_load std_sort path f m = (m', result)"
  shows "machine_ok m'"
proof -
  note p = machine_load_pristine [OF assms]
  have b: "bus_ok (bus (m_cpu m'))"
    using pristine_bus_ok [OF p(1)] assms(1) by (simp add: machine_ok_def cpu_ok_def)
  then have "cpu_ok (m_cpu m')"
    using assms by (auto simp: machine_load_eq [OF assms(1)] machine_ok_def cpu_ok_def cpu_reset_def regs_ok_reset
      csr_reset_ok split: prod.splits sum.splits)
  then show ?thesis using pristine_devices [OF _ p(1-3)] assms(1) by (auto simp: machine_ok_def)
qed

lemma machine_steps_ok: "machine_ok m \<Longrightarrow> steps (m_cpu m) rs cpu \<Longrightarrow> machine_ok (m\<lparr>m_cpu := cpu\<rparr>)"
  using pristine_devices [of m _ _ "m\<lparr>m_cpu := cpu\<rparr>"] pristine_steps [of "m_cpu m" rs cpu] steps_ok [of "m_cpu m" rs cpu]
  by (auto simp: machine_ok_def)

lemma steps_config: "steps cpu rs cpu' \<Longrightarrow> cpu_ok cpu \<Longrightarrow> config cpu' = config cpu"
proof (induction rule: steps.induct)
  case (steps_step cpu cpu1 r rs cpu')
  have "regs_ok (registers cpu)" using steps_step.prems by (simp add: cpu_ok_def)
  from step_record(7) [OF this steps_step.hyps(2)] steps_step step_ok [OF steps_step.prems steps_step.hyps(2)]
  show ?case by simp
qed simp

lemma machine_load_again:
  assumes ok: "machine_ok m" and load: "machine_load std_sort path f m = (m1, Inr img)"
    and steps: "steps (m_cpu m1) rs cpu"
    and again: "machine_load std_sort path f (m1\<lparr>m_cpu := cpu\<rparr>) = (m2, result)"
  shows "result = Inr img \<and> hush (m_cpu m2) = hush (m_cpu m1)"
proof -
  have ok1: "machine_ok m1" by (rule machine_load_ok [OF ok load])
  have ok2: "machine_ok (m1\<lparr>m_cpu := cpu\<rparr>)" by (rule machine_steps_ok [OF ok1 steps])
  have cpu1: "cpu_ok (m_cpu m1)" using ok1 by (simp add: machine_ok_def)
  have p: "pristine (bus cpu) = pristine (bus (m_cpu m))"
    using pristine_steps [OF steps cpu1] machine_load_pristine(1) [OF ok load] by simp
  let ?load = "\<lambda>b. load_elf std_sort path f (cleared b)"
  obtain b1 where b1: "?load (bus (m_cpu m)) = (b1, Inr img)"
    "m1 = m\<lparr>m_cpu := cpu_reset ((m_cpu m)\<lparr>bus := b1\<rparr>) (entry img)\<rparr>"
    using load by (auto simp: machine_load_eq [OF ok] split: prod.splits sum.splits)
  obtain b2 r2 where b2: "?load (bus cpu) = (b2, r2)" by (metis surj_pair)
  have "map_prod quiet id (?load (bus cpu)) = map_prod quiet id (?load (bus (m_cpu m)))"
    using load_elf_quiet [of std_sort path f "cleared (bus cpu)"]
      load_elf_quiet [of std_sort path f "cleared (bus (m_cpu m))"] p by (simp add: quiet_cleared)
  then have same: "quiet b2 = quiet b1" "r2 = Inr img" using b1(1) b2 by simp_all
  have "config cpu = config (m_cpu m1)" using steps cpu1 by (rule steps_config)
  moreover have "result = Inr img" "m_cpu m2 = cpu_reset (cpu\<lparr>bus := b2\<rparr>) (entry img)"
    using again b2 same(2) machine_load_eq [OF ok2, of std_sort path f] by auto
  moreover have "m_cpu m1 = cpu_reset ((m_cpu m)\<lparr>bus := b1\<rparr>) (entry img)" using b1(2) by simp
  ultimately show ?thesis
    using same(1) by (auto simp: hush_def cpu_reset_def intro!: Cpu.equality)
qed

subsection \<open>A concrete machine\<close>

text \<open>The machine of the default configuration before its first load.\<close>

definition fresh_machine :: "CpuConfig \<Rightarrow> string option \<Rightarrow> MachineState" where
  "fresh_machine c out = \<lparr>m_cpu = make_cpu
     \<lparr>devices = [UartDevice \<lparr>md_base = 0x10000000, md_size = 8, md_name = ''uart16550'', uart_output = out,
                    uart_transmitted = []\<rparr>,
                  RamDevice \<lparr>md_base = 0x80000000, md_size = 0x8000000, md_name = ''ram'', ram_pages = Map.empty\<rparr>]\<rparr>
     c, m_ram = 0x80000000, m_uart = 0x10000000\<rparr>"

lemma make_default_machine: "make_machine (default_machine_config\<lparr>mc_cpu := c\<rparr>) out = Inr (fresh_machine c out)"
  by (simp add: make_machine_def default_machine_config_def make_sparse_ram_def make_uart_def
      make_mapped_device_def add_overflows_def kRegisterSpan_def kDefaultBase_def add_device_def
      ranges_overlap_def Let_def fresh_machine_def MappedDevice.defs SparseRam.defs Uart16550.defs)

lemma fresh_machine_ok: "machine_ok (fresh_machine c out)"
  using make_default_machine by (rule make_machine_ok)

lemma fresh_cpu_ok: "cpu_ok (m_cpu (fresh_machine c out))"
  using fresh_machine_ok by (simp add: machine_ok_def)

abbreviation test_machine :: MachineState where
  "test_machine \<equiv> fresh_machine default_cpu_config None"

lemma default_machine: "make_machine default_machine_config None = Inr test_machine"
  using make_default_machine [of default_cpu_config None] by (simp add: default_machine_config_def)

lemma test_machine_ok: "machine_ok test_machine"
  by (rule fresh_machine_ok)

definition test_image :: ElfImage where
  "test_image = \<lparr>entry = 0x80000000, segments = [first_segment 0x80000000 16]\<rparr>"

lemma fresh_machine_loads:
  "\<exists>m. machine_load (sort_key load_address) path (test_file (minimal_elf 0x80000000 16)) (fresh_machine c out) =
     (m, Inr test_image)"
proof -
  let ?b = "cleared (bus (m_cpu (fresh_machine c out)))"
  have ok: "bus_ok ?b" using fresh_machine_ok [of c out] by (simp add: machine_ok_def cpu_ok_def cleared_ok)
  have v: "image_range_is_valid ?b 0x80000000 16"
    by (simp add: image_range_is_valid_def fresh_machine_def make_cpu_def cpu_reset_def cleared_def
        add_overflows_def contains_def valid_width_def ram_clear_def clear_transmitted_def)
  then have "\<forall>s\<in>set [first_segment 0x80000000 16]. segment_ok (length (minimal_elf 0x80000000 16)) s \<and>
      segment_accessible ?b s"
    using image_range_accessible(2) [OF ok v]
    by (simp add: segment_ok_def segment_accessible_def first_segment_def)
  from load_segments_correct [OF this] show ?thesis
    using v by (auto simp: machine_load_eq [OF fresh_machine_ok] load_elf_def read_test_file parse_minimal_elf
      sorts_sort_key add_overflows_def invalid_range_def first_segment_def test_image_def
      split: prod.split option.split)
qed

lemmas test_machine_loads = fresh_machine_loads [of "''guest.elf''" default_cpu_config None]

lemma test_image_byte:
  assumes "\<forall>s\<in>set (segments test_image). \<forall>i<unat (memory_size s). f (load_address s + of_nat i) =
    (if i < unat (file_size s) then minimal_elf 0x80000000 16 ! (unat (file_offset s) + i) else 0)"
  shows "f 0x80000000 = 0x13"
proof -
  have "first_segment 0x80000000 16 \<in> set (segments test_image)" by (simp add: test_image_def)
  from assms [rule_format, OF this, of 0] show ?thesis
    by (simp add: first_segment_def minimal_elf_payload [simplified])
qed

lemma test_image_below_top: "\<forall>s\<in>set (segments test_image). below_top s"
  by (simp add: below_top_def first_segment_def test_image_def)

subsection \<open>Properties\<close>

text \<open>
  C38: a machine that the constructor returns satisfies the machine invariant, and loading an image,
  whether it succeeds or fails, and any number of steps after it keep the invariant.
\<close>

theorem machine_invariant:
  assumes "make_machine c output = Inr m" "machine_load std_sort path f m = (m1, result)"
    and "steps (m_cpu m1) rs cpu"
  shows "machine_ok m \<and> machine_ok m1 \<and> machine_ok (m1\<lparr>m_cpu := cpu\<rparr>)"
  using make_machine_ok [OF assms(1)] machine_load_ok [OF _ assms(2)] machine_steps_ok [OF _ assms(3)] by blast

theorem machine_invariant_witness:
  "\<exists>m1. machine_load (sort_key load_address) ''guest.elf'' (test_file (minimal_elf 0x80000000 16)) test_machine =
     (m1, Inr test_image) \<and> machine_ok m1"
proof -
  obtain m1 where "machine_load (sort_key load_address) ''guest.elf'' (test_file (minimal_elf 0x80000000 16))
      test_machine = (m1, Inr test_image)"
    using test_machine_loads by blast
  then show ?thesis using machine_invariant [OF default_machine _ steps_done] by blast
qed

lemma loaded_machine:
  assumes ok: "machine_ok m" and sorts: "sorts std_sort"
    and len: "\<forall>bytes. hf_read f = Some bytes \<longrightarrow> length bytes < 2 ^ 64"
    and load: "machine_load std_sort path f m = (m', Inr img)" and top: "\<forall>s\<in>set (segments img). below_top s"
  shows "pc (m_cpu m') = entry img \<and> privilege (m_cpu m') = Machine \<and> registers (m_cpu m') = replicate 32 0 \<and>
    csrs (m_cpu m') = csr_reset \<and> \<not> halted (m_cpu m') \<and>
    (\<exists>bytes. read_file path f = Inr bytes \<and> parse std_sort bytes = Inr img \<and>
       (\<forall>s\<in>set (segments img). \<forall>i<unat (memory_size s).
          bus_byte (bus (m_cpu m')) (load_address s + of_nat i) =
            (if i < unat (file_size s) then bytes ! (unat (file_offset s) + i) else 0)) \<and>
       (\<forall>a. (\<forall>s\<in>set (segments img). \<not> inside s a) \<longrightarrow> bus_byte (bus (m_cpu m')) a = 0))"
proof -
  obtain b where b: "load_elf std_sort path f (cleared (bus (m_cpu m))) = (b, Inr img)"
    "m_cpu m' = cpu_reset ((m_cpu m)\<lparr>bus := b\<rparr>) (entry img)"
    using load by (auto simp: machine_load_eq [OF ok] split: prod.splits sum.splits)
  have "bus_ok (cleared (bus (m_cpu m)))" using ok by (simp add: machine_ok_def cpu_ok_def cleared_ok)
  from loaded_bus [OF this sorts len b(1) top] show ?thesis
    by (auto simp: b(2) cpu_reset_def cleared_byte)
qed

text \<open>
  C22: after a successful load of an image none of whose segments ends at the top of the address space
  (\<open>below_top\<close>, without which accepted segments may overlap), the hart is reset at the entry point, every
  segment reads as its payload followed by zeros, and every other byte of memory is zero, whatever the
  machine did before.
\<close>

theorem machine_load_state:
  assumes ok: "machine_ok m" and sorts: "sorts std_sort"
    and len: "\<forall>bytes. hf_read f = Some bytes \<longrightarrow> length bytes < 2 ^ 64"
    and load: "machine_load std_sort path f m = (m', Inr img)" and top: "\<forall>s\<in>set (segments img). below_top s"
  shows "pc (m_cpu m') = entry img \<and> privilege (m_cpu m') = Machine \<and> registers (m_cpu m') = replicate 32 0 \<and>
    csrs (m_cpu m') = csr_reset \<and> \<not> halted (m_cpu m') \<and>
    (\<exists>bytes. read_file path f = Inr bytes \<and> parse std_sort bytes = Inr img \<and>
       (\<forall>s\<in>set (segments img). \<forall>i<unat (memory_size s).
          bus_byte (bus (m_cpu m')) (load_address s + of_nat i) =
            (if i < unat (file_size s) then bytes ! (unat (file_offset s) + i) else 0)) \<and>
       (\<forall>a. (\<forall>s\<in>set (segments img). \<not> inside s a) \<longrightarrow> bus_byte (bus (m_cpu m')) a = 0))"
  using assms by (rule loaded_machine)

theorem machine_load_state_witness:
  "\<exists>m. machine_load (sort_key load_address) ''guest.elf'' (test_file (minimal_elf 0x80000000 16)) test_machine =
     (m, Inr test_image) \<and> pc (m_cpu m) = 0x80000000 \<and> bus_byte (bus (m_cpu m)) 0x80000000 = 0x13"
proof -
  obtain m where m: "machine_load (sort_key load_address) ''guest.elf'' (test_file (minimal_elf 0x80000000 16))
      test_machine = (m, Inr test_image)"
    using test_machine_loads by blast
  from machine_load_state [OF test_machine_ok sorts_sort_key test_file_length m test_image_below_top]
  have "pc (m_cpu m) = 0x80000000" "bus_byte (bus (m_cpu m)) 0x80000000 = 0x13"
    using test_image_byte [of "bus_byte (bus (m_cpu m))"] by (auto simp: test_image_def read_test_file)
  then show ?thesis using m by simp
qed

text \<open>
  Contrary to invariant 5 of \<^verbatim>\<open>docs/architecture.md\<close>, a failed \<^verbatim>\<open>Machine::load\<close>, which reports an
  \<^verbatim>\<open>ElfError\<close> and leaves the hart as it was, has already cleared the RAM: every byte of guest memory
  reads zero after it.
\<close>

theorem failed_machine_load_clears_memory:
  assumes ok: "machine_ok m" and sorts: "sorts std_sort"
    and len: "\<forall>bytes. hf_read f = Some bytes \<longrightarrow> length bytes < 2 ^ 64"
    and load: "machine_load std_sort path f m = (m', Inl e)"
  shows "(\<exists>message. e = ElfError message) \<and> (\<forall>a. bus_byte (bus (m_cpu m')) a = 0) \<and>
    (m_cpu m')\<lparr>bus := bus (m_cpu m)\<rparr> = m_cpu m"
proof -
  obtain b where b: "load_elf std_sort path f (cleared (bus (m_cpu m))) = (b, Inl e)"
    "m_cpu m' = (m_cpu m)\<lparr>bus := b\<rparr>"
    using load by (auto simp: machine_load_eq [OF ok] split: prod.splits sum.splits)
  have "bus_ok (cleared (bus (m_cpu m)))" using ok by (simp add: machine_ok_def cpu_ok_def cleared_ok)
  from failed_load_bus [OF this sorts len b(1)] show ?thesis
    by (auto simp: b(2) cleared_byte)
qed

text \<open>A machine with a loaded image loses it to a file for another address.\<close>

theorem failed_machine_load_clears_memory_witness:
  "\<exists>m m' e. machine_ok m \<and>
     machine_load (sort_key load_address) ''other.elf'' (test_file (minimal_elf 0x90000000 16)) m = (m', Inl e) \<and>
     bus_byte (bus (m_cpu m)) 0x80000000 = 0x13 \<and> bus_byte (bus (m_cpu m')) 0x80000000 = 0"
proof -
  obtain m where m: "machine_load (sort_key load_address) ''guest.elf'' (test_file (minimal_elf 0x80000000 16))
      test_machine = (m, Inr test_image)"
    using test_machine_loads by blast
  have ok: "machine_ok m" by (rule machine_load_ok [OF test_machine_ok m])
  from loaded_machine [OF test_machine_ok sorts_sort_key test_file_length m test_image_below_top]
  have byte: "bus_byte (bus (m_cpu m)) 0x80000000 = 0x13"
    using test_image_byte [of "bus_byte (bus (m_cpu m))"] by (auto simp: read_test_file)
  have "map layout (devices (cleared (bus (m_cpu m)))) = map layout (devices (bus (m_cpu test_machine)))"
    using machine_load_pristine(1) [OF test_machine_ok m] by (metis pristine_cleared pristine_layout)
  then have "find_device (devices (cleared (bus (m_cpu m)))) 0x90000000 1 =
      find_device (devices (bus (m_cpu test_machine))) 0x90000000 1"
    by (rule find_device_layout)
  then have "find_device (devices (cleared (bus (m_cpu m)))) 0x90000000 1 = None"
    by (simp add: fresh_machine_def make_cpu_def cpu_reset_def contains_def valid_width_def)
  then have "\<exists>m' e. machine_load (sort_key load_address) ''other.elf'' (test_file (minimal_elf 0x90000000 16)) m =
      (m', Inl e)"
    by (simp add: machine_load_eq [OF ok] load_elf_def read_test_file parse_minimal_elf sorts_sort_key
        add_overflows_def first_segment_def invalid_range_def image_range_is_valid_def)
  then show ?thesis
    using failed_machine_load_clears_memory [OF ok sorts_sort_key test_file_length] ok byte by blast
qed

text \<open>
  C17: executions are reproducible: after any run, loading the same file again gives the same image and
  a machine with exactly the executions of the first one, record by record, whatever the host stream of
  the UART holds.
\<close>

theorem reload_reproduces_runs:
  assumes "machine_ok m" "machine_load std_sort path f m = (m1, Inr img)" "steps (m_cpu m1) rs cpu"
    and "machine_load std_sort path f (m1\<lparr>m_cpu := cpu\<rparr>) = (m2, result)"
  shows "result = Inr img \<and> (\<forall>rs'. (\<exists>c. steps (m_cpu m1) rs' c) = (\<exists>c. steps (m_cpu m2) rs' c))"
  using machine_load_again [OF assms] hush_same_steps [of "m_cpu m1" "m_cpu m2"] by simp

theorem reload_reproduces_runs_witness:
  "\<exists>m1. machine_load (sort_key load_address) ''guest.elf'' (test_file (minimal_elf 0x80000000 16)) test_machine =
     (m1, Inr test_image) \<and>
     snd (machine_load (sort_key load_address) ''guest.elf'' (test_file (minimal_elf 0x80000000 16)) m1) = Inr test_image"
proof -
  let ?load = "machine_load (sort_key load_address) ''guest.elf'' (test_file (minimal_elf 0x80000000 16))"
  obtain m1 where m1: "?load test_machine = (m1, Inr test_image)" using test_machine_loads by blast
  obtain m2 result where "?load m1 = (m2, result)" by (metis surj_pair)
  then show ?thesis
    using reload_reproduces_runs [OF test_machine_ok m1 steps_done, of m2 result] m1 by simp
qed

end
