(* ===== verification/HartProperties.thy ===== *)
theory HartProperties
  imports Isolation Alu MachineLoad
begin

text \<open>
  The properties of the hart: the invariants of its state, what its records determine, precise traps,
  retirement, the isolation of user mode, the arithmetic shifts, and the behaviour of
  runs. The concrete hart \<open>demo_cpu\<close> executes one user-mode store through a page table in its RAM.
\<close>

subsection \<open>A concrete hart in user mode\<close>

text \<open>
  The root table at \<open>0x80000000\<close> maps the gigabyte at \<open>0x80000000\<close> to itself for user loads, stores
  and fetches; the instruction at \<open>0x80001000\<close> is \<^verbatim>\<open>sb x2, 0(x1)\<close>.
\<close>

definition demo_pages :: "u64 \<rightharpoonup> page" where
  "demo_pages =
     [0 \<mapsto> (\<lambda>i. if i = 16 then 0xDF else if i = 19 then 0x20 else 0),
      1 \<mapsto> (\<lambda>i. if i = 0 then 0x23 else if i = 1 then 0x80 else if i = 2 then 0x20 else 0)]"

definition demo_cpu :: Cpu where
  "demo_cpu = \<lparr>bus = \<lparr>devices = [RamDevice \<lparr>md_base = 0x80000000, md_size = 0x10000, md_name = ''ram'',
       ram_pages = demo_pages\<rparr>]\<rparr>,
     config = default_cpu_config, registers = (replicate 32 0)[1 := 0x80002000, 2 := 0xAB],
     pc = 0x80001000, privilege = User, csrs = csr_reset\<lparr>satp := 0x8000000000080000\<rparr>,
     sequence_number = 0, halted = False, halt_detail = [], terminal_trap = None\<rparr>"

lemma demo_step_value:
  "case step demo_cpu of
     Inl e \<Rightarrow> False
   | Inr (cpu, r) \<Rightarrow> sr_trap r = None \<and> bus_byte (bus cpu) 0x80002000 = 0xAB"
  by code_simp

lemma demo_step:
  obtains cpu r where "step demo_cpu = Inr (cpu, r)" "sr_trap r = None" "bus_byte (bus cpu) 0x80002000 = 0xAB"
  using demo_step_value by (auto split: sum.splits prod.splits)

lemma demo_byte: "bus_byte (bus demo_cpu) 0x80002000 = 0"
  by (simp add: demo_cpu_def bus_byte_def contains_def valid_width_def read_byte_def page_number_def demo_pages_def)

lemma demo_bus_ok: "bus_ok (bus demo_cpu)"
  by (simp add: bus_ok_def demo_cpu_def layout_def range_ok_def)

lemma demo_ok: "cpu_ok demo_cpu"
proof -
  have "regs_ok (registers demo_cpu)" by (simp add: regs_ok_def demo_cpu_def)
  moreover have "csr_ok (csrs demo_cpu)"
    by (simp add: demo_cpu_def csr_ok_def csr_reset_def mpp_def kSatpModeMask_def kSatpModeSv39_def)
  ultimately show ?thesis using demo_bus_ok by (simp add: cpu_ok_def)
qed

lemma demo_fields: "privilege demo_cpu = User" "\<not> halted demo_cpu" "pc demo_cpu = 0x80001000"
  by (simp_all add: demo_cpu_def)

lemma demo_not_bare: "\<not> bare demo_cpu"
  by (simp add: bare_def demo_cpu_def kSatpModeMask_def kSatpModeSv39_def)

text \<open>The same hart at a misaligned program counter traps at once.\<close>

lemma demo_trap:
  obtains cpu r t where "step (demo_cpu\<lparr>pc := 2\<rparr>) = Inr (cpu, r)" "sr_trap r = Some t"
    "trap_cause t = InstructionAddressMisaligned"
proof -
  have "\<exists>cpu r t. step (demo_cpu\<lparr>pc := 2\<rparr>) = Inr (cpu, r) \<and> sr_trap r = Some t \<and>
      trap_cause t = InstructionAddressMisaligned"
    by (simp add: step_def demo_fields kInstructionBytes_def raise_trap_def Let_def split: prod.split)
  then show thesis using that by blast
qed

lemma demo_trap_ok: "cpu_ok (demo_cpu\<lparr>pc := 2\<rparr>)"
  using demo_ok by (simp add: cpu_ok_def)

lemma step_returns: "cpu_ok cpu \<Longrightarrow> \<exists>cpu' r. step cpu = Inr (cpu', r)"
  using step_total [of cpu] by (simp add: cpu_ok_def)

subsection \<open>Invariants of the state\<close>

text \<open>
  C1: a step of a well-formed hart always returns, never by an exception, and leaves a well-formed
  hart; an aligned program counter stays aligned.
\<close>

theorem step_returns_well_formed:
  assumes "cpu_ok cpu"
  shows "\<exists>cpu' r. step cpu = Inr (cpu', r) \<and> cpu_ok cpu' \<and>
    (unat (pc cpu) mod 4 = 0 \<longrightarrow> unat (pc cpu') mod 4 = 0)"
proof -
  obtain cpu' r where s: "step cpu = Inr (cpu', r)"
    using step_returns [OF assms] by blast
  then show ?thesis using step_ok [OF assms s] by (simp add: aligned4_unat)
qed

theorem step_returns_well_formed_witness:
  "\<exists>cpu r. step demo_cpu = Inr (cpu, r) \<and> cpu_ok cpu \<and> unat (pc cpu) mod 4 = 0"
  using step_returns_well_formed [OF demo_ok] by (simp add: demo_fields)

lemma step_write_nonzero:
  assumes "regs_ok (registers cpu)" "step cpu = Inr (cpu', r)" "sr_register_write r = Some w"
  shows "rw_index w \<noteq> 0"
proof -
  have run: "\<not> halted cpu" using assms step_halted by (auto simp: start_record_def empty_record_def)
  have "sr_trap r = None"
    using step_trap [OF assms(1,2)] assms(3) by (cases "sr_trap r") (auto simp: trap_outcome_def)
  from step_plain [OF assms(1,2) run this] show ?thesis using assms(3) by (auto simp: plain_outcome_def)
qed

text \<open>
  C31: over any execution register x0 reads zero, there are 32 registers, and no record ever names x0 as
  a written register.
\<close>

theorem x0_stays_zero:
  assumes "steps cpu rs cpu'" "cpu_ok cpu"
  shows "length (registers cpu') = 32 \<and> registers cpu' ! 0 = 0 \<and>
    (\<forall>r\<in>set rs. \<forall>w. sr_register_write r = Some w \<longrightarrow> rw_index w \<noteq> 0)"
  using assms
proof (induction rule: steps.induct)
  case (steps_step cpu cpu1 r rs cpu')
  then show ?case
    using step_write_nonzero [of cpu cpu1 r] step_ok [OF steps_step.prems steps_step.hyps(2)]
    by (auto simp: cpu_ok_def)
qed (simp add: cpu_ok_def regs_ok_def)

theorem x0_stays_zero_witness:
  "\<exists>cpu r. step demo_cpu = Inr (cpu, r) \<and> registers cpu ! 0 = 0"
proof -
  obtain cpu r where s: "step demo_cpu = Inr (cpu, r)" by (rule demo_step)
  show ?thesis
    using x0_stays_zero [OF steps_step [OF demo_fields(2) s steps_done] demo_ok] s by blast
qed

subsection \<open>Records\<close>

text \<open>
  C10: the records of an execution determine it: the registers and the memory at its end are those at
  its start with the recorded register writes and stores replayed in order.
\<close>

theorem records_determine_state:
  assumes "steps cpu rs cpu'" "cpu_ok cpu"
  shows "registers cpu' = fold (\<lambda>r regs. replay_registers regs r) rs (registers cpu) \<and>
    bus cpu' = fold (\<lambda>r b. replay_bus b r) rs (bus cpu)"
  using assms by (rule steps_replay)

theorem records_determine_state_witness:
  "\<exists>cpu r. step demo_cpu = Inr (cpu, r) \<and> bus cpu = replay_bus (bus demo_cpu) r"
proof -
  obtain cpu r where s: "step demo_cpu = Inr (cpu, r)" by (rule demo_step)
  show ?thesis
    using records_determine_state [OF steps_step [OF demo_fields(2) s steps_done] demo_ok] s by auto
qed

text \<open>
  C32: the records of an execution are numbered consecutively from the hart's sequence number, and each
  one starts where the one before it ended, in program counter and privilege.
\<close>

theorem records_form_a_chain:
  assumes "steps cpu rs cpu'" "cpu_ok cpu"
  shows "(\<forall>i<length rs. sr_sequence (rs ! i) = sequence_number cpu + of_nat i) \<and>
    (\<forall>i. Suc i < length rs \<longrightarrow> sr_pc (rs ! Suc i) = sr_next_pc (rs ! i) \<and>
       sr_privilege (rs ! Suc i) = sr_next_privilege (rs ! i) \<and> \<not> sr_halted (rs ! i))"
  using steps_sequence [OF assms] steps_chain [OF assms] by blast

theorem records_form_a_chain_witness:
  "\<exists>cpu r. step demo_cpu = Inr (cpu, r) \<and> sr_sequence r = 0"
proof -
  obtain cpu r where s: "step demo_cpu = Inr (cpu, r)" by (rule demo_step)
  show ?thesis
    using records_form_a_chain [OF steps_step [OF demo_fields(2) s steps_done] demo_ok] s
    by (auto simp: demo_cpu_def)
qed

subsection \<open>Traps and retirement\<close>

lemma enter_supervisor_fields:
  "sepc (enter_supervisor f t p) = trap_pc t AND NOT 3" "scause (enter_supervisor f t p) = cause_code (trap_cause t)"
  "stval (enter_supervisor f t p) = trap_value t" "mepc (enter_supervisor f t p) = mepc f"
  "mcause (enter_supervisor f t p) = mcause f" "mtval (enter_supervisor f t p) = mtval f"
  "minstret (enter_supervisor f t p) = minstret f"
  by (simp_all add: enter_supervisor_def Let_def)

lemma enter_machine_fields:
  "mepc (enter_machine f t p) = trap_pc t AND NOT 3" "mcause (enter_machine f t p) = cause_code (trap_cause t)"
  "mtval (enter_machine f t p) = trap_value t" "sepc (enter_machine f t p) = sepc f"
  "scause (enter_machine f t p) = scause f" "stval (enter_machine f t p) = stval f"
  "minstret (enter_machine f t p) = minstret f"
  by (simp_all add: enter_machine_def Let_def)

lemma ticked_fields:
  "sepc (csrs (ticked cpu)) = sepc (csrs cpu)" "scause (csrs (ticked cpu)) = scause (csrs cpu)"
  "stval (csrs (ticked cpu)) = stval (csrs cpu)" "mepc (csrs (ticked cpu)) = mepc (csrs cpu)"
  "mcause (csrs (ticked cpu)) = mcause (csrs cpu)" "mtval (csrs (ticked cpu)) = mtval (csrs cpu)"
  "minstret (csrs (ticked cpu)) = minstret (csrs cpu)" "privilege (ticked cpu) = privilege cpu"
  "trap_delegated (csrs (ticked cpu)) c p = trap_delegated (csrs cpu) c p"
  by (simp_all add: ticked_def tick_cycle_def trap_delegated_iff)

text \<open>
  C7: traps are precise: a step that traps writes no register and no memory and does not retire; the
  address of the instruction, the cause and the trap value are in exactly one bank, the supervisor's
  when the trap is delegated and the machine's otherwise, and the other bank is unchanged.
\<close>

theorem traps_are_precise:
  assumes "cpu_ok cpu" "step cpu = Inr (cpu', r)" "sr_trap r = Some t"
  shows "registers cpu' = registers cpu \<and> bus cpu' = bus cpu \<and> \<not> sr_retired r \<and>
    minstret (csrs cpu') = minstret (csrs cpu) \<and> trap_pc t = pc cpu \<and>
    (if trap_delegated (csrs cpu) (trap_cause t) (privilege cpu)
     then privilege cpu' = Supervisor \<and> sepc (csrs cpu') = pc cpu AND NOT 3 \<and>
       scause (csrs cpu') = cause_code (trap_cause t) \<and> stval (csrs cpu') = trap_value t \<and>
       mepc (csrs cpu') = mepc (csrs cpu) \<and> mcause (csrs cpu') = mcause (csrs cpu) \<and>
       mtval (csrs cpu') = mtval (csrs cpu)
     else privilege cpu' = Machine \<and> mepc (csrs cpu') = pc cpu AND NOT 3 \<and>
       mcause (csrs cpu') = cause_code (trap_cause t) \<and> mtval (csrs cpu') = trap_value t \<and>
       sepc (csrs cpu') = sepc (csrs cpu) \<and> scause (csrs cpu') = scause (csrs cpu) \<and>
       stval (csrs cpu') = stval (csrs cpu))"
proof -
  have regs: "regs_ok (registers cpu)" using assms(1) by (simp add: cpu_ok_def)
  note o = step_trap [OF regs assms(2,3)]
  have same: "registers cpu' = registers cpu" "bus cpu' = bus cpu"
    using step_record(1,2) [OF regs assms(2)] o
    by (simp_all add: trap_outcome_def replay_registers_def replay_bus_def)
  have pc: "trap_pc t = pc cpu" using o by (simp add: trap_outcome_def start_record_def)
  have rest: "\<not> sr_retired r" "csrs cpu' = fst (enter_trap (csrs (ticked cpu)) t (privilege cpu))"
    "privilege cpu' = te_target (snd (enter_trap (csrs (ticked cpu)) t (privilege cpu)))"
    using o by (simp_all add: trap_outcome_def ticked_fields)
  show ?thesis
    by (simp add: same pc rest enter_trap_cases ticked_fields enter_supervisor_fields enter_machine_fields)
qed

theorem traps_are_precise_witness:
  "\<exists>cpu r. step (demo_cpu\<lparr>pc := 2\<rparr>) = Inr (cpu, r) \<and> registers cpu = registers demo_cpu \<and>
     mepc (csrs cpu) = 0 \<and> mcause (csrs cpu) = 0"
proof -
  obtain cpu r t where s: "step (demo_cpu\<lparr>pc := 2\<rparr>) = Inr (cpu, r)" "sr_trap r = Some t"
    "trap_cause t = InstructionAddressMisaligned"
    by (rule demo_trap)
  then show ?thesis
    using traps_are_precise [OF demo_trap_ok s(1,2)]
    by (auto simp: trap_delegated_iff demo_cpu_def csr_reset_def)
qed

text \<open>
  A step of a running hart retires exactly when it does not trap, and every step of a halted hart
  only counts itself.
\<close>

theorem retires_unless_trap:
  assumes "cpu_ok cpu" "step cpu = Inr (cpu', r)"
  shows "if halted cpu then \<not> sr_retired r \<and> cpu' = cpu\<lparr>sequence_number := sequence_number cpu + 1\<rparr>
    else sr_retired r \<longleftrightarrow> sr_trap r = None"
proof (cases "halted cpu")
  case True
  then show ?thesis using step_halted [OF True] assms(2) by (auto simp: start_record_def empty_record_def)
next
  case False
  have "regs_ok (registers cpu)" using assms(1) by (simp add: cpu_ok_def)
  from step_runs [OF this False assms(2)] show ?thesis
    using False by (auto simp: step_effect_def closed_def)
qed

theorem retires_unless_trap_witness:
  "\<exists>cpu r. step demo_cpu = Inr (cpu, r) \<and> sr_retired r"
proof -
  obtain cpu r where s: "step demo_cpu = Inr (cpu, r)" "sr_trap r = None" by (rule demo_step)
  then show ?thesis using retires_unless_trap [OF demo_ok s(1)] by (auto simp: demo_fields)
qed

subsection \<open>User mode\<close>

text \<open>
  C5: memory isolation: a step in user mode under Sv39 changes a byte of RAM only if the page table of
  the hart maps that physical byte for user stores (U, W, A and D set in the leaf).
\<close>

theorem user_mode_writes_only_its_pages:
  assumes "cpu_ok cpu" "privilege cpu = User" "\<not> bare cpu" "step cpu = Inr (cpu', r)"
  shows "\<forall>x. bus_byte (bus cpu') x \<noteq> bus_byte (bus cpu) x \<longrightarrow> user_writable cpu x"
  using user_step_memory [OF assms] by blast

theorem user_mode_writes_only_its_pages_witness:
  "\<exists>cpu r. step demo_cpu = Inr (cpu, r) \<and> bus_byte (bus cpu) 0x80002000 = 0xAB \<and>
     user_writable demo_cpu 0x80002000"
proof -
  obtain cpu r where s: "step demo_cpu = Inr (cpu, r)" "bus_byte (bus cpu) 0x80002000 = 0xAB" by (rule demo_step)
  then show ?thesis
    using user_mode_writes_only_its_pages [OF demo_ok demo_fields(1) demo_not_bare s(1)] demo_byte by auto
qed

text \<open>
  Without a trap, a step in user mode stays in user mode and changes no control register but the
  cycle and retirement counters, each by one.
\<close>

theorem user_mode_keeps_csrs:
  assumes "cpu_ok cpu" "privilege cpu = User" "\<not> halted cpu" "step cpu = Inr (cpu', r)" "sr_trap r = None"
  shows "privilege cpu' = User \<and>
    csrs cpu' = (csrs cpu)\<lparr>mcycle := mcycle (csrs cpu) + 1, minstret := minstret (csrs cpu) + 1\<rparr>"
  using user_step_csrs [OF assms] by (simp add: retire_instruction_def tick_cycle_def)

theorem user_mode_keeps_csrs_witness:
  "\<exists>cpu r. step demo_cpu = Inr (cpu, r) \<and> minstret (csrs cpu) = 1"
proof -
  obtain cpu r where s: "step demo_cpu = Inr (cpu, r)" "sr_trap r = None" by (rule demo_step)
  then show ?thesis
    using user_mode_keeps_csrs [OF demo_ok demo_fields(1,2) s] by (auto simp: demo_cpu_def csr_reset_def)
qed

subsection \<open>Arithmetic\<close>

text \<open>
  The arithmetic right shifts, written without signed shifts, divide the signed value by the power
  of two, rounding down.
\<close>

theorem arithmetic_shifts_divide:
  "sint (arithmetic_shift_right v n) = sint v div 2 ^ (n mod 64) \<and>
   sint (arithmetic_shift_right_word w n) = sint w div 2 ^ (n mod 32)"
  using sint_arithmetic_shift_right sint_arithmetic_shift_right_word by blast

subsection \<open>Runs\<close>

text \<open>
  C18: a run of a well-formed hart returns, whatever the sink of its records. It performs an execution of
  at most the maximum number of steps and feeds its records to the sink in order. When the sink accepts
  them the run returns the state after the execution and the sink after its records, having attempted
  exactly those steps, and it has stopped since the hart halted or at the maximum; a sink that fails,
  fails on the last of the records, and the run ends with its error.
\<close>

theorem run_returns:
  assumes "cpu_ok cpu"
  shows "\<exists>cpu' rs. steps cpu rs cpu' \<and> length rs \<le> unat n \<and>
    (case feed emit t rs of
       Inl e \<Rightarrow> run emit cpu t n = Inl e \<and> (\<exists>t1. feed emit t (butlast rs) = Inr t1)
     | Inr t' \<Rightarrow> \<exists>result. run emit cpu t n = Inr (cpu', t', result) \<and>
         rr_attempted_steps result = of_nat (length rs) \<and>
         rr_retired_instructions result = minstret (csrs cpu') \<and>
         (if halted cpu' then rr_reason result = Halted \<and> rr_detail result = halt_detail cpu'
          else rr_reason result = StepLimit \<and> length rs = unat n))"
  using run_loop_feed [OF assms, of "unat n" emit t 0] by (fastforce simp: run_def split: sum.splits)

text \<open>The null sink accepts every record.\<close>

theorem run_returns_witness:
  "\<exists>cpu rs result. run ignore_trace demo_cpu () 5 = Inr (cpu, (), result) \<and> steps demo_cpu rs cpu \<and>
     length rs \<le> 5 \<and> rr_attempted_steps result = of_nat (length rs)"
proof -
  have "feed ignore_trace () rs = Inr ()" for rs by (induction rs) (simp_all add: ignore_trace_def)
  then show ?thesis using run_returns [OF demo_ok, of 5 ignore_trace "()"] by auto
qed

text \<open>
  A run can be split: running \<open>m\<close> steps and then \<open>n\<close> more is running \<open>m + n\<close> steps.
\<close>

theorem runs_compose:
  assumes "run_loop emit m cpu t k = Inr (cpu1, t1, k1)"
  shows "run_loop emit (m + n) cpu t k = run_loop emit n cpu1 t1 k1"
  using assms by (rule run_loop_add)

theorem runs_compose_witness:
  "\<exists>cpu r. run_loop collect 1 demo_cpu [] 0 = Inr (cpu, [r], 1) \<and>
     run_loop collect (1 + 2) demo_cpu [] 0 = run_loop collect 2 cpu [r] 1"
proof -
  obtain cpu r where s: "step demo_cpu = Inr (cpu, r)" by (rule demo_step)
  then have one: "run_loop collect 1 demo_cpu [] 0 = Inr (cpu, [r], 1)"
    by (simp add: demo_fields collect_def)
  show ?thesis using one runs_compose [OF one, of 2] by blast
qed

text \<open>
  C33: what the UART has written to the host stream has no influence on the execution: two harts that
  differ only in it have the same executions, record by record.
\<close>

theorem host_stream_has_no_influence:
  assumes "hush c = hush d" "steps c rs c'"
  shows "\<exists>d'. steps d rs d' \<and> hush c' = hush d'"
  using steps_hush [OF assms(2)] steps_unhush [of d rs] by (metis assms(1))

theorem host_stream_has_no_influence_witness:
  "\<exists>r c d. step (m_cpu (fresh_machine default_cpu_config None)) = Inr (c, r) \<and>
     steps (m_cpu (fresh_machine default_cpu_config (Some ''boot''))) [r] d"
proof -
  let ?c = "m_cpu (fresh_machine default_cpu_config None)"
  let ?d = "m_cpu (fresh_machine default_cpu_config (Some ''boot''))"
  have eq: "hush ?c = hush ?d" by (simp add: fresh_machine_def hush_def quiet_def make_cpu_def cpu_reset_def)
  have run: "\<not> halted ?c" by (simp add: fresh_machine_def make_cpu_def cpu_reset_def)
  obtain c r where s: "step ?c = Inr (c, r)" using step_returns [OF fresh_cpu_ok] by blast
  then show ?thesis using host_stream_has_no_influence [OF eq steps_step [OF run s steps_done]] by blast
qed

end
