(* ===== verification/InstructionProperties.thy ===== *)
theory InstructionProperties
  imports IsaMachine HartProperties
begin

text \<open>
  The properties of whole steps by instruction class: integer instructions, control transfers, loads and
  stores with their faults, and the CSR and system instructions. The witnesses run \<open>bare_cpu w\<close>, a hart in
  machine mode whose RAM holds the instruction word \<open>w\<close> at its program counter.
\<close>

subsection \<open>A concrete hart in machine mode\<close>

definition bare_page :: "u32 \<Rightarrow> page" where
  "bare_page w i =
     (if i < 4 then ucast (drop_bit (8 * unat i) w)
      else if i = 0x100 then 0xF0 else 0)"

definition bare_cpu :: "u32 \<Rightarrow> Cpu" where
  "bare_cpu w = \<lparr>bus = \<lparr>devices = [RamDevice \<lparr>md_base = 0x80000000, md_size = 0x10000, md_name = ''ram'',
       ram_pages = [0 \<mapsto> bare_page w]\<rparr>]\<rparr>,
     config = \<lparr>trap_policy = Vector, halt_on_ebreak = True, halt_on_wfi = True\<rparr>,
     registers = (replicate 32 0)[1 := 0x80000100, 2 := - 9],
     pc = 0x80000000, privilege = Machine, csrs = csr_reset,
     sequence_number = 0, halted = False, halt_detail = [], terminal_trap = None\<rparr>"

lemma bare_fields [simp]:
  "pc (bare_cpu w) = 0x80000000" "\<not> halted (bare_cpu w)" "privilege (bare_cpu w) = Machine"
  "csrs (bare_cpu w) = csr_reset" "registers (bare_cpu w) = (replicate 32 0)[1 := 0x80000100, 2 := - 9]"
  by (simp_all add: bare_cpu_def)

lemma bare_translates [simp]: "translates (bare_cpu w) k va pa \<longleftrightarrow> pa = va"
  by (simp add: translates_def bare_def)

lemma bare_ok: "cpu_ok (bare_cpu w)"
proof -
  have "bus_ok (bus (bare_cpu w))" by (simp add: bus_ok_def bare_cpu_def layout_def range_ok_def)
  moreover have "regs_ok (registers (bare_cpu w))" by (simp add: regs_ok_def)
  ultimately show ?thesis by (simp add: cpu_ok_def csr_reset_ok)
qed

lemma bare_accessible:
  assumes "0x80000000 \<le> unat a" "unat a + w \<le> 0x80010000" "valid_width w"
  shows "ram_accessible (bus (bare_cpu x)) a w"
proof -
  have "device_contains (devices (bus (bare_cpu x)) ! 0) a w"
    unfolding device_contains_iff using assms by (auto simp: bare_cpu_def)
  then show ?thesis
    using bare_ok [of x] assms(3) by (simp add: cpu_ok_def ram_accessible_def) (simp add: bare_cpu_def)
qed

lemma bare_byte:
  assumes "i < 4"
  shows "bus_byte (bus (bare_cpu w)) (0x80000000 + of_nat i) = ucast (drop_bit (8 * i) w)"
proof -
  consider "i = 0" | "i = 1" | "i = 2" | "i = 3" using assms by linarith
  then show ?thesis
    by (cases; simp add: bare_cpu_def bus_byte_def contains_def valid_width_def read_byte_def page_number_def
        page_offset_def bare_page_def)
qed

lemma bare_fetches:
  assumes "decode w = Inr ins"
  shows "fetches (bare_cpu w) ins"
proof -
  have "ram_accessible (bus (bare_cpu w)) 0x80000000 4" by (rule bare_accessible) (simp_all add: valid_width_def)
  from bus_read_ram [OF this] word_of_bytes(1) [OF bare_byte] assms show ?thesis
    by (simp add: fetches_def aligned4_def)
qed

lemma bare_step:
  obtains cpu r where "step (bare_cpu w) = Inr (cpu, r)"
  using bare_ok [of w] step_total [of "bare_cpu w"] by (auto simp: cpu_ok_def)

subsection \<open>Integer instructions\<close>

text \<open>
  C11: a step that fetches an integer instruction (LUI, AUIPC or any of the OP groups) never traps, writes
  to its destination the value that the instruction set defines by operations on integers, and changes
  neither memory nor any other register; of the control registers only the two counters advance.
\<close>

theorem integer_instructions_follow_isa:
  assumes "cpu_ok cpu" "\<not> halted cpu" "fetches cpu ins" "step cpu = Inr (cpu', r)"
    "di_operation ins \<in> integer_operations"
  shows "sr_trap r = None \<and> bus cpu' = bus cpu \<and> pc cpu' = pc cpu + 4 \<and> continues cpu (counted cpu) cpu' \<and>
    registers cpu' = (if di_rd ins = 0 then registers cpu else (registers cpu)[unat (di_rd ins) :=
      word_of_int (isa_integer (di_operation ins) (sint (pc cpu)) (sint (source1 cpu ins))
        (sint (source2 cpu ins)) (sint (di_immediate ins)))])"
  using assms by (rule step_integer)

lemma demo_srai:
  obtains ins where "decode 0x40315193 = Inr ins" "di_operation ins = Srai" "di_rd ins = 3" "di_rs1 ins = 2"
    "di_immediate ins = 3"
proof -
  have "case decode 0x40315193 of
      Inl e \<Rightarrow> False
    | Inr ins \<Rightarrow> di_operation ins = Srai \<and> di_rd ins = 3 \<and> di_rs1 ins = 2 \<and> di_immediate ins = 3"
    by code_simp
  then show thesis using that by (auto split: sum.splits)
qed

text \<open>\<^verbatim>\<open>srai x3, x2, 3\<close> with -9 in x2 gives -2.\<close>

theorem integer_instructions_follow_isa_witness:
  "\<exists>cpu r. step (bare_cpu 0x40315193) = Inr (cpu, r) \<and> registers cpu ! 3 = - 2"
proof -
  obtain ins where i: "decode 0x40315193 = Inr ins" "di_operation ins = Srai" "di_rd ins = 3" "di_rs1 ins = 2"
    "di_immediate ins = 3" by (rule demo_srai)
  obtain cpu r where s: "step (bare_cpu 0x40315193) = Inr (cpu, r)" by (rule bare_step)
  have "di_operation ins \<in> integer_operations" by (simp add: i integer_operations_def alu_operations_def)
  from integer_instructions_follow_isa [OF bare_ok bare_fields(2) bare_fetches [OF i(1)] s this]
  have "registers cpu ! 3 = word_of_int (isa_result Srai (sint (- 9 :: u64)) 3)"
    by (simp add: i isa_integer_def immediate_form_def)
  also have "\<dots> = - 2" by (simp add: isa_result_def)
  finally show ?thesis using s by blast
qed

subsection \<open>Control transfers\<close>

text \<open>
  C12: a step that fetches JAL, JALR or a branch goes to the address that the instruction set defines,
  taking a branch by the comparison of the integers in its source registers; only JAL and JALR write a
  register, the address of the next instruction. When the target is not four-byte aligned the step traps
  with the target as the trap value.
\<close>

theorem control_transfers_follow_isa:
  assumes "cpu_ok cpu" "\<not> halted cpu" "fetches cpu ins" "step cpu = Inr (cpu', r)"
    "di_operation ins \<in> control_operations"
    "t = isa_next_pc (di_operation ins) (sint (pc cpu)) (sint (source1 cpu ins)) (sint (source2 cpu ins))
           (sint (di_immediate ins))"
  shows "if t mod 4 = 0
    then sr_trap r = None \<and> pc cpu' = word_of_int t \<and> bus cpu' = bus cpu \<and>
      registers cpu' = isa_link (di_operation ins) (di_rd ins) (pc cpu) (registers cpu) \<and>
      continues cpu (counted cpu) cpu'
    else \<exists>d. sr_trap r = Some \<lparr>trap_cause = InstructionAddressMisaligned, trap_pc = pc cpu,
      trap_value = word_of_int t, trap_detail = d\<rparr>"
  using step_control [OF assms(1-5)] unfolding assms(6) transfers_def .

lemma demo_blt:
  obtains ins where "decode 0x00114463 = Inr ins" "di_operation ins = Blt" "di_rs1 ins = 2" "di_rs2 ins = 1"
    "di_immediate ins = 8"
proof -
  have "case decode 0x00114463 of
      Inl e \<Rightarrow> False
    | Inr ins \<Rightarrow> di_operation ins = Blt \<and> di_rs1 ins = 2 \<and> di_rs2 ins = 1 \<and> di_immediate ins = 8"
    by code_simp
  then show thesis using that by (auto split: sum.splits)
qed

text \<open>\<^verbatim>\<open>blt x2, x1, 8\<close> is taken: -9 is below the address in x1.\<close>

theorem control_transfers_follow_isa_witness:
  "\<exists>cpu r. step (bare_cpu 0x00114463) = Inr (cpu, r) \<and> sr_trap r = None \<and> pc cpu = 0x80000008"
proof -
  obtain ins where i: "decode 0x00114463 = Inr ins" "di_operation ins = Blt" "di_rs1 ins = 2" "di_rs2 ins = 1"
    "di_immediate ins = 8" by (rule demo_blt)
  obtain cpu r where s: "step (bare_cpu 0x00114463) = Inr (cpu, r)" by (rule bare_step)
  have op: "di_operation ins \<in> control_operations" by (simp add: i control_operations_def branch_operations_def)
  have "isa_next_pc Blt 0x80000000 (- 9) 0x80000100 8 = 0x80000008"
    by (simp add: isa_next_pc_def isa_taken_def branch_operations_def)
  then show ?thesis
    using control_transfers_follow_isa [OF bare_ok bare_fields(2) bare_fetches [OF i(1)] s op refl] s
    by (simp add: i)
qed

subsection \<open>Loads and stores\<close>

text \<open>
  C13: a step that fetches a load or a store whose address is naturally aligned and translates to bytes of
  RAM does not trap. A load puts the little-endian number of those bytes, sign-extended for LB, LH and LW,
  into its destination and changes no memory; a store puts the low bytes of its source there, changes no
  other byte and no register.
\<close>

theorem loads_and_stores_follow_isa:
  assumes "cpu_ok cpu" "\<not> halted cpu" "fetches cpu ins" "step cpu = Inr (cpu', r)"
    "di_operation ins \<in> load_operations \<union> store_operations" "w = access_width (di_operation ins)"
    "unat (access_address cpu ins) mod w = 0"
    "translates cpu (access_kind (di_operation ins)) (access_address cpu ins) pa" "ram_accessible (bus cpu) pa w"
  shows "sr_trap r = None \<and> pc cpu' = pc cpu + 4 \<and> continues cpu (counted cpu) cpu' \<and>
    (if di_operation ins \<in> load_operations
     then bus cpu' = bus cpu \<and> registers cpu' = (if di_rd ins = 0 then registers cpu
       else (registers cpu)[unat (di_rd ins) :=
         word_of_int (isa_load (di_operation ins) (\<lambda>i. bus_byte (bus cpu) (pa + of_nat i)))])
     else registers cpu' = registers cpu \<and> (\<forall>x. bus_byte (bus cpu') x =
       (if unat (x - pa) < w then le_byte (source2 cpu ins) (unat (x - pa)) else bus_byte (bus cpu) x)))"
proof (cases "di_operation ins \<in> load_operations")
  case True
  then show ?thesis using step_load [OF assms(1-4) True] assms(6-9) by (simp add: access_kind_def)
next
  case False
  then have "di_operation ins \<in> store_operations" using assms(5) by simp
  from step_store [OF assms(1-4) this] show ?thesis using assms(6-9) False by (simp add: access_kind_def)
qed

lemma demo_lb:
  obtains ins where "decode 0x00008183 = Inr ins" "di_operation ins = Lb" "di_rd ins = 3" "di_rs1 ins = 1"
    "di_immediate ins = 0"
proof -
  have "case decode 0x00008183 of
      Inl e \<Rightarrow> False
    | Inr ins \<Rightarrow> di_operation ins = Lb \<and> di_rd ins = 3 \<and> di_rs1 ins = 1 \<and> di_immediate ins = 0"
    by code_simp
  then show thesis using that by (auto split: sum.splits)
qed

lemma bare_data: "bus_byte (bus (bare_cpu w)) 0x80000100 = 0xF0"
  by (simp add: bare_cpu_def bus_byte_def contains_def valid_width_def read_byte_def page_number_def
      page_offset_def bare_page_def)

text \<open>\<^verbatim>\<open>lb x3, 0(x1)\<close> loads the byte 0xF0 as -16.\<close>

theorem loads_and_stores_follow_isa_witness:
  "\<exists>cpu r. step (bare_cpu 0x00008183) = Inr (cpu, r) \<and> registers cpu ! 3 = - 16"
proof -
  obtain ins where i: "decode 0x00008183 = Inr ins" "di_operation ins = Lb" "di_rd ins = 3" "di_rs1 ins = 1"
    "di_immediate ins = 0" by (rule demo_lb)
  let ?cpu = "bare_cpu 0x00008183"
  obtain cpu r where s: "step ?cpu = Inr (cpu, r)" by (rule bare_step)
  have op: "di_operation ins \<in> load_operations \<union> store_operations" "access_width (di_operation ins) = 1"
    by (simp_all add: i load_operations_def access_width_def)
  have a: "access_address ?cpu ins = 0x80000100" by (simp add: access_address_def i)
  have "ram_accessible (bus ?cpu) 0x80000100 1" by (rule bare_accessible) (simp_all add: valid_width_def)
  from loads_and_stores_follow_isa [OF bare_ok bare_fields(2) bare_fetches [OF i(1)] s op(1) op(2) [symmetric] _ _ this]
  have "registers cpu ! 3 = word_of_int (isa_load Lb (\<lambda>n. bus_byte (bus ?cpu) (0x80000100 + of_nat n)))"
    by (simp add: i a load_operations_def)
  also have "\<dots> = - 16" by (simp add: isa_load_def access_width_def isa_bytes_def bare_data)
  finally show ?thesis using s by blast
qed

text \<open>
  C26: a load or a store that cannot be performed traps with the accessed address as the trap value and
  with exactly this cause, of a load or of a store: misaligned when the address is not naturally aligned;
  an access fault when the address translates and the bus refuses the access there (no device, or a
  device that does not accept it), or when the hart cannot read an entry of the page tables on the way to
  its translation; a page fault when the tables can be read and grant no translation.
\<close>

theorem bad_accesses_trap:
  assumes "cpu_ok cpu" "\<not> halted cpu" "fetches cpu ins" "step cpu = Inr (cpu', r)"
    "di_operation ins \<in> load_operations \<union> store_operations" "w = access_width (di_operation ins)"
    "unat (access_address cpu ins) mod w \<noteq> 0 \<or>
     (\<forall>pa. translates cpu (access_kind (di_operation ins)) (access_address cpu ins) pa \<longrightarrow>
        (if di_operation ins \<in> load_operations
         then \<exists>e. bus_read (bus cpu) pa w AccessKind.Load = Inl e
         else snd (bus_write (bus cpu) pa w (source2 cpu ins AND mask_for_width w) AccessKind.Store) \<noteq> None))"
  shows "\<exists>t. sr_trap r = Some t \<and> trap_pc t = pc cpu \<and> trap_value t = access_address cpu ins \<and>
    trap_cause t =
      (if unat (access_address cpu ins) mod w \<noteq> 0
       then (if di_operation ins \<in> load_operations then LoadAddressMisaligned else StoreAddressMisaligned)
       else if (\<exists>pa. translates cpu (access_kind (di_operation ins)) (access_address cpu ins) pa) \<or>
               unreadable_tables cpu (access_address cpu ins)
       then (if di_operation ins \<in> load_operations then LoadAccessFault else StoreAccessFault)
       else (if di_operation ins \<in> load_operations then LoadPageFault else StorePageFault))"
  using step_access_fault [OF assms(1-5)] assms(6,7)
  unfolding unreachable_def refused_def access_cause_def misaligned_cause_def by fastforce

lemma demo_lw:
  obtains ins where "decode 0x0020A183 = Inr ins" "di_operation ins = Lw" "di_rs1 ins = 1" "di_immediate ins = 2"
proof -
  have "case decode 0x0020A183 of
      Inl e \<Rightarrow> False
    | Inr ins \<Rightarrow> di_operation ins = Lw \<and> di_rs1 ins = 1 \<and> di_immediate ins = 2"
    by code_simp
  then show thesis using that by (auto split: sum.splits)
qed

text \<open>The user-mode hart of theory \<open>HartProperties\<close>, about to store to an address its tables do not map.\<close>

definition lost_cpu :: Cpu where
  "lost_cpu = demo_cpu\<lparr>registers := (replicate 32 0)[1 := 0x2000, 2 := 0xAB]\<rparr>"

lemma lost_ok: "cpu_ok lost_cpu" "\<not> halted lost_cpu" "\<not> bare lost_cpu"
  using demo_ok demo_fields(2) demo_not_bare
  by (simp_all add: lost_cpu_def cpu_ok_def regs_ok_def bare_def nth_list_update)

lemma lost_fetch:
  obtains ins where "fetches lost_cpu ins" "di_operation ins = Sb" "access_address lost_cpu ins = 0x2000"
proof -
  have "case walk_sv39 (bus lost_cpu) 0x80001000 (sv39_context lost_cpu VirtualAccess.InstructionFetch) of
      Inl f \<Rightarrow> False
    | Inr t \<Rightarrow> (case bus_read (bus lost_cpu) (st_physical_address t) 4 AccessKind.InstructionFetch of
        Inl e \<Rightarrow> False
      | Inr v \<Rightarrow> (case decode (ucast v) of
          Inl e \<Rightarrow> False
        | Inr ins \<Rightarrow> di_operation ins = Sb \<and> registers lost_cpu ! unat (di_rs1 ins) = 0x2000 \<and> di_immediate ins = 0))"
    by code_simp
  then obtain t v ins where
    "walk_sv39 (bus lost_cpu) 0x80001000 (sv39_context lost_cpu VirtualAccess.InstructionFetch) = Inr t"
    "bus_read (bus lost_cpu) (st_physical_address t) 4 AccessKind.InstructionFetch = Inr v"
    "decode (ucast v) = Inr ins"
    "di_operation ins = Sb" "registers lost_cpu ! unat (di_rs1 ins) = 0x2000" "di_immediate ins = 0"
    by (auto split: sum.splits)
  moreover have "pc lost_cpu = 0x80001000" by (simp add: lost_cpu_def demo_fields(3))
  ultimately show thesis
    using lost_ok(3) by (intro that [of ins]) (auto simp: fetches_def translates_def aligned4_def access_address_def)
qed

lemma lost_store:
  "\<not> translates lost_cpu VirtualAccess.Store 0x2000 pa" "\<not> unreadable_tables lost_cpu 0x2000"
proof -
  have "case walk_sv39 (bus lost_cpu) 0x2000 (sv39_context lost_cpu VirtualAccess.Store) of
      Inl f \<Rightarrow> sf_reason f = InvalidPte
    | Inr t \<Rightarrow> False"
    by code_simp
  then obtain f where f: "walk_sv39 (bus lost_cpu) 0x2000 (sv39_context lost_cpu VirtualAccess.Store) = Inl f"
    "sf_reason f = InvalidPte"
    by (auto split: sum.splits)
  then show "\<not> unreadable_tables lost_cpu 0x2000" using unreadable_tables_walk [OF lost_ok(3) f(1)] by simp
  show "\<not> translates lost_cpu VirtualAccess.Store 0x2000 pa" using f(1) lost_ok(3) by (simp add: translates_def)
qed

text \<open>\<^verbatim>\<open>lw x3, 2(x1)\<close> is misaligned; \<^verbatim>\<open>sb x2, 0(x1)\<close> at an unmapped address is a page fault.\<close>

theorem bad_accesses_trap_witness:
  "(\<exists>cpu r t. step (bare_cpu 0x0020A183) = Inr (cpu, r) \<and> sr_trap r = Some t \<and>
      trap_cause t = LoadAddressMisaligned \<and> trap_value t = 0x80000102) \<and>
   (\<exists>cpu r t. step lost_cpu = Inr (cpu, r) \<and> sr_trap r = Some t \<and>
      trap_cause t = StorePageFault \<and> trap_value t = 0x2000)"
proof
  obtain ins where i: "decode 0x0020A183 = Inr ins" "di_operation ins = Lw" "di_rs1 ins = 1" "di_immediate ins = 2"
    by (rule demo_lw)
  obtain cpu r where s: "step (bare_cpu 0x0020A183) = Inr (cpu, r)" by (rule bare_step)
  have op: "di_operation ins \<in> load_operations \<union> store_operations" "access_width (di_operation ins) = 4"
    by (simp_all add: i load_operations_def access_width_def)
  have a: "access_address (bare_cpu 0x0020A183) ins = 0x80000102" by (simp add: access_address_def i)
  show "\<exists>cpu r t. step (bare_cpu 0x0020A183) = Inr (cpu, r) \<and> sr_trap r = Some t \<and>
      trap_cause t = LoadAddressMisaligned \<and> trap_value t = 0x80000102"
    using bad_accesses_trap [OF bare_ok bare_fields(2) bare_fetches [OF i(1)] s op(1) op(2) [symmetric]] s
    by (auto simp: a i load_operations_def)
next
  obtain ins where i: "fetches lost_cpu ins" "di_operation ins = Sb" "access_address lost_cpu ins = 0x2000"
    by (rule lost_fetch)
  obtain cpu r where s: "step lost_cpu = Inr (cpu, r)"
    using lost_ok(1) step_total [of lost_cpu] by (auto simp: cpu_ok_def)
  have op: "di_operation ins \<in> load_operations \<union> store_operations" "access_width (di_operation ins) = 1"
    by (simp_all add: i store_operations_def access_width_def)
  show "\<exists>cpu r t. step lost_cpu = Inr (cpu, r) \<and> sr_trap r = Some t \<and>
      trap_cause t = StorePageFault \<and> trap_value t = 0x2000"
    using bad_accesses_trap [OF lost_ok(1,2) i(1) s op(1) op(2) [symmetric]] s lost_store
    by (auto simp: i load_operations_def access_kind_def)
qed

subsection \<open>CSR instructions\<close>

text \<open>
  C27: a step that fetches a CSR instruction reads and writes the register in one action: when the register
  is readable, and writable in case the instruction writes, the old value goes to the destination and the
  value set, or combined with the source bits to set or to clear, is written; otherwise the step traps as
  an illegal instruction. With a zero source the set and clear forms are pure reads.
\<close>

theorem csr_instructions_exchange:
  assumes "cpu_ok cpu" "\<not> halted cpu" "fetches cpu ins" "step cpu = Inr (cpu', r)"
    "di_operation ins \<in> csr_operations" "f = tick_cycle (csrs cpu)"
    "w \<longleftrightarrow> csr_writes (di_operation ins) (csr_source cpu ins)"
  shows "case csr_read f (di_csr ins) (privilege cpu) of
      Inl e \<Rightarrow> illegal_instruction cpu ins r
    | Inr old \<Rightarrow>
        if w \<and> csr_is_read_only (di_csr ins) then illegal_instruction cpu ins r
        else sr_trap r = None \<and> bus cpu' = bus cpu \<and> pc cpu' = pc cpu + 4 \<and>
          registers cpu' = (if di_rd ins = 0 then registers cpu else (registers cpu)[unat (di_rd ins) := old]) \<and>
          continues cpu (retire_instruction (if w then fst (csr_write f (di_csr ins)
            (csr_combined (di_operation ins) old (csr_source cpu ins)) (privilege cpu)) else f)) cpu'"
  using assms by (rule step_csr)

lemma demo_csrrw:
  obtains ins where "decode 0x340111F3 = Inr ins" "di_operation ins = Csrrw" "di_rd ins = 3" "di_rs1 ins = 2"
    "di_csr ins = 0x340"
proof -
  have "case decode 0x340111F3 of
      Inl e \<Rightarrow> False
    | Inr ins \<Rightarrow> di_operation ins = Csrrw \<and> di_rd ins = 3 \<and> di_rs1 ins = 2 \<and> di_csr ins = 0x340"
    by code_simp
  then show thesis using that by (auto split: sum.splits)
qed

text \<open>\<^verbatim>\<open>csrrw x3, mscratch, x2\<close> moves -9 into the scratch register and its old value, zero, into x3.\<close>

theorem csr_instructions_exchange_witness:
  "\<exists>cpu r. step (bare_cpu 0x340111F3) = Inr (cpu, r) \<and> mscratch (csrs cpu) = - 9 \<and> registers cpu ! 3 = 0"
proof -
  obtain ins where i: "decode 0x340111F3 = Inr ins" "di_operation ins = Csrrw" "di_rd ins = 3" "di_rs1 ins = 2"
    "di_csr ins = 0x340" by (rule demo_csrrw)
  obtain cpu r where s: "step (bare_cpu 0x340111F3) = Inr (cpu, r)" by (rule bare_step)
  have op: "di_operation ins \<in> csr_operations" by (simp add: i csr_operations_def)
  have src: "csr_source (bare_cpu 0x340111F3) ins = - 9" by (simp add: csr_source_def i)
  have rd: "csr_read (tick_cycle csr_reset) 0x340 Machine = Inr 0" by code_simp
  have wr: "mscratch (retire_instruction (fst (csr_write (tick_cycle csr_reset) 0x340 (- 9) Machine))) = - 9"
    by code_simp
  have ro: "\<not> csr_is_read_only 0x340" by code_simp
  show ?thesis
    using csr_instructions_exchange [OF bare_ok bare_fields(2) bare_fetches [OF i(1)] s op refl refl] s wr ro
    by (simp add: i rd src csr_writes_def csr_combined_def continues_def)
qed

subsection \<open>System instructions\<close>

text \<open>A completed return to the mode \<open>p\<close> at the address \<open>a\<close>; bit \<open>i\<close> of mstatus takes the value of bit \<open>j\<close>.\<close>

definition returns_to :: "Cpu \<Rightarrow> StepRecord \<Rightarrow> Cpu \<Rightarrow> PrivilegeLevel \<Rightarrow> u64 \<Rightarrow> nat \<Rightarrow> nat \<Rightarrow> bool" where
  "returns_to cpu r cpu' p a i j \<longleftrightarrow> sr_trap r = None \<and> registers cpu' = registers cpu \<and> bus cpu' = bus cpu \<and>
     pc cpu' = a \<and> privilege cpu' = p \<and> bit (mstatus (csrs cpu')) i = bit (mstatus (csrs cpu)) j"

lemma step_sret:
  assumes "cpu_ok cpu" "\<not> halted cpu" "fetches cpu ins" "step cpu = Inr (cpu', r)"
    "di_operation ins = Sret" "privilege cpu \<noteq> User"
  shows "returns_to cpu r cpu' (if bit (mstatus (csrs cpu)) 8 then Supervisor else User) (sepc (csrs cpu)) 1 5"
proof -
  obtain f t where ft: "return_from_trap (tick_cycle (csrs cpu)) SupervisorReturn = (f, t)" by fastforce
  then have "f = fst (return_supervisor (tick_cycle (csrs cpu)))" "t = snd (return_supervisor (tick_cycle (csrs cpu)))"
    by (simp_all add: return_from_trap_def)
  then show ?thesis
    using step_return [OF assms(1-4) _ ft] assms(5,6)
    by (simp add: returns_to_def return_fields(3-5) bit_return_supervisor retire_instruction_def tick_cycle_def)
qed

lemma step_mret:
  assumes "cpu_ok cpu" "\<not> halted cpu" "fetches cpu ins" "step cpu = Inr (cpu', r)"
    "di_operation ins = Mret" "privilege cpu = Machine"
  shows "returns_to cpu r cpu' (mpp_level (mstatus (csrs cpu))) (mepc (csrs cpu)) 3 7"
proof -
  obtain f t where ft: "return_from_trap (tick_cycle (csrs cpu)) MachineReturn = (f, t)" by fastforce
  then have "f = fst (return_machine (tick_cycle (csrs cpu)))" "t = snd (return_machine (tick_cycle (csrs cpu)))"
    by (simp_all add: return_from_trap_def)
  then show ?thesis
    using step_return [OF assms(1-4) _ ft] assms(5,6)
    by (simp add: returns_to_def return_fields(3-5) return_machine_target bit_return_machine retire_instruction_def tick_cycle_def)
qed

text \<open>
  C28: the system instructions: fences only advance; calls and breakpoints trap with the cause of their
  mode; SRET, MRET and SFENCE.VMA are illegal below the mode they need, and a return goes back to the mode
  and the address of its trap bank with the saved interrupt enable; WFI halts, or advances when the
  configuration ignores it.
\<close>

theorem system_instructions_follow_isa:
  assumes "cpu_ok cpu" "\<not> halted cpu" "fetches cpu ins" "step cpu = Inr (cpu', r)"
    "di_operation ins \<in> system_operations"
  shows "if di_operation ins \<in> {Fence, FenceI} then advances cpu r cpu'
    else if di_operation ins = Ecall then traps_with cpu r
      (case privilege cpu of User \<Rightarrow> EnvironmentCallFromUserMode | Supervisor \<Rightarrow> EnvironmentCallFromSupervisorMode
         | Machine \<Rightarrow> EnvironmentCallFromMachineMode) 0
    else if di_operation ins = Ebreak then traps_with cpu r Breakpoint 0
    else if di_operation ins = Wfi then
      (if halt_on_wfi (config cpu) then sr_trap r = None \<and> halted cpu' \<and> registers cpu' = registers cpu \<and> bus cpu' = bus cpu
       else advances cpu r cpu')
    else if privilege cpu < (if di_operation ins = Mret then Machine else Supervisor)
      then traps_with cpu r IllegalInstruction (ucast (di_raw ins))
    else if di_operation ins = SfenceVma then advances cpu r cpu'
    else if di_operation ins = Sret
      then returns_to cpu r cpu' (if bit (mstatus (csrs cpu)) 8 then Supervisor else User) (sepc (csrs cpu)) 1 5
    else returns_to cpu r cpu' (mpp_level (mstatus (csrs cpu))) (mepc (csrs cpu)) 3 7"
proof -
  have levels: "User < Supervisor" "User < Machine" "Supervisor < Machine" "\<not> Machine < Supervisor"
    by (simp_all add: less_PrivilegeLevel_def)
  show ?thesis
  proof (cases "di_operation ins")
    case Sret
    then show ?thesis
      using step_sret [OF assms(1-4) Sret] step_privileged [OF assms(1-4)] by (cases "privilege cpu") (simp_all add: levels)
  next
    case Mret
    then show ?thesis
      using step_mret [OF assms(1-4) Mret] step_privileged [OF assms(1-4)] by (cases "privilege cpu") (simp_all add: levels)
  next
    case SfenceVma
    then show ?thesis
      using step_fence [OF assms(1-4)] step_privileged [OF assms(1-4)] by (cases "privilege cpu") (simp_all add: levels)
  next
    case Ecall
    then show ?thesis
      using step_ecall [OF assms(1-4) Ecall] by (cases "privilege cpu") (simp_all add: ecall_cause_def)
  next
    case Ebreak
    then show ?thesis using step_ebreak [OF assms(1-4) Ebreak] by simp
  next
    case Wfi
    then show ?thesis
      using step_wfi [OF assms(1-4) Wfi] step_fence [OF assms(1-4)] by (cases "halt_on_wfi (config cpu)") simp_all
  qed (use assms(5) step_fence [OF assms(1-4)] in \<open>simp_all add: system_operations_def\<close>)
qed

lemma demo_ecall:
  obtains ins where "decode 0x00000073 = Inr ins" "di_operation ins = Ecall"
proof -
  have "case decode 0x00000073 of Inl e \<Rightarrow> False | Inr ins \<Rightarrow> di_operation ins = Ecall" by code_simp
  then show thesis using that by (auto split: sum.splits)
qed

theorem system_instructions_follow_isa_witness:
  "\<exists>cpu r t. step (bare_cpu 0x00000073) = Inr (cpu, r) \<and> sr_trap r = Some t \<and>
     trap_cause t = EnvironmentCallFromMachineMode \<and> trap_pc t = 0x80000000"
proof -
  obtain ins where i: "decode 0x00000073 = Inr ins" "di_operation ins = Ecall" by (rule demo_ecall)
  obtain cpu r where s: "step (bare_cpu 0x00000073) = Inr (cpu, r)" by (rule bare_step)
  have op: "di_operation ins \<in> system_operations" by (simp add: i system_operations_def)
  show ?thesis
    using system_instructions_follow_isa [OF bare_ok bare_fields(2) bare_fetches [OF i(1)] s op] s
    by (simp add: i traps_with_def) blast
qed

subsection \<open>Steps without an instruction\<close>

text \<open>
  C29: a step that does not reach an instruction traps: at a misaligned program counter, at one without a
  translation, or at one where no device answers, with the program counter as the trap value; and at an
  encoding that the decoder refuses, with the encoding as the trap value.
\<close>

theorem failed_fetches_trap:
  assumes "\<not> halted cpu" "step cpu = Inr (cpu', r)" "\<nexists>ins. fetches cpu ins"
  shows "if \<not> aligned4 (pc cpu) then traps_with cpu r InstructionAddressMisaligned (pc cpu)
    else (\<exists>c \<in> {InstructionPageFault, InstructionAccessFault}. traps_with cpu r c (pc cpu) \<and>
        (\<forall>pa v. translates cpu VirtualAccess.InstructionFetch (pc cpu) pa \<longrightarrow>
           bus_read (bus cpu) pa 4 AccessKind.InstructionFetch \<noteq> Inr v)) \<or>
      (\<exists>pa v e. translates cpu VirtualAccess.InstructionFetch (pc cpu) pa \<and>
        bus_read (bus cpu) pa 4 AccessKind.InstructionFetch = Inr v \<and> decode (ucast v) = Inl e \<and>
        traps_with cpu r IllegalInstruction (ucast (ucast v :: u32)))"
proof (cases "aligned4 (pc cpu)")
  case False
  then show ?thesis using step_unfetched(1) [OF assms(1,2)] by simp
next
  case al: True
  show ?thesis
  proof (cases "\<exists>pa. translates cpu VirtualAccess.InstructionFetch (pc cpu) pa")
    case False
    then show ?thesis using step_unfetched(2) [OF assms(1,2) al] al by auto
  next
    case True
    then obtain pa where pa: "translates cpu VirtualAccess.InstructionFetch (pc cpu) pa" by blast
    show ?thesis
    proof (cases "bus_read (bus cpu) pa 4 AccessKind.InstructionFetch")
      case (Inl flt)
      then show ?thesis
        using step_unfetched(3) [OF assms(1,2) al pa Inl] translates_unique [OF pa] al by fastforce
    next
      case (Inr v)
      then obtain e where e: "decode (ucast v) = Inl e"
        using assms(3) al pa by (cases "decode (ucast v)") (auto simp: fetches_def)
      then show ?thesis using step_unfetched(4) [OF assms(1,2) al pa Inr e] al pa Inr by auto
    qed
  qed
qed

text \<open>The word 0 is no instruction.\<close>

theorem failed_fetches_trap_witness:
  "\<exists>cpu r t. step (bare_cpu 0) = Inr (cpu, r) \<and> sr_trap r = Some t \<and> trap_cause t = IllegalInstruction"
proof -
  obtain cpu r where s: "step (bare_cpu 0) = Inr (cpu, r)" by (rule bare_step)
  have zero: "\<exists>e. decode 0 = Inl e"
  proof -
    have "case decode 0 of Inl e \<Rightarrow> True | Inr ins \<Rightarrow> False" by code_simp
    then show ?thesis by (auto split: sum.splits)
  qed
  have "ram_accessible (bus (bare_cpu 0)) 0x80000000 4" by (rule bare_accessible) (simp_all add: valid_width_def)
  then have rd: "bus_read (bus (bare_cpu 0)) 0x80000000 4 AccessKind.InstructionFetch =
      Inr (le_value (\<lambda>i. bus_byte (bus (bare_cpu 0)) (0x80000000 + of_nat i)) 4)" by (rule bus_read_ram)
  have none: "\<nexists>ins. fetches (bare_cpu 0) ins"
    using zero word_of_bytes(1) [OF bare_byte, of 0] by (auto simp: fetches_def rd)
  have "aligned4 (pc (bare_cpu 0))" by (simp add: aligned4_def)
  then show ?thesis
    using failed_fetches_trap [OF bare_fields(2) s none] s rd by (auto simp: traps_with_def)
qed

end
