(* ===== verification/UserPrograms.thy ===== *)
theory UserPrograms
  imports IsaMachine
begin

text \<open>
  The hart performs every run of the machine of the instruction set on a private memory; a program in user
  mode under Sv39 as the example.
\<close>

subsection \<open>A hart that runs a user program\<close>

text \<open>
  The root table at \<open>0x80000000\<close> maps the virtual gigabyte at \<open>0x80000000\<close> to the physical one at
  \<open>0xC0000000\<close>, where the program \<^verbatim>\<open>addi x3, x3, 1; sd x3, 0(x1); jal x0, -8\<close> stands.
\<close>

definition user_root :: page where
  "user_root i = (if i = 16 then 0xDF else if i = 19 then 0x30 else 0)"

definition user_code :: page where
  "user_code i =
     (if i < 4 then ucast (drop_bit (8 * unat i) (0x00118193 :: u32))
      else if i < 8 then ucast (drop_bit (8 * unat (i - 4)) (0x0030B023 :: u32))
      else if i < 12 then ucast (drop_bit (8 * unat (i - 8)) (0xFF9FF06F :: u32)) else 0)"

definition user_cpu :: Cpu where
  "user_cpu = \<lparr>bus = \<lparr>devices = [RamDevice \<lparr>md_base = 0x80000000, md_size = 0x80000000, md_name = ''ram'',
       ram_pages = [0 \<mapsto> user_root, 0x40000 \<mapsto> user_code]\<rparr>]\<rparr>,
     config = \<lparr>trap_policy = Vector, halt_on_ebreak = True, halt_on_wfi = True\<rparr>,
     registers = (replicate 32 0)[1 := 0x80001000],
     pc = 0x80000000, privilege = User, csrs = csr_reset\<lparr>satp := 0x8000000000080000\<rparr>,
     sequence_number = 0, halted = False, halt_detail = [], terminal_trap = None\<rparr>"

lemma user_fields [simp]:
  "pc user_cpu = 0x80000000" "\<not> halted user_cpu" "privilege user_cpu = User"
  "registers user_cpu = (replicate 32 0)[1 := 0x80001000]"
  by (simp_all add: user_cpu_def)

lemma user_ok: "cpu_ok user_cpu"
proof -
  have "bus_ok (bus user_cpu)" by (simp add: bus_ok_def user_cpu_def layout_def range_ok_def)
  moreover have "regs_ok (registers user_cpu)" by (simp add: regs_ok_def)
  moreover have "csr_ok (csrs user_cpu)"
    by (simp add: user_cpu_def csr_ok_def csr_reset_def mpp_def kSatpModeMask_def kSatpModeSv39_def)
  ultimately show ?thesis by (simp add: cpu_ok_def)
qed

lemma user_not_bare: "\<not> bare user_cpu"
  by (simp add: bare_def user_cpu_def kSatpModeMask_def kSatpModeSv39_def)

lemma user_accessible:
  assumes "0x80000000 \<le> unat a" "unat a + w \<le> 0x100000000" "valid_width w"
  shows "ram_accessible (bus user_cpu) a w"
proof -
  have "device_contains (devices (bus user_cpu) ! 0) a w"
    unfolding device_contains_iff using assms by (auto simp: user_cpu_def)
  then show ?thesis
    using user_ok assms(3) by (simp add: cpu_ok_def ram_accessible_def) (simp add: user_cpu_def)
qed

lemma user_root_byte:
  assumes "k < 4096"
  shows "bus_byte (bus user_cpu) (0x80000000 + of_nat k) = user_root (of_nat k)"
proof -
  have k: "unat (of_nat k :: u64) = k" using assms by (intro unat_of_nat_u64) simp
  have "(of_nat k :: u64) div 4096 = 0" "(of_nat k :: u64) mod 4096 = of_nat k"
    using assms by (simp_all add: word_arith_nat_div word_arith_nat_mod k)
  moreover have "ucast (of_nat k :: u64) = (of_nat k :: 12 word)" using k by (simp add: unsigned_of_nat take_bit_nat_eq_self)
  moreover have "(0x80000000 :: u64) \<le> 0x80000000 + of_nat k" "unat (0x80000000 + of_nat k :: u64) = 0x80000000 + k"
    using assms by (simp_all add: unat_add_of_nat word_le_nat_alt)
  ultimately show ?thesis
    using assms k
    by (simp add: user_cpu_def bus_byte_def contains_iff valid_width_def read_byte_def page_number_def page_offset_def)
qed

lemma user_entry:
  "bus_read (bus user_cpu) (0x80000000 + vpn va 2 * 8) 8 PageTableWalk = Inr (if vpn va 2 = 2 then 0x300000DF else 0)"
proof -
  define n where "n = unat (vpn va 2)"
  have "vpn va 2 < 2 ^ 9" by (subst word_less_exp_iff) (auto simp: vpn_def u64_eq_iff_bits bit_simps)
  then have n: "n < 512" by (simp add: word_less_nat_alt n_def)
  have v: "vpn va 2 = of_nat n" by (simp add: n_def)
  have a: "0x80000000 + vpn va 2 * 8 + of_nat j = 0x80000000 + of_nat (n * 8 + j)" for j by (simp add: v)
  have "unat (0x80000000 + of_nat (n * 8) :: u64) = 0x80000000 + n * 8" using n by (intro trans [OF unat_add_of_nat]) simp_all
  then have "ram_accessible (bus user_cpu) (0x80000000 + vpn va 2 * 8) 8"
    using n a [of 0] by (intro user_accessible) (simp_all add: valid_width_def)
  from bus_read_ram [OF this] have r: "bus_read (bus user_cpu) (0x80000000 + vpn va 2 * 8) 8 PageTableWalk =
      Inr (le_value (\<lambda>j. bus_byte (bus user_cpu) (0x80000000 + of_nat (n * 8 + j))) 8)" by (simp only: a)
  have "le_value (\<lambda>j. bus_byte (bus user_cpu) (0x80000000 + of_nat (n * 8 + j))) 8 =
      le_value (\<lambda>j. if n = 2 \<and> j = 0 then 0xDF else if n = 2 \<and> j = 3 then 0x30 else 0) 8"
  proof (rule le_value_cong)
    fix j :: nat
    assume j: "j < 8"
    define m where "m = n * 8 + j"
    have m: "m < 4096" "m = 16 \<longleftrightarrow> n = 2 \<and> j = 0" "m = 19 \<longleftrightarrow> n = 2 \<and> j = 3" 
      using j n unfolding m_def by presburger+
    have "(of_nat m :: 12 word) = of_nat 16 \<longleftrightarrow> m = 16" "(of_nat m :: 12 word) = of_nat 19 \<longleftrightarrow> m = 19"
      unfolding word_of_nat_eq_iff using m(1) by (simp_all add: take_bit_eq_mod)
    then show "bus_byte (bus user_cpu) (0x80000000 + of_nat (n * 8 + j)) =
        (if n = 2 \<and> j = 0 then 0xDF else if n = 2 \<and> j = 3 then 0x30 else 0)"
      using user_root_byte [OF m(1)] m(2,3) by (simp add: user_root_def m_def [symmetric])
  qed
  also have "\<dots> = (if n = 2 then 0x300000DF else 0)"
  proof -
    have "(8 :: nat) = Suc (Suc (Suc (Suc (Suc (Suc (Suc (Suc 0)))))))" by simp
    then show ?thesis by (simp only: le_value_Suc le_value_0) simp
  qed
  also have "n = 2 \<longleftrightarrow> vpn va 2 = 2" by (simp add: n_def word_unat_eq_iff)
  finally show ?thesis using r by simp
qed

lemma user_table: "root_table (sv39_context user_cpu k) = 0x80000000"
  by (simp add: root_table_def sv39_context_def Let_def user_cpu_def csr_reset_def mask_eq_exp_minus_1)

lemma user_leaf: "pte_legal 0x300000DF" "pte_leaf 0x300000DF" "take_bit 18 (pte_ppn 0x300000DF) = 0" "\<not> pte_legal 0"
  by (simp_all add: pte_legal_def pte_leaf_def pte_ppn_def bit_numeral_rec)

lemma user_maps: "maps_to (bus user_cpu) va 2 0x80000000 l a pte \<longleftrightarrow>
  vpn va 2 = 2 \<and> l = 2 \<and> a = 0x80000000 + vpn va 2 * 8 \<and> pte = 0x300000DF"
proof -
  have two: "(2 :: nat) = Suc 1" by simp
  have e: "bus_read (bus user_cpu) (0x80000000 + vpn va (Suc 1) * 8) 8 PageTableWalk = Inr (if vpn va 2 = 2 then 0x300000DF else 0)"
    using user_entry [of va] by (simp only: two)
  show ?thesis unfolding two maps_to_Suc e using user_leaf two by (auto simp: pte_pointer_def)
qed

lemma user_physical: "physical va 2 0x300000DF = 0xC0000000 OR take_bit 30 va"
  by (simp add: physical_def pte_ppn_def mask_eq_exp_minus_1)

lemma user_canonical: "canonical va \<and> vpn va 2 = 2 \<longleftrightarrow> drop_bit 30 va = 2"
proof -
  have v: "vpn va 2 = drop_bit 30 va AND mask 9" by (simp add: vpn_def)
  have two: "bit (2 :: u64) m \<longleftrightarrow> m = 1" for m by (cases m) (simp_all add: bit_Suc bit_1_iff)
  show ?thesis
  proof
    assume *: "canonical va \<and> vpn va 2 = 2"
    then have low: "bit va (30 + m) \<longleftrightarrow> m = 1" if "m < 9" for m
      using that v two [of m] by (auto simp: bit_simps dest!: arg_cong [of _ _ "\<lambda>x. bit x m"])
    have bits: "bit va (30 + m) \<longleftrightarrow> m = 1" if "m < 34" for m
    proof (cases "m < 9")
      case False
      then have "bit va (30 + m) = bit va (30 + 8)" using * that by (simp add: canonical_def)
      then show ?thesis using low [of 8] False by simp
    qed (rule low)
    show "drop_bit 30 va = 2"
    proof (rule bit_word_eqI)
      fix m
      show "bit (drop_bit 30 va) m = bit (2 :: u64) m"
        using bits [of m] two [of m] u64_bit_less [of va "30 + m"] by (cases "m < 34") (auto simp: bit_drop_bit_eq)
    qed
  next
    assume *: "drop_bit 30 va = 2"
    then have "bit va (30 + m) \<longleftrightarrow> m = 1" for m using two [of m] by (metis bit_drop_bit_eq comp_apply)
    from this [of "n - 30" for n] have "bit va n \<longleftrightarrow> n - 30 = 1" if "30 \<le> n" for n
      using that by (metis le_add_diff_inverse)
    then have "canonical va" unfolding canonical_def by fastforce
    then show "canonical va \<and> vpn va 2 = 2" using * v by (simp add: mask_eq_exp_minus_1)
  qed
qed

lemma user_translates:
  "translates user_cpu k va pa \<longleftrightarrow> drop_bit 30 va = 2 \<and> pa = 0xC0000000 OR take_bit 30 va"
proof -
  have "grants (sv39_context user_cpu k) 0x300000DF"
    by (cases k) (simp_all add: grants_def sv39_context_def Let_def bit_numeral_rec)
  then show ?thesis
    using user_not_bare user_physical [of va] user_canonical [of va]
    by (auto simp: translates_def walk_sv39_iff user_table user_maps translation_def)
qed

lemma user_unaliased: "unaliased user_cpu"
proof -
  have inj: "x = y" if p: "place user_cpu x = Some pa" and r: "reach user_cpu VirtualAccess.Store y = Some pa" for x y pa
  proof -
    obtain k where "reach user_cpu k x = Some pa" using place_reach [OF p] by blast
    then have "drop_bit 30 x = drop_bit 30 y" "0xC0000000 OR take_bit 30 x = 0xC0000000 OR take_bit 30 y"
      using r by (simp_all add: reach_iff user_translates)
    moreover have "take_bit 30 (0xC0000000 OR take_bit 30 z) = take_bit 30 z" for z :: u64 by (simp add: take_bit_or)
    ultimately show ?thesis by (metis bits_ident)
  qed
  show ?thesis unfolding unaliased_def using inj by blast
qed

lemma user_tables: "tables_protected user_cpu"
proof -
  have apart: "8 \<le> unat (pa - entry)"
    if "visits (bus user_cpu) va 2 0x80000000 entry" "reach user_cpu VirtualAccess.Store y = Some pa" for va entry y pa
  proof -
    have two: "(2 :: nat) = Suc 1" by simp
    have e: "bus_read (bus user_cpu) (0x80000000 + vpn va (Suc 1) * 8) 8 PageTableWalk = Inr (if vpn va 2 = 2 then 0x300000DF else 0)"
      using user_entry [of va] by (simp only: two)
    have entry: "entry = 0x80000000 + vpn va 2 * 8"
      using that(1) user_leaf unfolding two visits_Suc e by (auto simp: pte_pointer_def split: if_splits)
    have "vpn va 2 < 2 ^ 9" by (subst word_less_exp_iff) (auto simp: vpn_def u64_eq_iff_bits bit_simps)
    then have n: "unat (vpn va 2) < 512" by (simp add: word_less_nat_alt)
    have "unat (vpn va 2 * 8) = unat (vpn va 2) * 8" using n by (simp add: unat_word_ariths)
    then have "unat entry < 0x80001000" using n by (simp add: entry unat_word_ariths)
    moreover have "0xC0000000 \<le> unat pa"
    proof -
      have "pa = 0xC0000000 OR take_bit 30 y" using that(2) by (simp add: reach_iff user_translates)
      also have "\<dots> = 0xC0000000 + take_bit 30 y"
      proof (rule disjunctive_add [symmetric])
        have base: "(0xC0000000 :: u64) = push_bit 30 3" by simp
        show "\<not> bit (0xC0000000 :: u64) n \<or> \<not> bit (take_bit 30 y) n" for n
          unfolding base bit_push_bit_iff bit_take_bit_iff by auto
      qed
      finally have "pa = 0xC0000000 + take_bit 30 y" .
      moreover have "unat (take_bit 30 y) < 2 ^ 30"
        using take_bit_nat_less_exp [of 30 "unat y"] by (simp add: unsigned_take_bit_eq)
      ultimately show ?thesis by (simp add: unat_word_ariths)
    qed
    ultimately show ?thesis by (simp add: unat_sub_if')
  qed
  show ?thesis unfolding tables_protected_def user_table using apart by blast
qed

lemma user_private: "private_space user_cpu"
  using user_unaliased user_tables by (simp add: private_space_def)

subsection \<open>The program on the abstract machine\<close>

lemma user_ram:
  assumes "drop_bit 30 va = 2" "0xC0000000 \<le> unat (0xC0000000 OR take_bit 30 va)"
    "unat (0xC0000000 OR take_bit 30 va) + w \<le> 0x100000000" "valid_width w"
  shows "virtual_ram user_cpu k va w"
  using assms user_accessible [of "0xC0000000 OR take_bit 30 va" w]
  by (auto simp: virtual_ram_iff user_translates)

lemma user_ram_program [simp]:
  "virtual_ram user_cpu VirtualAccess.InstructionFetch 0x80000000 4"
  "virtual_ram user_cpu VirtualAccess.InstructionFetch 0x80000004 4"
  "virtual_ram user_cpu VirtualAccess.InstructionFetch 0x80000008 4"
  "virtual_ram user_cpu VirtualAccess.Store 0x80001000 8"
  by (rule user_ram; simp add: valid_width_def)+

lemma user_instructions:
  obtains add sd jal where
    "decode 0x00118193 = Inr add" "di_operation add = Addi" "di_rd add = 3" "di_rs1 add = 3" "di_immediate add = 1"
    "decode 0x0030B023 = Inr sd" "di_operation sd = Sd" "di_rs1 sd = 1" "di_rs2 sd = 3" "di_immediate sd = 0"
    "decode 0xFF9FF06F = Inr jal" "di_operation jal = Jal" "di_rd jal = 0" "di_immediate jal = - 8"
proof -
  have "case decode 0x00118193 of
      Inl e \<Rightarrow> False
    | Inr ins \<Rightarrow> di_operation ins = Addi \<and> di_rd ins = 3 \<and> di_rs1 ins = 3 \<and> di_immediate ins = 1"
    "case decode 0x0030B023 of
      Inl e \<Rightarrow> False
    | Inr ins \<Rightarrow> di_operation ins = Sd \<and> di_rs1 ins = 1 \<and> di_rs2 ins = 3 \<and> di_immediate ins = 0"
    "case decode 0xFF9FF06F of
      Inl e \<Rightarrow> False
    | Inr ins \<Rightarrow> di_operation ins = Jal \<and> di_rd ins = 0 \<and> di_immediate ins = - 8"
    by code_simp+
  then show thesis using that by (auto split: sum.splits)
qed

text \<open>The start of a round: the count \<open>k\<close> is in \<^verbatim>\<open>x3\<close>, its low byte at \<open>0x80001000\<close>.\<close>

definition code_byte :: "nat \<Rightarrow> u8" where
  "code_byte i =
     (if i < 4 then ucast (drop_bit (8 * i) (0x00118193 :: u32))
      else if i < 8 then ucast (drop_bit (8 * (i - 4)) (0x0030B023 :: u32))
      else ucast (drop_bit (8 * (i - 8)) (0xFF9FF06F :: u32)))"

definition at_loop :: "u64 \<Rightarrow> Isa \<Rightarrow> bool" where
  "at_loop k s \<longleftrightarrow> isa_pc s = 0x80000000 \<and> isa_regs s 1 = 0x80001000 \<and> isa_regs s 3 = k \<and>
     isa_ram s = virtual_ram user_cpu \<and> (\<forall>i<12. isa_mem s (0x80000000 + of_nat i) = code_byte i) \<and>
     isa_mem s 0x80001000 = ucast k"

lemma code_words:
  assumes "\<forall>i<12. m (0x80000000 + of_nat i) = code_byte i"
  shows "word_of_int (isa_bytes (\<lambda>i. m (0x80000000 + of_nat i)) 4) = (0x00118193 :: u32)"
    "word_of_int (isa_bytes (\<lambda>i. m (0x80000004 + of_nat i)) 4) = (0x0030B023 :: u32)"
    "word_of_int (isa_bytes (\<lambda>i. m (0x80000008 + of_nat i)) 4) = (0xFF9FF06F :: u32)"
  using assms [rule_format, of "0 + i" for i] assms [rule_format, of "4 + i" for i] assms [rule_format, of "8 + i" for i]
  by (intro word_of_bytes(2); simp add: code_byte_def)+

lemma loop_round:
  assumes "at_loop k s"
  shows "\<exists>s'. iterate isa_step 3 s = Some s' \<and> at_loop (k + 1) s'"
proof -
  obtain add sd jal where i:
    "decode 0x00118193 = Inr add" "di_operation add = Addi" "di_rd add = 3" "di_rs1 add = 3" "di_immediate add = 1"
    "decode 0x0030B023 = Inr sd" "di_operation sd = Sd" "di_rs1 sd = 1" "di_rs2 sd = 3" "di_immediate sd = 0"
    "decode 0xFF9FF06F = Inr jal" "di_operation jal = Jal" "di_rd jal = 0" "di_immediate jal = - 8"
    by (rule user_instructions)
  note a = assms [unfolded at_loop_def]
  have code: "\<forall>i<12. isa_mem s (0x80000000 + of_nat i) = code_byte i" using a by blast
  let ?s1 = "s\<lparr>isa_pc := 0x80000004, isa_regs := (isa_regs s)(3 := k + 1)\<rparr>"
  let ?mem = "\<lambda>x. if unat (x - 0x80001000) < 8 then word_of_int (sint (k + 1) div 256 ^ unat (x - 0x80001000)) else isa_mem s x"
  let ?s2 = "?s1\<lparr>isa_pc := 0x80000008, isa_mem := ?mem\<rparr>"
  have mem: "\<forall>i<12. ?mem (0x80000000 + of_nat i) = code_byte i"
  proof (intro allI impI)
    fix i :: nat
    assume "i < 12"
    moreover from this have "unat (0x80000000 + of_nat i :: u64) = 0x80000000 + i" "unat (of_nat i :: u64) = i"
      by (simp_all add: unat_add_of_nat unat_of_nat_u64)
    ultimately show "?mem (0x80000000 + of_nat i) = code_byte i" using code by (simp add: unat_sub_if')
  qed
  have f: "isa_fetch s = Some add" "isa_fetch ?s1 = Some sd" "isa_fetch ?s2 = Some jal"
    using a i(1,6,11) code_words(1,2) [OF code] code_words(3) [OF mem] by (simp_all add: isa_fetch_def)
  have "isa_execute add s = Some ?s1"
    using a by (simp add: isa_execute_def i integer_operations_def alu_operations_def isa_set_def isa_integer_def
      immediate_form_def isa_result_def)
  moreover have "isa_execute sd ?s1 = Some ?s2"
    using a by (simp add: isa_execute_def i integer_operations_def alu_operations_def control_operations_def
      branch_operations_def load_operations_def store_operations_def access_width_def cong: if_cong)
  moreover have "isa_execute jal ?s2 = Some (?s2\<lparr>isa_pc := 0x80000000\<rparr>)"
    by (simp add: isa_execute_def i integer_operations_def alu_operations_def control_operations_def isa_set_def isa_next_pc_def)
  moreover have low: "scast (k + 1) = (ucast (k + 1) :: u8)" by (rule bit_word_eqI) (auto simp: bit_simps min_def)
  ultimately have "iterate isa_step 3 s = Some (?s2\<lparr>isa_pc := 0x80000000\<rparr>)"
    using f by (simp add: isa_step_def numeral_3_eq_3)
  moreover have "at_loop (k + 1) (?s2\<lparr>isa_pc := 0x80000000\<rparr>)" using a mem low by (simp add: at_loop_def)
  ultimately show ?thesis by blast
qed

lemma loop_rounds: "at_loop k s \<Longrightarrow> \<exists>s'. iterate isa_step (3 * n) s = Some s' \<and> at_loop (k + of_nat n) s'"
proof (induction n arbitrary: k s)
  case (Suc n)
  obtain s1 where s1: "iterate isa_step 3 s = Some s1" "at_loop (k + 1) s1" using loop_round [OF Suc.prems] by blast
  obtain s' where "iterate isa_step (3 * n) s1 = Some s'" "at_loop (k + 1 + of_nat n) s'" using Suc.IH [OF s1(2)] by blast
  then show ?case using iterate_add [of isa_step 3 "3 * n" s] s1(1) by (auto simp: add.assoc)
qed simp

lemma user_virtual_byte:
  "drop_bit 30 va = 2 \<Longrightarrow> virtual_byte user_cpu va = bus_byte (bus user_cpu) (0xC0000000 OR take_bit 30 va)"
  using reach_place [of user_cpu VirtualAccess.Load va] by (simp add: virtual_byte_def reach_iff user_translates)

lemma user_program:
  assumes "i < 12"
  shows "virtual_byte user_cpu (0x80000000 + of_nat i) = code_byte i"
proof -
  have "i \<in> {0, 1, 2, 3, 4, 5, 6, 7, 8, 9, 10, 11}"
    using assms unfolding insert_iff empty_iff by presburger
  then show ?thesis
    by (elim insertE emptyE; simp add: user_virtual_byte user_cpu_def [THEN arg_cong [where f = bus]] bus_byte_def
        contains_def valid_width_def read_byte_def page_number_def page_offset_def user_code_def code_byte_def)
qed

lemma user_at_loop: "at_loop 0 (isa_of user_cpu)"
proof -
  have "virtual_byte user_cpu 0x80001000 = 0"
    by (simp add: user_virtual_byte) (simp add: user_cpu_def bus_byte_def contains_def valid_width_def read_byte_def page_number_def)
  then show ?thesis using user_program by (simp add: at_loop_def)
qed

subsection \<open>Refinement\<close>

text \<open>
  C2: refinement: the hart performs every run of the machine of the instruction set, on physical memory
  where translation is off and on a private virtual address space under Sv39: \<open>n\<close> of its steps are \<open>n\<close>
  steps of the hart, each retired without a trap at the same program counter, and end in the same program
  counter, registers and memory.
\<close>

theorem hart_refines_isa:
  assumes "cpu_ok cpu" "\<not> halted cpu" "private_space cpu" "iterate isa_step n (isa_of cpu) = Some s"
  shows "\<exists>rs cpu'. steps cpu rs cpu' \<and> length rs = n \<and> isa_of cpu' = s \<and>
    (\<forall>i<n. \<exists>si. iterate isa_step i (isa_of cpu) = Some si \<and> records_step si (rs ! i))"
  using isa_runs [of cpu n s] assms by (auto simp: isa_mode_def)

text \<open>
  After three thousand steps in user mode the hart has counted to one thousand in the register and in its
  virtual memory.
\<close>

theorem hart_refines_isa_witness:
  "privilege user_cpu = User \<and> \<not> bare user_cpu \<and>
   (\<exists>rs cpu. steps user_cpu rs cpu \<and> length rs = 3000 \<and> registers cpu ! 3 = 1000 \<and>
      virtual_byte cpu 0x80001000 = 0xE8)"
proof -
  from loop_rounds [OF user_at_loop, of 1000] obtain s where
    s: "iterate isa_step 3000 (isa_of user_cpu) = Some s" "at_loop 1000 s" by auto
  from hart_refines_isa [OF user_ok user_fields(2) user_private s(1)] obtain rs cpu where
    r: "steps user_cpu rs cpu" "length rs = 3000" "isa_of cpu = s" by blast
  have "registers cpu ! 3 = isa_regs (isa_of cpu) 3" "virtual_byte cpu = isa_mem (isa_of cpu)" by simp_all
  moreover have "(1000 :: u8) = 0xE8" by simp
  ultimately have "registers cpu ! 3 = 1000" "virtual_byte cpu 0x80001000 = 0xE8"
    using r(3) s(2) by (simp_all add: at_loop_def)
  then show ?thesis using r(1,2) user_not_bare user_fields(3) by blast
qed

subsection \<open>Confinement\<close>

text \<open>
  C6: confinement over runs: a hart in user mode under Sv39 whose page tables are out of the reach of its
  stores stays, over any execution without a trap, in user mode and under the same translation; it changes
  no control register but the two counters, each by the number of steps, and no byte of RAM that it may not
  store to at the start.
\<close>

theorem user_runs_are_confined:
  assumes "steps cpu rs cpu'" "cpu_ok cpu" "privilege cpu = User" "\<not> bare cpu" "tables_protected cpu"
    "\<forall>r\<in>set rs. sr_trap r = None"
  shows "privilege cpu' = User \<and> (\<forall>k va pa. translates cpu' k va pa \<longleftrightarrow> translates cpu k va pa) \<and>
    csrs cpu' = (csrs cpu)\<lparr>mcycle := mcycle (csrs cpu) + of_nat (length rs), minstret := minstret (csrs cpu) + of_nat (length rs)\<rparr> \<and>
    (\<forall>x. bus_byte (bus cpu') x \<noteq> bus_byte (bus cpu) x \<longrightarrow> (\<exists>va. translates cpu VirtualAccess.Store va x))"
  using user_steps_space [OF assms] by (simp add: reach_iff [symmetric])

text \<open>The thousand rounds of the program leave the root table as it was.\<close>

theorem user_runs_are_confined_witness:
  "\<exists>rs cpu. steps user_cpu rs cpu \<and> length rs = 3000 \<and> privilege cpu = User \<and> minstret (csrs cpu) = 3000 \<and>
     bus_byte (bus cpu) 0x80000010 = 0xDF"
proof -
  from loop_rounds [OF user_at_loop, of 1000] obtain s where
    s: "iterate isa_step 3000 (isa_of user_cpu) = Some s" by auto
  have "isa_mode user_cpu" using user_ok user_private by (simp add: isa_mode_def)
  from isa_runs [OF this s] obtain rs cpu where
    r: "steps user_cpu rs cpu" "length rs = 3000"
    "\<forall>i<3000. \<exists>si. iterate isa_step i (isa_of user_cpu) = Some si \<and> records_step si (rs ! i)" by blast
  then have "\<forall>r\<in>set rs. sr_trap r = None" by (fastforce simp: in_set_conv_nth records_step_def)
  note c = user_runs_are_confined [OF r(1) user_ok user_fields(3) user_not_bare user_tables this]
  have root: "bus_byte (bus user_cpu) 0x80000010 = 0xDF" using user_root_byte [of 16] by (simp add: user_root_def)
  have "\<not> translates user_cpu VirtualAccess.Store va 0x80000010" for va
  proof
    assume "translates user_cpu VirtualAccess.Store va 0x80000010"
    then have "take_bit 31 (0x80000010 :: u64) = take_bit 31 (0xC0000000 OR take_bit 30 va)" by (simp add: user_translates)
    then have "bit (take_bit 31 (0x80000010 :: u64)) 30 = bit (take_bit 31 (0xC0000000 OR take_bit 30 va)) 30" by simp
    then show False by (simp add: bit_simps bit_numeral_rec)
  qed
  then have "bus_byte (bus cpu) 0x80000010 = bus_byte (bus user_cpu) 0x80000010" using c by blast
  moreover have "minstret (csrs user_cpu) = 0" by (simp add: user_cpu_def csr_reset_def)
  ultimately have "privilege cpu = User" "minstret (csrs cpu) = 3000" "bus_byte (bus cpu) 0x80000010 = 0xDF"
    using c r(2) root by simp_all
  then show ?thesis using r(1,2) by blast
qed

end
