(* ===== verification/TraceFormat.thy ===== *)
theory TraceFormat
  imports Trace "HOL-Library.Sublist"
begin

text \<open>
  What the JSON lines of \<^verbatim>\<open>trace.cpp\<close> determine: a reader of JSON strings that undoes
  \<^verbatim>\<open>escape_json\<close>, the injectivity of every field and of the whole line, the absence of line
  breaks in a line, and the comparison of trace files seen as lists of lines.
\<close>

subsection \<open>Reading escaped text back\<close>

lemma escape_json_simps [simp]:
  "escape_json [] = []" "escape_json (c # cs) = escape_char c @ escape_json cs"
  by (simp_all add: escape_json_def)

text \<open>The reader of JSON strings: one character, and the text up to the closing quote.\<close>

fun unescape_char :: "string \<Rightarrow> (char \<times> string) option" where
  "unescape_char [] = None"
| "unescape_char [c] = (if c = backslash \<or> c = quote then None else Some (c, []))"
| "unescape_char (c # d # ds) =
     (if c = quote then None
      else if c \<noteq> backslash then Some (c, d # ds)
      else if d = quote \<or> d = backslash then Some (d, ds)
      else if d = CHR ''b'' then Some (CHR 0x08, ds)
      else if d = CHR ''f'' then Some (CHR 0x0C, ds)
      else if d = CHR ''n'' then Some (CHR 0x0A, ds)
      else if d = CHR ''r'' then Some (CHR 0x0D, ds)
      else if d = CHR ''t'' then Some (CHR 0x09, ds)
      else if d = CHR ''u'' then
        (case value_base 16 0 (take 4 ds) of None \<Rightarrow> None | Some n \<Rightarrow> Some (char_of n, drop 4 ds))
      else None)"

lemma unescape_char_shorter: "unescape_char s = Some (c, r) \<Longrightarrow> length r < length s"
  by (induction s rule: unescape_char.induct) (auto split: if_splits option.splits)

function read_json_string :: "string \<Rightarrow> (string \<times> string) option" where
  "read_json_string s =
     (if s \<noteq> [] \<and> hd s = quote then Some ([], tl s)
      else case unescape_char s of
        None \<Rightarrow> None
      | Some (c, r) \<Rightarrow> map_option (\<lambda>(t, u). (c # t, u)) (read_json_string r))"
  by pat_completeness auto

termination
  by (relation "measure length") (auto dest: unescape_char_shorter unescape_char_shorter [OF sym])

declare read_json_string.simps [simp del]

lemma length_small_hex: "n < 256 \<Longrightarrow> length (pad_zero 4 (show_hex n)) = 4"
  using length_show_base [of 16 n 2] by (simp add: length_pad_zero show_hex_def)

lemma unescape_plain: "c \<noteq> quote \<Longrightarrow> c \<noteq> backslash \<Longrightarrow> unescape_char (c # r) = Some (c, r)"
  by (cases r) simp_all

lemma unescape_hex:
  "length h = 4 \<Longrightarrow> value_base 16 0 h = Some n \<Longrightarrow>
     unescape_char (backslash # CHR ''u'' # h @ r) = Some (char_of n, r)"
  by (simp add: backslash_def quote_def)

lemma value_small_hex: "value_base 16 0 (pad_zero 4 (show_hex n)) = Some n"
  by (simp add: value_pad_zero show_hex_def value_show_base)

lemma unescape_short:
  "unescape_char (backslash # quote # r) = Some (quote, r)"
  "unescape_char (backslash # backslash # r) = Some (backslash, r)"
  "unescape_char (backslash # CHR ''b'' # r) = Some (CHR 0x08, r)"
  "unescape_char (backslash # CHR ''f'' # r) = Some (CHR 0x0C, r)"
  "unescape_char (backslash # CHR ''n'' # r) = Some (CHR 0x0A, r)"
  "unescape_char (backslash # CHR ''r'' # r) = Some (CHR 0x0D, r)"
  "unescape_char (backslash # CHR ''t'' # r) = Some (CHR 0x09, r)"
  by (simp_all add: backslash_def quote_def)

lemma unescape_escape: "unescape_char (escape_char c @ r) = Some (c, r)"
  using unescape_hex [OF length_small_hex value_small_hex, of "of_char c"]
  by (simp add: escape_char_def unescape_short unescape_plain del: unescape_char.simps)

lemma escape_char_first: "\<exists>d ds. escape_char c = d # ds \<and> d \<noteq> quote"
  by (auto simp: escape_char_def backslash_def quote_def)

lemma read_escaped: "read_json_string (escape_json s @ quote # r) = Some (s, r)"
proof (induction s)
  case Nil
  show ?case by (simp add: read_json_string.simps [of "quote # r"])
next
  case (Cons c s)
  obtain d ds where "escape_char c = d # ds" "d \<noteq> quote" using escape_char_first by blast
  then show ?case
    using unescape_escape [of c "escape_json s @ quote # r"] Cons.IH
    by (simp add: read_json_string.simps [of "_ # _"])
qed

lemma escaped_unique:
  assumes "escape_json s @ quote # r = escape_json t @ quote # u"
  shows "s = t \<and> r = u"
proof -
  have "Some (s, r) = Some (t, u)" by (simp only: read_escaped [symmetric] assms)
  then show ?thesis by simp
qed

subsection \<open>The fields of a record are read back\<close>

lemma takeWhile_separated: "c \<notin> set xs \<Longrightarrow> takeWhile (\<lambda>d. d \<noteq> c) (xs @ c # r) = xs"
  by (induction xs) auto

lemma separated: "xs @ c # r = ys @ c # s \<Longrightarrow> c \<notin> set xs \<Longrightarrow> c \<notin> set ys \<Longrightarrow> xs = ys \<and> r = s"
  using takeWhile_separated [of c xs r] takeWhile_separated [of c ys s] by simp

definition digit_code :: "char \<Rightarrow> bool" where
  "digit_code c \<longleftrightarrow> (of_char c :: nat) \<in> {48..57} \<union> {97..102}"

lemma digit_code_char: "d < 16 \<Longrightarrow> digit_code (digit_char d)"
  by (auto simp: digit_code_def digit_char_def)

lemma digits_code: "2 \<le> b \<Longrightarrow> b \<le> 16 \<Longrightarrow> c \<in> set (pad_zero w (show_base b n)) \<Longrightarrow> digit_code c"
  using set_pad_zero [of b "show_base b n" w] digit_char_set [of b n] digit_code_char by fastforce

lemma decimal_code: "c \<in> set (show_dec n) \<Longrightarrow> digit_code c"
  using digits_code [of 10 c 0 n] by (simp add: show_dec_def pad_zero_def)

lemma not_digit_codes: "\<not> digit_code CHR '',''" "\<not> digit_code CHR ''}''" "\<not> digit_code quote"
  by (simp_all add: digit_code_def quote_def)

lemma show_base_inject:
  assumes "2 \<le> b" "b \<le> 36" "pad_zero w (show_base b m) = pad_zero w (show_base b n)"
  shows "m = n"
proof -
  have "0 < b" using assms(1) by simp
  then have "Some m = Some n"
    by (metis assms value_show_base value_pad_zero)
  then show ?thesis by simp
qed

lemma show_dec_inject: "show_dec m = show_dec n \<Longrightarrow> m = n"
  using show_base_inject [of 10 0 m n] by (simp add: show_dec_def pad_zero_def)

lemma hex_value_inject: "hex_value v d = hex_value w d \<Longrightarrow> v = w"
  using show_base_inject [of 16 d "unat v" "unat w"] by (simp add: hex_value_def show_hex_def word_unat_eq_iff)

lemma hex_value_plain: "quote \<notin> set (hex_value v d)"
  using digits_code [of 16 quote d "unat v"] not_digit_codes(3)
  by (auto simp: hex_value_def show_hex_def quote_def)

lemma field_decimal:
  "show_dec m @ CHR '','' # r = show_dec n @ CHR '','' # s \<Longrightarrow> m = n \<and> r = s"
  using separated [of "show_dec m" "CHR '',''" r "show_dec n" s] decimal_code not_digit_codes(1) show_dec_inject
  by metis

lemma field_hex: "quoted_text (hex_value v d) @ r = quoted_text (hex_value w d) @ s \<Longrightarrow> v = w \<and> r = s"
  using separated [of "hex_value v d" quote r "hex_value w d" s] hex_value_plain hex_value_inject
  by (simp add: quoted_text_def) blast

lemma field_escaped:
  "quoted_text (escape_json x) @ r = quoted_text (escape_json y) @ s \<Longrightarrow> x = y \<and> r = s"
  using escaped_unique [of x r y s] by (simp add: quoted_text_def)

lemma field_privilege:
  "quoted_text (privilege_name p) @ r = quoted_text (privilege_name q) @ s \<Longrightarrow> p = q \<and> r = s"
  by (cases p; cases q) (simp_all add: quoted_text_def)

lemma field_bool: "format_bool b @ r = format_bool c @ s \<Longrightarrow> b = c \<and> r = s"
  by (cases b; cases c) (simp_all add: format_bool_def)

lemma field_register_write:
  assumes "format_register_write w @ r = format_register_write x @ s"
  shows "w = x \<and> r = s"
proof (cases w; cases x)
  fix a b assume w: "w = Some a" "x = Some b"
  with assms have "show_dec (unat (rw_index a)) @ CHR '','' # key ''value'' @
      quoted_text (hex_value (rw_value a) 16) @ CHR ''}'' # r =
    show_dec (unat (rw_index b)) @ CHR '','' # key ''value'' @
      quoted_text (hex_value (rw_value b) 16) @ CHR ''}'' # s"
    by (simp add: format_register_write_def)
  then show ?thesis
    using w by (auto simp: word_unat_eq_iff dest!: field_decimal field_hex)
qed (use assms in \<open>auto simp: format_register_write_def\<close>)

lemma field_translation:
  assumes "format_translation t @ r = format_translation u @ s"
  shows "t = u \<and> r = s"
proof (cases t; cases u)
  fix a b assume "t = Some a" "u = Some b"
  with assms show ?thesis by (auto simp: format_translation_def dest!: field_hex)
qed (use assms in \<open>auto simp: format_translation_def\<close>)

lemma field_memory_write:
  assumes "format_memory_write w @ r = format_memory_write x @ s"
  shows "w = x \<and> r = s"
proof (cases w; cases x)
  fix a b assume "w = Some a" "x = Some b"
  with assms show ?thesis
    by (auto simp: format_memory_write_def dest!: field_hex field_decimal)
qed (use assms in \<open>auto simp: format_memory_write_def\<close>)

text \<open>The line leaves out \<^verbatim>\<open>Trap::pc\<close>, the record's own \<open>sr_pc\<close> in every record of the hart.\<close>

lemma field_trap:
  assumes "format_trap t @ r = format_trap u @ s"
  shows "map_option (\<lambda>x. x\<lparr>trap_pc := pc\<rparr>) t = map_option (\<lambda>x. x\<lparr>trap_pc := pc\<rparr>) u \<and> r = s"
proof (cases t; cases u)
  fix a b assume "t = Some a" "u = Some b"
  with assms show ?thesis
    by (auto simp: format_trap_def word_unat_eq_iff [symmetric] cause_code_inject
        dest!: field_hex field_decimal field_escaped)
qed (use assms in \<open>auto simp: format_trap_def\<close>)

definition trap_at_pc :: "StepRecord \<Rightarrow> bool" where
  "trap_at_pc r \<longleftrightarrow> (\<forall>t. sr_trap r = Some t \<longrightarrow> trap_pc t = sr_pc r)"

lemma trap_at_pc_inject:
  assumes "trap_at_pc r" "trap_at_pc s" "sr_pc r = sr_pc s" "format_trap (sr_trap r) = format_trap (sr_trap s)"
  shows "sr_trap r = sr_trap s"
proof -
  have "map_option (\<lambda>x. x\<lparr>trap_pc := sr_pc r\<rparr>) (sr_trap r) = map_option (\<lambda>x. x\<lparr>trap_pc := sr_pc r\<rparr>) (sr_trap s)"
    using field_trap [of "sr_trap r" "[]" "sr_trap s" "[]"] assms(4) by simp
  moreover have "map_option (\<lambda>x. x\<lparr>trap_pc := sr_pc r\<rparr>) (sr_trap r) = sr_trap r"
    using assms(1) by (cases "sr_trap r") (auto simp: trap_at_pc_def)
  moreover have "map_option (\<lambda>x. x\<lparr>trap_pc := sr_pc r\<rparr>) (sr_trap s) = sr_trap s"
    using assms(2,3) by (cases "sr_trap s") (auto simp: trap_at_pc_def)
  ultimately show ?thesis by simp
qed

lemma ucast_u32_inject: "(ucast (v :: u32) :: u64) = ucast w \<longleftrightarrow> v = w"
proof -
  have "uint (ucast x :: u64) = uint x" for x :: u32 by (rule uint_up_ucast) (simp add: is_up)
  then show ?thesis by (metis unsigned_word_eqI)
qed

lemma format_trace_record_inject:
  assumes "format_trace_record r = format_trace_record s" "trap_at_pc r" "trap_at_pc s"
  shows "r = s"
proof -
  have *: "sr_sequence r = sr_sequence s" "sr_pc r = sr_pc s" "sr_privilege r = sr_privilege s"
    "sr_instruction r = sr_instruction s" "sr_assembly r = sr_assembly s" "sr_next_pc r = sr_next_pc s"
    "sr_next_privilege r = sr_next_privilege s" "sr_retired r = sr_retired s" "sr_halted r = sr_halted s"
    "sr_register_write r = sr_register_write s" "sr_memory_write r = sr_memory_write s"
    "sr_instruction_translation r = sr_instruction_translation s"
    "sr_data_translation r = sr_data_translation s" "format_trap (sr_trap r) = format_trap (sr_trap s)"
    using assms(1) unfolding format_trace_record_def
    by (auto simp: word_unat_eq_iff [symmetric] ucast_u32_inject
      dest!: field_hex field_decimal field_escaped field_privilege field_bool field_register_write
        field_translation field_memory_write)
  moreover have "sr_trap r = sr_trap s" using trap_at_pc_inject assms(2,3) * by blast
  ultimately show ?thesis by simp
qed

subsection \<open>Lines\<close>

lemma getline_append: "newline \<notin> set l \<Longrightarrow> getline (l @ newline # r) = Some (l, r)"
  by (simp add: getline_def takeWhile_tail takeWhile_separated) (induction l, auto)

lemma escape_char_line: "newline \<notin> set (escape_char c)"
  using digits_code [of 16 newline 4 "of_char c"]
  by (auto simp: escape_char_def newline_def quote_def backslash_def show_hex_def digit_code_def)

lemma escape_json_line: "newline \<notin> set (escape_json s)"
  by (induction s) (auto simp: escape_char_line)

lemma hex_value_line: "newline \<notin> set (hex_value v d)"
  using digits_code [of 16 newline d "unat v"]
  by (auto simp: hex_value_def show_hex_def newline_def digit_code_def)

lemma show_dec_line: "newline \<notin> set (show_dec n)"
  using decimal_code [of newline n] by (auto simp: newline_def digit_code_def)

lemma newline_letters [simp]:
  "newline \<noteq> CHR ''{''" "newline \<noteq> CHR ''}''" "newline \<noteq> CHR '',''" "newline \<noteq> CHR '':''" "newline \<noteq> quote"
  by (simp_all add: newline_def quote_def)

lemma key_line:
  "newline \<in> set (key s) \<longleftrightarrow> newline \<in> set s" "newline \<in> set (quoted_text s) \<longleftrightarrow> newline \<in> set s"
  by (simp_all add: key_def quoted_text_def)

lemma privilege_name_line: "newline \<notin> set (privilege_name p)"
  by (cases p) (simp_all add: newline_def)

lemma trap_name_line: "newline \<notin> set (trap_name c)"
  by (cases c) (simp_all add: newline_def)

lemmas field_line = key_line privilege_name_line trap_name_line escape_json_line hex_value_line show_dec_line

lemma format_options_line:
  shows "newline \<notin> set (format_register_write w)" and "newline \<notin> set (format_translation t)"
    and "newline \<notin> set (format_memory_write m)" and "newline \<notin> set (format_trap p)"
    and "newline \<notin> set (format_bool b)"
  by (cases w; cases t; cases m; cases p; simp add: format_register_write_def format_translation_def
      format_memory_write_def format_trap_def format_bool_def field_line; simp add: newline_def)+

lemma format_trace_record_line: "newline \<notin> set (format_trace_record r)"
  by (simp add: format_trace_record_def field_line format_options_line) (simp add: newline_def)

subsection \<open>Comparison of traces\<close>

function file_lines :: "string \<Rightarrow> string list" where
  "file_lines s = (case getline s of None \<Rightarrow> [] | Some (l, r) \<Rightarrow> l # file_lines r)"
  by pat_completeness auto

termination
  by (relation "measure length") (auto simp: getline_shorter)

declare file_lines.simps [simp del]

fun first_difference :: "nat \<Rightarrow> string list \<Rightarrow> string list \<Rightarrow> TraceDifference option" where
  "first_difference n [] [] = None"
| "first_difference n (x # xs) [] = Some \<lparr>td_line = n + 1, td_left = x, td_right = ''<end-of-file>''\<rparr>"
| "first_difference n [] (y # ys) = Some \<lparr>td_line = n + 1, td_left = ''<end-of-file>'', td_right = y\<rparr>"
| "first_difference n (x # xs) (y # ys) =
     (if x \<noteq> y then Some \<lparr>td_line = n + 1, td_left = x, td_right = y\<rparr> else first_difference (n + 1) xs ys)"

lemma compare_loop_lines: "compare_loop n l r = first_difference n (file_lines l) (file_lines r)"
proof (induction n l r rule: compare_loop.induct)
  case (1 n l r)
  then show ?case
    by (simp add: compare_loop.simps [of n] file_lines.simps [of l] file_lines.simps [of r]
        split: option.split prod.split)
qed

lemma first_difference_None: "first_difference n xs ys = None \<longleftrightarrow> xs = ys"
  by (induction n xs ys rule: first_difference.induct) auto

lemma first_difference_line:
  "first_difference n xs ys = Some d \<Longrightarrow> td_line d = n + length (longest_common_prefix xs ys) + 1"
  by (induction n xs ys rule: first_difference.induct) (auto split: if_splits)

text \<open>What the sink writes for a sequence of records.\<close>

definition jsonl_text :: "StepRecord list \<Rightarrow> string" where
  "jsonl_text rs = concat (map (\<lambda>r. format_trace_record r @ [newline]) rs)"

lemma file_lines_jsonl: "file_lines (jsonl_text rs) = map format_trace_record rs"
proof (induction rs)
  case Nil
  show ?case by (simp add: jsonl_text_def file_lines.simps [of "[]"] getline_def)
next
  case (Cons r rs)
  have "getline (jsonl_text (r # rs)) = Some (format_trace_record r, jsonl_text rs)"
    using getline_append [OF format_trace_record_line, of r "jsonl_text rs"] by (simp add: jsonl_text_def)
  with Cons show ?case by (simp add: file_lines.simps [of "jsonl_text (r # rs)"])
qed

lemma map_format_inject:
  "(\<forall>r \<in> set rs \<union> set ss. trap_at_pc r) \<Longrightarrow> map format_trace_record rs = map format_trace_record ss \<longleftrightarrow> rs = ss"
  by (induction rs ss rule: list_induct2') (auto dest: format_trace_record_inject)

end
