(* ===== verification/Loops.thy ===== *)
theory Loops
  imports ElfLoad Runs
begin

text \<open>
  The counting loops of the program as it writes them, with their 64-bit counters and without a bound on
  their iterations, and that they return: the recursions of the model, which carry the number of
  iterations left, compute their results.
\<close>

lemma unat_next_below: "a < b \<Longrightarrow> unat (a + 1) = Suc (unat a)" for a b :: u64
  using unat_add_of_nat [of a 1] unat_u64_less [of b] by (simp add: word_less_nat_alt)

subsection \<open>The loop of a run\<close>

text \<open>
  \<^verbatim>\<open>while (!halted_ && attempted < maximum_steps)\<close>, with its 64-bit counter and without a bound on its
  iterations: \<open>None\<close> would be a loop that does not return.
\<close>

partial_function (option) run_while ::
  "('t \<Rightarrow> StepRecord \<Rightarrow> exn + 't) \<Rightarrow> u64 \<Rightarrow> Cpu \<Rightarrow> 't \<Rightarrow> u64 \<Rightarrow> (exn + (Cpu \<times> 't \<times> u64)) option" where
  "run_while emit maximum_steps cpu trace attempted =
     (if \<not> halted cpu \<and> attempted < maximum_steps then
        (case step cpu of
           Inl e \<Rightarrow> Some (Inl e)
         | Inr (cpu', record) \<Rightarrow>
             (case emit trace record of
                Inl e \<Rightarrow> Some (Inl e)
              | Inr trace' \<Rightarrow> run_while emit maximum_steps cpu' trace' (attempted + 1)))
      else Some (Inr (cpu, trace, attempted)))"

lemma run_while_returns:
  "run_while emit maximum_steps cpu trace attempted =
     Some (run_loop emit (unat maximum_steps - unat attempted) cpu trace attempted)"
proof (induction "unat maximum_steps - unat attempted" arbitrary: cpu trace attempted)
  case 0
  then have "\<not> attempted < maximum_steps" by (simp add: word_less_nat_alt)
  then show ?case using 0 by (simp add: run_while.simps)
next
  case (Suc n)
  then have less: "attempted < maximum_steps" by (simp add: word_less_nat_alt)
  then have "unat (attempted + 1) = Suc (unat attempted)" by (rule unat_next_below)
  then have n: "n = unat maximum_steps - unat (attempted + 1)" using Suc.hyps(2) by simp
  show ?case
    using Suc.hyps(1) [OF n] less n Suc.hyps(2) [symmetric]
    by (subst run_while.simps) (simp split: sum.split)
qed

subsection \<open>The zero fill of a segment\<close>

text \<open>
  \<^verbatim>\<open>for (offset = file_size; offset < memory_size; ++offset)\<close>.
\<close>

partial_function (option) zero_fill_while :: "Bus \<Rightarrow> u64 \<Rightarrow> u64 \<Rightarrow> u64 \<Rightarrow> (Bus \<times> BusFault option) option" where
  "zero_fill_while mem start limit offset =
     (if offset < limit then
        (case bus_write mem (start + offset) 1 0 ImageLoad of
           (mem', Some flt) \<Rightarrow> Some (mem', Some flt)
         | (mem', None) \<Rightarrow> zero_fill_while mem' start limit (offset + 1))
      else Some (mem, None))"

lemma zero_fill_while_returns:
  "zero_fill_while mem start limit offset = Some (zero_fill mem start offset (unat limit - unat offset))"
proof (induction "unat limit - unat offset" arbitrary: mem offset)
  case 0
  then have "\<not> offset < limit" by (simp add: word_less_nat_alt)
  then show ?case using 0 by (simp add: zero_fill_while.simps)
next
  case (Suc n)
  then have less: "offset < limit" by (simp add: word_less_nat_alt)
  then have "unat (offset + 1) = Suc (unat offset)" by (rule unat_next_below)
  then have n: "n = unat limit - unat (offset + 1)" using Suc.hyps(2) by simp
  show ?case
    using Suc.hyps(1) [OF n] less n Suc.hyps(2) [symmetric]
    by (subst zero_fill_while.simps) (simp split: prod.split option.split)
qed

end
