(* ===== verification/PlatformProperties.thy ===== *)
theory PlatformProperties
  imports HartProperties TraceFormat Loops
begin

text \<open>
  The properties of the components below the hart: the page walk against the mapping it computes, the
  control registers and the trap transitions, the bus, and the lines of the trace.
\<close>

subsection \<open>Address translation\<close>

text \<open>
  C8: the walker of the code computes the declarative Sv39 mapping: it returns a translation exactly
  when the address is canonical, the tables lead from the root to a legal, aligned leaf, and the leaf
  grants the access; the physical address is the leaf's page number followed by the page offset.
\<close>

theorem walk_computes_mapping:
  "walk_sv39 mem va context = Inr t \<longleftrightarrow>
     canonical va \<and> (\<exists>l a pte. maps_to mem va 2 (root_table context) l a pte \<and> grants context pte \<and>
       t = translation va l a pte)"
  by (rule walk_sv39_iff)

text \<open>
  C34: a translation holds for its whole page: every address that agrees with a translated one above the
  page offset of the leaf (4 KiB, 2 MiB or 1 GiB) translates through the same leaf, at its own offset.
\<close>

theorem translation_covers_page:
  assumes "walk_sv39 mem va context = Inr t" "st_leaf_level t = int l"
    "drop_bit (12 + 9 * l) va = drop_bit (12 + 9 * l) va'"
  shows "walk_sv39 mem va' context = Inr (t\<lparr>st_physical_address := physical va' l (st_pte t)\<rparr>)"
  using assms by (rule walk_sv39_same_page)

lemma demo_walk:
  obtains t where "walk_sv39 (bus demo_cpu) 0x80002000 (sv39_context demo_cpu VirtualAccess.Store) = Inr t"
    "st_leaf_level t = int 2"
proof -
  have "case walk_sv39 (bus demo_cpu) 0x80002000 (sv39_context demo_cpu VirtualAccess.Store) of
      Inl e \<Rightarrow> False
    | Inr t \<Rightarrow> st_leaf_level t = 2"
    by code_simp
  then show thesis using that by (auto split: sum.splits)
qed

theorem translation_covers_page_witness:
  "\<exists>t. walk_sv39 (bus demo_cpu) 0x80000123 (sv39_context demo_cpu VirtualAccess.Store) = Inr t"
proof -
  obtain t where t: "walk_sv39 (bus demo_cpu) 0x80002000 (sv39_context demo_cpu VirtualAccess.Store) = Inr t"
    "st_leaf_level t = int 2"
    by (rule demo_walk)
  have "drop_bit (12 + 9 * 2) 0x80002000 = drop_bit (12 + 9 * 2) (0x80000123 :: u64)" by simp
  from translation_covers_page [OF t this] show ?thesis by blast
qed



subsection \<open>Control registers\<close>

text \<open>
  C30: writing a control register keeps the register file legal; the write succeeds exactly when the
  register exists, is writable and the privilege suffices, and a refused write changes nothing.
\<close>

theorem csr_writes_stay_legal:
  assumes "csr_ok f"
  shows "csr_ok (fst (csr_write f a v p)) \<and>
    (snd (csr_write f a v p) = None \<longleftrightarrow>
       is_implemented a \<and> \<not> csr_is_read_only a \<and> csr_minimum_privilege a \<le> p) \<and>
    (snd (csr_write f a v p) \<noteq> None \<longrightarrow> fst (csr_write f a v p) = f)"
  using csr_write_ok [OF assms] csr_write_cases [of f a v p] csr_write_result [of f a v p] validate_write_iff [of f a p]
  by auto

theorem csr_writes_stay_legal_witness:
  "csr_ok (fst (csr_write csr_reset 0x300 (- 1) Machine))"
  using csr_writes_stay_legal [OF csr_reset_ok] by blast

text \<open>
  What a control register reads as can be written back: the write does not change the register
  file, so a read-modify-write instruction with an empty mask is harmless.
\<close>

theorem csr_read_value_is_fixed_point:
  assumes "csr_ok f" "csr_read f a p = Inr v"
  shows "fst (csr_write f a v p) = f"
  using assms by (rule csr_write_readback)

theorem csr_read_value_is_fixed_point_witness:
  "\<exists>v. csr_read csr_reset 0x300 Machine = Inr v \<and> v \<noteq> 0 \<and> fst (csr_write csr_reset 0x300 v Machine) = csr_reset"
proof -
  have "case csr_read csr_reset 0x300 Machine of Inl e \<Rightarrow> False | Inr v \<Rightarrow> v \<noteq> 0" by code_simp
  then obtain v where "csr_read csr_reset 0x300 Machine = Inr v" "v \<noteq> 0" by (auto split: sum.splits)
  then show ?thesis using csr_read_value_is_fixed_point [OF csr_reset_ok] by blast
qed

text \<open>
  C16: below machine mode no write reaches the machine's registers: delegation, trap vector, trap state,
  scratch and counters stay, and of the shared registers only the supervisor's bits change.
\<close>

theorem supervisor_cannot_write_machine_state:
  assumes "p \<noteq> Machine" "csr_write f a v p = (f', result)"
  shows "medeleg f' = medeleg f \<and> mideleg f' = mideleg f \<and> mtvec f' = mtvec f \<and>
    mcounteren f' = mcounteren f \<and> mscratch f' = mscratch f \<and> mepc f' = mepc f \<and>
    mcause f' = mcause f \<and> mtval f' = mtval f \<and> mcycle f' = mcycle f \<and> minstret f' = minstret f \<and>
    mstatus f' AND NOT status_kSstatusWritableMask = mstatus f AND NOT status_kSstatusWritableMask \<and>
    mie f' AND NOT (mideleg f) = mie f AND NOT (mideleg f) \<and>
    mip f' AND NOT (mideleg f) = mip f AND NOT (mideleg f)"
  using csr_supervisor_write_frame [OF assms(1), of f a v] assms(2) by simp

theorem supervisor_cannot_write_machine_state_witness:
  "\<exists>f' result. csr_write csr_reset 0x100 (- 1) Supervisor = (f', result) \<and> mtvec f' = mtvec csr_reset"
proof -
  obtain f' result where "csr_write csr_reset 0x100 (- 1) Supervisor = (f', result)" by (metis surj_pair)
  then show ?thesis using supervisor_cannot_write_machine_state [of Supervisor] by blast
qed

text \<open>
  User mode writes no control register, and reads only the cycle and retirement counters, each only
  when both the machine and the supervisor have enabled it.
\<close>

theorem user_csr_access:
  "fst (csr_write f a v User) = f \<and> snd (csr_write f a v User) \<noteq> None \<and>
   (csr_read f a User = Inr w \<longleftrightarrow>
     a = csr_kCycle \<and> bit (mcounteren f) 0 \<and> bit (scounteren f) 0 \<and> w = mcycle f \<or>
     a = csr_kInstret \<and> bit (mcounteren f) 2 \<and> bit (scounteren f) 2 \<and> w = minstret f)"
  using csr_user_write [of f a v] csr_user_read [of f a w] by simp

subsection \<open>Trap entry and return\<close>

text \<open>
  A trap goes to supervisor mode exactly when it does not come from machine mode and its cause is
  delegated, and to machine mode otherwise, each at the base of that mode's trap vector.
\<close>

theorem trap_target:
  "snd (enter_trap f t p) =
     (if p \<noteq> Machine \<and> bit (medeleg f) (unat (cause_code (trap_cause t)))
      then \<lparr>te_target = Supervisor, te_vector = stvec f AND NOT 3\<rparr>
      else \<lparr>te_target = Machine, te_vector = mtvec f AND NOT 3\<rparr>)"
  by (simp add: enter_trap_cases trap_delegated_iff)

text \<open>
  C25: the return instruction of the mode that handles a trap undoes the entry: it goes back to the
  privilege the trap came from and to the address of the instruction that trapped, and restores the
  interrupt enable of that mode.
\<close>

theorem return_undoes_trap:
  assumes "enter_trap f t p = (f', e)"
  shows "if te_target e = Supervisor
    then snd (return_from_trap f' SupervisorReturn) = \<lparr>tr_target = p, tr_pc = trap_pc t AND NOT 3\<rparr> \<and>
      bit (mstatus (fst (return_from_trap f' SupervisorReturn))) 1 = bit (mstatus f) 1
    else snd (return_from_trap f' MachineReturn) = \<lparr>tr_target = p, tr_pc = trap_pc t AND NOT 3\<rparr> \<and>
      bit (mstatus (fst (return_from_trap f' MachineReturn))) 3 = bit (mstatus f) 3"
proof (cases "trap_delegated f (trap_cause t) p")
  case True
  then have p: "p \<in> {User, Supervisor}" by (cases p) auto
  show ?thesis
    using True assms supervisor.round_trip [OF p, of f t]
    by (auto simp: enter_trap_cases return_from_trap_def supervisor_enabled_def)
next
  case False
  then show ?thesis
    using assms machine.round_trip [of p f t]
    by (auto simp: enter_trap_cases return_from_trap_def machine_enabled_def)
qed

theorem return_undoes_trap_witness:
  "\<exists>f'. enter_trap csr_reset \<lparr>trap_cause = EnvironmentCallFromUserMode, trap_pc = 0x1000, trap_value = 0,
      trap_detail = []\<rparr> User = (f', \<lparr>te_target = Machine, te_vector = 0\<rparr>) \<and>
     snd (return_from_trap f' MachineReturn) = \<lparr>tr_target = User, tr_pc = 0x1000\<rparr>"
proof -
  let ?t = "\<lparr>trap_cause = EnvironmentCallFromUserMode, trap_pc = 0x1000, trap_value = 0, trap_detail = []\<rparr>"
  have "enter_trap csr_reset ?t User = (enter_machine csr_reset ?t User, \<lparr>te_target = Machine, te_vector = 0\<rparr>)"
    by (simp add: enter_trap_cases trap_delegated_iff csr_reset_def)
  then show ?thesis using return_undoes_trap [of csr_reset ?t User] by auto
qed

subsection \<open>The bus\<close>

text \<open>
  Mapping a device keeps the memory map: the devices are the old ones and the new one, and no
  address belongs to two of them.
\<close>

theorem add_device_keeps_map:
  assumes "bus_ok mem" "device_ok d" "add_device mem (Some d) = Inr mem'"
  shows "bus_ok mem' \<and> mset (devices mem') = mset (devices mem) + {#d#} \<and>
    (\<forall>i<length (devices mem'). \<forall>j<length (devices mem'). \<forall>a w u.
       device_contains (devices mem' ! i) a w \<and> device_contains (devices mem' ! j) a u \<longrightarrow> i = j)"
  using add_device_ok [OF assms] device_unique [of mem'] by blast

theorem add_device_keeps_map_witness:
  "\<exists>bus'. add_device \<lparr>devices = []\<rparr> (Some (devices test_bus ! 0)) = Inr bus' \<and> bus_ok bus'"
proof -
  have "device_ok (devices test_bus ! 0)"
    by (simp add: device_ok_def test_bus_def layout_def range_ok_def)
  moreover have "add_device \<lparr>devices = []\<rparr> (Some (devices test_bus ! 0)) = Inr test_bus"
    by (simp add: add_device_def test_bus_def)
  ultimately show ?thesis using add_device_keeps_map [OF bus_ok_empty] by blast
qed

text \<open>
  C35: RAM behind the bus is memory: a read returns the value written, cut to the width, and an access
  to disjoint addresses is not disturbed.
\<close>

theorem bus_reads_what_was_written:
  assumes "ram_accessible mem a w" "ram_accessible mem b u" "unat a + w \<le> unat b \<or> unat b + u \<le> unat a"
  shows "bus_read (fst (bus_write mem a w v k)) a w k' = Inr (v AND mask (w * 8)) \<and>
    bus_read (fst (bus_write mem a w v k)) b u k' = bus_read mem b u k'"
  using bus.rd_wr_same [OF assms(1)] bus.rd_wr_disjoint [OF assms] by blast

theorem bus_reads_what_was_written_witness:
  "bus_read (fst (bus_write test_bus 0x80000000 4 0xdeadbeef AccessKind.Store)) 0x80000000 4 AccessKind.Load = Inr 0xdeadbeef"
proof -
  have acc: "ram_accessible test_bus 0x80000000 4" "ram_accessible test_bus 0x80000004 4"
    using test_bus_ok by (simp_all add: ram_accessible_def test_bus_def valid_width_def contains_def)
  show ?thesis
    using bus_reads_what_was_written [OF acc, of "0xdeadbeef" AccessKind.Store AccessKind.Load]
    by (simp add: mask_eq_exp_minus_1)
qed

subsection \<open>Trace lines\<close>

text \<open>
  C36: a trace line determines its record: two records whose traps, if any, are at their own program
  counters have the same line only if they are equal. No information the record holds is lost, and
  escaping never makes two texts equal.
\<close>

theorem trace_line_determines_record:
  assumes "format_trace_record r = format_trace_record s"
    and "\<forall>t. sr_trap r = Some t \<longrightarrow> trap_pc t = sr_pc r" "\<forall>t. sr_trap s = Some t \<longrightarrow> trap_pc t = sr_pc s"
  shows "r = s"
  using assms by (intro format_trace_record_inject) (simp_all add: trap_at_pc_def)

theorem trace_line_determines_record_witness:
  "format_trace_record empty_record \<noteq> format_trace_record (empty_record\<lparr>sr_assembly := [quote]\<rparr>)"
proof
  assume "format_trace_record empty_record = format_trace_record (empty_record\<lparr>sr_assembly := [quote]\<rparr>)"
  from trace_line_determines_record [OF this] show False by (simp add: empty_record_def)
qed

subsection \<open>Termination of the loops\<close>

text \<open>
  C19: the loop of a run and the zero fill of a segment, as the code writes them with 64-bit counters and
  without a bound, return for every hart, sink and memory, with the results of the bounded recursions.
\<close>

theorem loops_terminate:
  "run_while emit maximum cpu trace 0 = Some (run_loop emit (unat maximum) cpu trace 0) \<and>
   zero_fill_while mem start (memory_size s) (file_size s) =
     Some (zero_fill mem start (file_size s) (unat (memory_size s) - unat (file_size s)))"
  by (simp add: run_while_returns zero_fill_while_returns)

end
