(* ===== verification/Cli.thy ===== *)
theory Cli
  imports MachineModel
begin

text \<open>
  The command line (\<^verbatim>\<open>main.cpp\<close>, \<^verbatim>\<open>version.hpp\<close>): number parsing, the options of \<^verbatim>\<open>run\<close>, the five
  commands and the exit codes. The host is an argument: what a path holds as a binary file and as a
  text file, whether a trace file can be created, and whether its stream is still good after the text
  it has been given.
\<close>

subsection \<open>Numbers\<close>

text \<open>\<^verbatim>\<open>std::from_chars\<close> for an unsigned 64-bit value: the value, the error and the characters used.\<close>

datatype Errc = NoError | InvalidArgumentError | ResultOutOfRange

definition is_digit :: "nat \<Rightarrow> char \<Rightarrow> bool" where
  "is_digit b c = (case digit_value c of None \<Rightarrow> False | Some d \<Rightarrow> d < b)"

definition from_chars :: "nat \<Rightarrow> string \<Rightarrow> u64 \<times> Errc \<times> nat" where
  "from_chars b s =
     (let digits = takeWhile (is_digit b) s
      in case value_base b 0 digits of
           None \<Rightarrow> (0, InvalidArgumentError, 0)
         | Some n \<Rightarrow>
             if digits = [] then (0, InvalidArgumentError, 0)
             else if n \<ge> 2 ^ 64 then (0, ResultOutOfRange, length digits)
             else (of_nat n, NoError, length digits))"

definition starts_with :: "string \<Rightarrow> string \<Rightarrow> bool" where
  "starts_with s prefix \<longleftrightarrow> take (length prefix) s = prefix"

definition parse_unsigned :: "string \<Rightarrow> string \<Rightarrow> exn + u64" where
  "parse_unsigned value0 label =
     (let (base, value) =
        (if starts_with value0 ''0x'' \<or> starts_with value0 ''0X'' then (16, drop 2 value0) else (10, value0))
      in if value = [] then Inl (InvalidArgument (label @ '' is empty''))
         else let (parsed, ec, used) = from_chars base value
              in if ec \<noteq> NoError \<or> used \<noteq> length value
                 then Inl (InvalidArgument (''invalid '' @ label @ '': '' @ value))
                 else Inr parsed)"

subsection \<open>The host and the console\<close>

record Host =
  h_binary :: "string \<Rightarrow> HostFile"
  h_text :: "string \<Rightarrow> string option"
  h_creates :: "string \<Rightarrow> bool"
  h_good :: "string \<Rightarrow> bool"

text \<open>
  What a command leaves: standard output and standard error, the exit code, and the trace file it
  wrote, if any.
\<close>

record Console =
  con_out :: string
  con_err :: string
  con_code :: nat
  con_trace :: "(string \<times> string) option"

definition console :: "string \<Rightarrow> string \<Rightarrow> nat \<Rightarrow> Console" where
  "console out err code = \<lparr>con_out = out, con_err = err, con_code = code, con_trace = None\<rparr>"

definition EXIT_SUCCESS :: nat where "EXIT_SUCCESS = 0"
definition EXIT_FAILURE :: nat where "EXIT_FAILURE = 1"

definition kVersion :: string where "kVersion = ''0.1.0''"

definition usage :: string where
  "usage = concat (map (\<lambda>l. l @ [newline])
     [''Northstar64 - deterministic RV64 machine laboratory'', [], ''Usage:'',
      ''  northstar64 run <guest.elf> [--max-steps N] [--trace FILE] [--trap-policy halt|vector]'',
      ''  northstar64 inspect <guest.elf>'', ''  northstar64 decode <32-bit-word>'',
      ''  northstar64 verify-trace <left.jsonl> <right.jsonl>'', ''  northstar64 version''])"

subsection \<open>The commands\<close>

definition segment_line :: "nat \<Rightarrow> ElfSegment \<Rightarrow> string" where
  "segment_line index s =
     ''  ['' @ show_dec index @ ''] load=0x'' @ show_hex (unat (load_address s)) @
     '' vaddr=0x'' @ show_hex (unat (virtual_address s)) @ '' filesz=0x'' @ show_hex (unat (file_size s)) @
     '' memsz=0x'' @ show_hex (unat (memory_size s)) @ '' flags='' @
     [if readable s then CHR ''R'' else CHR ''-'', if writable s then CHR ''W'' else CHR ''-'',
      if executable s then CHR ''X'' else CHR ''-''] @ [newline]"

definition inspect_command ::
  "(ElfSegment list \<Rightarrow> ElfSegment list) \<Rightarrow> Host \<Rightarrow> string \<Rightarrow> exn + Console" where
  "inspect_command std_sort host path =
     and_then (inspect_elf std_sort path (h_binary host path)) (\<lambda>img.
     Inr (console (''ELF64 RISC-V'' @ [newline] @ ''entry: 0x'' @ show_hex (unat (entry img)) @ [newline] @
       ''loadable segments: '' @ show_dec (length (segments img)) @ [newline] @
       concat (map (\<lambda>(i, s). segment_line i s) (enumerate 0 (segments img)))) [] EXIT_SUCCESS))"

definition decode_command :: "string \<Rightarrow> exn + Console" where
  "decode_command word =
     and_then (parse_unsigned word ''instruction word'') (\<lambda>parsed.
     if parsed > 0xffffffff then Inl (InvalidArgument ''instruction word exceeds 32 bits'')
     else (case decode (ucast parsed) of
             Inl e \<Rightarrow> Inr (console [] (''decode error: '' @ de_detail e @ [newline]) EXIT_FAILURE)
           | Inr ins \<Rightarrow> Inr (console (disassemble ins @ [newline]) [] EXIT_SUCCESS)))"

definition verify_trace_command :: "Host \<Rightarrow> string \<Rightarrow> string \<Rightarrow> exn + Console" where
  "verify_trace_command host left right =
     and_then (compare_trace_files left (h_text host left) right (h_text host right)) (\<lambda>difference.
     case difference of
       None \<Rightarrow> Inr (console (''traces are byte-for-byte identical'' @ [newline]) [] EXIT_SUCCESS)
     | Some d \<Rightarrow> Inr (console [] (''trace divergence at line '' @ show_dec (td_line d) @ [newline] @
         ''left:  '' @ td_left d @ [newline] @ ''right: '' @ td_right d @ [newline]) EXIT_FAILURE))"

record RunOptions =
  ro_maximum_steps :: u64
  ro_trace_path :: string
  ro_trap_policy :: TrapPolicy

definition default_run_options :: RunOptions where
  "default_run_options = \<lparr>ro_maximum_steps = 1000000, ro_trace_path = [], ro_trap_policy = Halt\<rparr>"

fun parse_run_options :: "RunOptions \<Rightarrow> string list \<Rightarrow> exn + RunOptions" where
  "parse_run_options opts [] = Inr opts"
| "parse_run_options opts (argument # rest) =
     (if argument = ''--max-steps'' then
        (case rest of
           [] \<Rightarrow> Inl (InvalidArgument ''--max-steps requires a value'')
         | value # rest' \<Rightarrow>
             and_then (parse_unsigned value ''maximum step count'') (\<lambda>n.
             parse_run_options (opts\<lparr>ro_maximum_steps := n\<rparr>) rest'))
      else if argument = ''--trace'' then
        (case rest of
           [] \<Rightarrow> Inl (InvalidArgument ''--trace requires a file path'')
         | value # rest' \<Rightarrow> parse_run_options (opts\<lparr>ro_trace_path := value\<rparr>) rest')
      else if argument = ''--trap-policy'' then
        (case rest of
           [] \<Rightarrow> Inl (InvalidArgument ''--trap-policy requires halt or vector'')
         | value # rest' \<Rightarrow>
             if value = ''halt'' then parse_run_options (opts\<lparr>ro_trap_policy := Halt\<rparr>) rest'
             else if value = ''vector'' then parse_run_options (opts\<lparr>ro_trap_policy := Vector\<rparr>) rest'
             else Inl (InvalidArgument ''--trap-policy requires halt or vector''))
      else Inl (InvalidArgument (''unknown run option: '' @ argument)))"

text \<open>The writer of \<^verbatim>\<open>JsonlTraceWriter\<close>: opening truncates the file.\<close>

definition open_trace :: "Host \<Rightarrow> string \<Rightarrow> exn + string" where
  "open_trace host path =
     (if h_creates host path then Inr [] else Inl (RuntimeError (''cannot open trace output: '' @ path)))"

definition trace_sink_of :: "Host \<Rightarrow> string \<Rightarrow> string \<Rightarrow> StepRecord \<Rightarrow> exn + string" where
  "trace_sink_of host path =
     (if path = [] then ignore_trace else jsonl_append (@) (h_good host))"

fun device_output :: "Device \<Rightarrow> string" where
  "device_output (RamDevice r) = []"
| "device_output (UartDevice u) = (case uart_output u of None \<Rightarrow> [] | Some s \<Rightarrow> s)"

definition stop_line :: "ElfImage \<Rightarrow> RunResult \<Rightarrow> string" where
  "stop_line img result =
     [newline] @ ''[Northstar64] entry=0x'' @ show_hex (unat (entry img)) @
     '' attempted='' @ show_dec (unat (rr_attempted_steps result)) @
     '' retired='' @ show_dec (unat (rr_retired_instructions result)) @ '' stop='' @
     (if rr_reason result = Halted then ''halted'' else ''step-limit'') @
     '' detail='' @ quoted_text (rr_detail result) @ [newline]"

definition exit_code :: "RunResult \<Rightarrow> nat" where
  "exit_code result =
     (if rr_reason result = StepLimit then 2
      else (case rr_terminal_trap result of
              Some t \<Rightarrow> if trap_cause t \<noteq> Breakpoint then 3 else EXIT_SUCCESS
            | None \<Rightarrow> EXIT_SUCCESS))"

definition run_command ::
  "(ElfSegment list \<Rightarrow> ElfSegment list) \<Rightarrow> Host \<Rightarrow> string list \<Rightarrow> exn + Console" where
  "run_command std_sort host argv =
     (if length argv < 3 then Inl (InvalidArgument ''run requires a guest ELF path'')
      else let path = argv ! 2 in
        and_then (parse_run_options default_run_options (drop 3 argv)) (\<lambda>opts.
        and_then (make_machine (default_machine_config
            \<lparr>mc_cpu := default_cpu_config\<lparr>trap_policy := ro_trap_policy opts\<rparr>\<rparr>) (Some [])) (\<lambda>m0.
        let (m1, loaded) = machine_load std_sort path (h_binary host path) m0 in
        and_then loaded (\<lambda>img.
        let trace_path = ro_trace_path opts in
        and_then (if trace_path = [] then Inr [] else open_trace host trace_path) (\<lambda>trace0.
        and_then (machine_run (trace_sink_of host trace_path) m1 trace0 (ro_maximum_steps opts))
          (\<lambda>(m2, trace1, result).
        and_then (if trace_path = [] then Inr trace1 else jsonl_flush id (h_good host) trace1) (\<lambda>trace2.
        Inr \<lparr>con_out = concat (map device_output (devices (bus (m_cpu m2)))),
             con_err = stop_line img result, con_code = exit_code result,
             con_trace = (if trace_path = [] then None else Some (trace_path, trace2))\<rparr>)))))))"

subsection \<open>The program\<close>

fun exn_what :: "exn \<Rightarrow> string" where
  "exn_what (InvalidArgument s) = s"
| "exn_what (OutOfRange s) = s"
| "exn_what (LogicError s) = s"
| "exn_what (RuntimeError s) = s"
| "exn_what (ElfError s) = s"

definition dispatch ::
  "(ElfSegment list \<Rightarrow> ElfSegment list) \<Rightarrow> Host \<Rightarrow> string list \<Rightarrow> exn + Console" where
  "dispatch std_sort host argv =
     (if length argv < 2 then Inr (console [] usage EXIT_FAILURE)
      else let command = argv ! 1; argc = length argv in
        if command = ''version'' \<or> command = ''--version'' then
          Inr (console (''Northstar64 '' @ kVersion @ [newline]) [] EXIT_SUCCESS)
        else if command = ''inspect'' \<and> argc = 3 then inspect_command std_sort host (argv ! 2)
        else if command = ''decode'' \<and> argc = 3 then decode_command (argv ! 2)
        else if command = ''verify-trace'' \<and> argc = 4 then verify_trace_command host (argv ! 2) (argv ! 3)
        else if command = ''run'' then run_command std_sort host argv
        else Inr (console [] usage EXIT_FAILURE))"

text \<open>
  The exit code and standard error of the process; its standard output and trace file are known when
  no exception cut the command short.
\<close>

definition main ::
  "(ElfSegment list \<Rightarrow> ElfSegment list) \<Rightarrow> Host \<Rightarrow> string list \<Rightarrow> nat \<times> string \<times> Console option" where
  "main std_sort host argv =
     (case dispatch std_sort host argv of
        Inl e \<Rightarrow> (EXIT_FAILURE, ''error: '' @ exn_what e @ [newline], None)
      | Inr c \<Rightarrow> (con_code c, con_err c, Some c))"

end
