(* ===== verification/CliFacts.thy ===== *)
theory CliFacts
  imports Cli TraceFormat MachineLoad
begin

text \<open>
  The facts about the command line: numbers are read back from their decimal and hexadecimal text, the
  exit codes, the trace a run writes, and what \<^verbatim>\<open>verify-trace\<close> decides.
\<close>

subsection \<open>Numbers\<close>

lemma is_digit_char: "d < b \<Longrightarrow> b \<le> 36 \<Longrightarrow> is_digit b (digit_char d)"
  by (simp add: is_digit_def digit_value_char)

lemma takeWhile_digits: "2 \<le> b \<Longrightarrow> b \<le> 36 \<Longrightarrow> takeWhile (is_digit b) (show_base b n) = show_base b n"
  using digit_char_set [of b n] is_digit_char [of _ b] by (intro takeWhile_eq_all_conv [THEN iffD2]) fastforce

lemma from_chars_show:
  "2 \<le> b \<Longrightarrow> b \<le> 36 \<Longrightarrow> from_chars b (show_base b n) =
     (if n < 2 ^ 64 then (of_nat n, NoError, length (show_base b n))
      else (0, ResultOutOfRange, length (show_base b n)))"
  by (simp add: from_chars_def takeWhile_digits value_show_base)

lemma not_hex_prefix: "\<not> starts_with (show_dec n) ''0x'' \<and> \<not> starts_with (show_dec n) ''0X''"
proof -
  have "CHR ''x'' \<notin> set (show_dec n)" "CHR ''X'' \<notin> set (show_dec n)"
    using decimal_code [of "CHR ''x''" n] decimal_code [of "CHR ''X''" n] by (auto simp: digit_code_def)
  moreover have "set (take 2 (show_dec n)) \<subseteq> set (show_dec n)" by (rule set_take_subset)
  ultimately have "take 2 (show_dec n) \<noteq> ''0x''" "take 2 (show_dec n) \<noteq> ''0X''" by force+
  then show ?thesis by (simp add: starts_with_def numeral_2_eq_2)
qed

lemma parse_unsigned_decimal:
  "parse_unsigned (show_dec n) label =
     (if n < 2 ^ 64 then Inr (of_nat n)
      else Inl (InvalidArgument (''invalid '' @ label @ '': '' @ show_dec n)))"
  using not_hex_prefix [of n] from_chars_show [of 10 n]
  by (simp add: parse_unsigned_def show_dec_def)

lemma parse_unsigned_hex:
  "parse_unsigned (''0x'' @ show_hex n) label =
     (if n < 2 ^ 64 then Inr (of_nat n)
      else Inl (InvalidArgument (''invalid '' @ label @ '': '' @ show_hex n)))"
  using from_chars_show [of 16 n] by (simp add: parse_unsigned_def starts_with_def show_hex_def)

subsection \<open>Traces of the hart\<close>

lemma step_trap_at_pc: "regs_ok (registers cpu) \<Longrightarrow> step cpu = Inr (cpu', r) \<Longrightarrow> trap_at_pc r"
  using step_trap [of cpu cpu' r] step_record(9) [of cpu cpu' r]
  by (auto simp: trap_at_pc_def trap_outcome_def start_record_def)

lemma steps_trap_at_pc: "steps cpu rs cpu' \<Longrightarrow> cpu_ok cpu \<Longrightarrow> \<forall>r\<in>set rs. trap_at_pc r"
proof (induction rule: steps.induct)
  case (steps_step cpu cpu1 r rs cpu')
  have "regs_ok (registers cpu)" using steps_step.prems by (simp add: cpu_ok_def)
  from step_trap_at_pc [OF this steps_step.hyps(2)] steps_step step_ok [OF steps_step.prems steps_step.hyps(2)]
  show ?case by simp
qed simp

subsection \<open>The run command\<close>

lemma run_outcome:
  assumes "run emit cpu t n = Inr (cpu', t', result)"
  shows "\<exists>k. run_loop emit (unat n) cpu t 0 = Inr (cpu', t', k) \<and> rr_attempted_steps result = k \<and>
    rr_reason result = (if halted cpu' then Halted else StepLimit) \<and> rr_terminal_trap result = terminal_trap cpu' \<and>
    rr_retired_instructions result = minstret (csrs cpu')"
  using assms by (auto simp: run_def split: sum.splits prod.splits)

lemma run_command_cases:
  assumes "run_command std_sort host argv = Inr c"
  obtains opts m0 m1 img trace1 m2 result where
    "parse_run_options default_run_options (drop 3 argv) = Inr opts"
    "make_machine (default_machine_config
       \<lparr>mc_cpu := default_cpu_config\<lparr>trap_policy := ro_trap_policy opts\<rparr>\<rparr>) (Some []) = Inr m0"
    "machine_load std_sort (argv ! 2) (h_binary host (argv ! 2)) m0 = (m1, Inr img)"
    "machine_run (trace_sink_of host (ro_trace_path opts)) m1 [] (ro_maximum_steps opts) = Inr (m2, trace1, result)"
    "con_code c = exit_code result" "con_err c = stop_line img result"
    "con_trace c = (if ro_trace_path opts = [] then None else Some (ro_trace_path opts, trace1))"
    "con_out c = concat (map device_output (devices (bus (m_cpu m2))))"
proof -
  obtain opts where opts: "parse_run_options default_run_options (drop 3 argv) = Inr opts"
    using assms by (auto simp: run_command_def Let_def split: if_splits)
  obtain m0 where m0: "make_machine (default_machine_config
      \<lparr>mc_cpu := default_cpu_config\<lparr>trap_policy := ro_trap_policy opts\<rparr>\<rparr>) (Some []) = Inr m0"
    using assms opts by (auto simp: run_command_def Let_def split: if_splits)
  obtain m1 loaded where m1: "machine_load std_sort (argv ! 2) (h_binary host (argv ! 2)) m0 = (m1, loaded)"
    by (metis surj_pair)
  obtain img where img: "loaded = Inr img"
    using assms by (auto simp: run_command_def Let_def opts m0 m1 split: if_splits)
  have "(if ro_trace_path opts = [] then Inr [] else open_trace host (ro_trace_path opts)) = Inr []"
    using assms by (auto simp: run_command_def Let_def opts m0 m1 img open_trace_def split: if_splits)
  then obtain m2 trace1 result where
    "machine_run (trace_sink_of host (ro_trace_path opts)) m1 [] (ro_maximum_steps opts) = Inr (m2, trace1, result)"
    "con_code c = exit_code result" "con_err c = stop_line img result"
    "con_trace c = (if ro_trace_path opts = [] then None else Some (ro_trace_path opts, trace1))"
    "con_out c = concat (map device_output (devices (bus (m_cpu m2))))"
    using assms
    by (fastforce simp: run_command_def Let_def opts m0 m1 img jsonl_flush_def split: if_splits prod.splits)
  then show thesis using that opts m0 m1 img by blast
qed

lemma run_records:
  assumes "machine_run (trace_sink_of host path) m1 [] n = Inr (m2, text, result)" "path \<noteq> []"
  obtains rs where "steps (m_cpu m1) rs (m_cpu m2)" "text = jsonl_text rs" "length rs \<le> unat n"
    "halted (m_cpu m2) \<or> length rs = unat n" "rr_attempted_steps result = of_nat (length rs)"
proof -
  obtain cpu where r: "run (jsonl_append (@) (h_good host)) (m_cpu m1) [] n = Inr (cpu, text, result)"
    "m_cpu m2 = cpu"
    using assms by (auto simp: machine_run_def trace_sink_of_def)
  obtain k where k: "run_loop (jsonl_append (@) (h_good host)) (unat n) (m_cpu m1) [] 0 = Inr (cpu, text, k)"
    "rr_attempted_steps result = k"
    using run_outcome [OF r(1)] by blast
  from jsonl.run_loop_steps [OF k(1)] obtain rs where "steps (m_cpu m1) rs cpu" "k = of_nat (length rs)"
    "length rs \<le> unat n" "halted cpu \<or> length rs = unat n" "text = jsonl_text rs"
    by (auto simp: jsonl_text_def)
  then show thesis using that k(2) r(2) by blast
qed

lemma common_prefix_lines:
  "\<forall>r\<in>set rs \<union> set ss. trap_at_pc r \<Longrightarrow>
     length (longest_common_prefix (map format_trace_record rs) (map format_trace_record ss)) =
     length (longest_common_prefix rs ss)"
  by (induction rs ss rule: list_induct2') (auto dest: format_trace_record_inject)

lemma file_lines_last_break: "s \<noteq> [] \<Longrightarrow> last s \<noteq> newline \<Longrightarrow> file_lines (s @ [newline]) = file_lines s"
proof (induction s rule: file_lines.induct)
  case (1 s)
  show ?case
  proof (cases "newline \<in> set s")
    case False
    then have tw: "takeWhile (\<lambda>c. c \<noteq> newline) s = s" and dw: "dropWhile (\<lambda>c. c \<noteq> newline) s = []"
      by (auto simp: takeWhile_eq_all_conv dropWhile_eq_Nil_conv)
    have "getline s = Some (s, [])" using 1(2) by (simp add: getline_def tw dw)
    then show ?thesis
      using getline_append [OF False, of "[]"]
      by (simp add: file_lines.simps [of s] file_lines.simps [of "s @ [newline]"])
  next
    case True
    then obtain l r where s: "s = l @ newline # r" "newline \<notin> set l" by (metis split_list_first)
    then have r: "r \<noteq> []" "last r \<noteq> newline" using 1(3) by (auto split: if_splits)
    have g: "getline s = Some (l, r)" "getline (s @ [newline]) = Some (l, r @ [newline])"
      using s getline_append [OF s(2), of r] getline_append [OF s(2), of "r @ [newline]"] by simp_all
    then show ?thesis
      using 1(1) [OF g(1) refl r]
      by (simp add: file_lines.simps [of s] file_lines.simps [of "s @ [newline]"])
  qed
qed

lemma exit_code_cases:
  assumes "machine_run emit m t n = Inr (m', t', result)"
  shows "exit_code result =
    (if \<not> halted (m_cpu m') then 2
     else case terminal_trap (m_cpu m') of None \<Rightarrow> 0 | Some t \<Rightarrow> if trap_cause t = Breakpoint then 0 else 3)"
proof -
  obtain cpu where "run emit (m_cpu m) t n = Inr (cpu, t', result)" "m_cpu m' = cpu"
    using assms by (auto simp: machine_run_def)
  then show ?thesis
    using run_outcome by (fastforce simp: exit_code_def EXIT_SUCCESS_def split: option.split)
qed

lemma dispatch_code: "dispatch std_sort host argv = Inr c \<Longrightarrow> con_code c \<in> {0, 1, 2, 3}"
proof -
  have run: "con_code c \<in> {0, 1, 2, 3}" if "run_command std_sort host argv = Inr c"
    using that by (rule run_command_cases) (auto simp: exit_code_def EXIT_SUCCESS_def split: option.split)
  show "dispatch std_sort host argv = Inr c \<Longrightarrow> con_code c \<in> {0, 1, 2, 3}"
    using run
    by (auto simp: dispatch_def Let_def console_def EXIT_SUCCESS_def EXIT_FAILURE_def inspect_command_def
        decode_command_def verify_trace_command_def split: if_splits sum.splits option.splits)
qed

subsection \<open>Properties\<close>

text \<open>
  C40: an unsigned number is read back from its decimal text and from its hexadecimal text with the
  prefix \<^verbatim>\<open>0x\<close>, exactly when it fits in 64 bits; a larger one is an \<^verbatim>\<open>invalid_argument\<close>.
\<close>

theorem parse_unsigned_reads_numbers:
  "parse_unsigned (show_dec n) label =
     (if n < 2 ^ 64 then Inr (of_nat n)
      else Inl (InvalidArgument (''invalid '' @ label @ '': '' @ show_dec n))) \<and>
   parse_unsigned (''0x'' @ show_hex n) label =
     (if n < 2 ^ 64 then Inr (of_nat n)
      else Inl (InvalidArgument (''invalid '' @ label @ '': '' @ show_hex n)))"
  by (rule conjI [OF parse_unsigned_decimal parse_unsigned_hex])

text \<open>
  \<^verbatim>\<open>decode\<close> on the text of a 32-bit word prints the disassembly of the decoded instruction and
  succeeds, or prints the decoder's reason and exits with code 1.
\<close>

theorem decode_command_word:
  "decode_command (''0x'' @ show_hex (unat (w :: u32))) =
     Inr (case decode w of
            Inl e \<Rightarrow> console [] (''decode error: '' @ de_detail e @ [newline]) 1
          | Inr ins \<Rightarrow> console (disassemble ins @ [newline]) [] 0)"
proof -
  have "unat w < 2 ^ LENGTH(32)" by (rule unsigned_less)
  then have w: "unat w < 2 ^ 32" by simp
  then have "parse_unsigned (''0x'' @ show_hex (unat w)) ''instruction word'' = Inr (of_nat (unat w))"
    unfolding parse_unsigned_hex by simp
  moreover have "unat (of_nat (unat w) :: u64) = unat w" using w by (intro unat_of_nat_u64) simp
  then have "\<not> (of_nat (unat w) :: u64) > 0xffffffff" using w by (simp add: word_less_nat_alt)
  moreover have "(ucast (of_nat (unat w) :: u64) :: u32) = w"
    by (simp add: ucast_up_ucast_id is_up)
  ultimately show ?thesis
    by (simp add: decode_command_def EXIT_SUCCESS_def EXIT_FAILURE_def split: sum.split)
qed

text \<open>
  The exit code of the program is 0, 1, 2 or 3; it is 1 whenever an exception reaches \<^verbatim>\<open>main\<close>,
  and then standard error holds its message.
\<close>

theorem main_exit_codes:
  "fst (main std_sort host argv) \<in> {0, 1, 2, 3} \<and>
   (case dispatch std_sort host argv of
      Inl e \<Rightarrow> main std_sort host argv = (1, ''error: '' @ exn_what e @ [newline], None)
    | Inr c \<Rightarrow> main std_sort host argv = (con_code c, con_err c, Some c))"
  using dispatch_code [of std_sort host argv]
  by (auto simp: main_def EXIT_FAILURE_def split: sum.split)

text \<open>
  C20: a \<^verbatim>\<open>run\<close> that writes a trace loads the image into a new machine and steps its hart; the trace
  file holds exactly the records of these steps in order, one line each, at most the maximum number of
  them; the exit code is 2 when the maximum was reached without a halt, 3 when the hart stopped at a
  trap that is not a breakpoint, and 0 otherwise.
\<close>

theorem run_command_writes_trace:
  assumes "run_command std_sort host argv = Inr c" "con_trace c = Some (path, text)"
  shows "\<exists>opts m0 m1 img rs cpu.
    parse_run_options default_run_options (drop 3 argv) = Inr opts \<and> machine_ok m0 \<and>
    machine_load std_sort (argv ! 2) (h_binary host (argv ! 2)) m0 = (m1, Inr img) \<and>
    steps (m_cpu m1) rs cpu \<and> text = jsonl_text rs \<and> length rs \<le> unat (ro_maximum_steps opts) \<and>
    con_code c = (if \<not> halted cpu then 2
      else case terminal_trap cpu of None \<Rightarrow> 0 | Some t \<Rightarrow> if trap_cause t = Breakpoint then 0 else 3) \<and>
    (con_code c = 2 \<longrightarrow> length rs = unat (ro_maximum_steps opts))"
  using assms(1)
proof (rule run_command_cases)
  fix opts m0 m1 img trace1 m2 result
  assume opts: "parse_run_options default_run_options (drop 3 argv) = Inr opts"
    and m0: "make_machine (default_machine_config
       \<lparr>mc_cpu := default_cpu_config\<lparr>trap_policy := ro_trap_policy opts\<rparr>\<rparr>) (Some []) = Inr m0"
    and m1: "machine_load std_sort (argv ! 2) (h_binary host (argv ! 2)) m0 = (m1, Inr img)"
    and r: "machine_run (trace_sink_of host (ro_trace_path opts)) m1 [] (ro_maximum_steps opts) =
      Inr (m2, trace1, result)"
    and c: "con_code c = exit_code result"
      "con_trace c = (if ro_trace_path opts = [] then None else Some (ro_trace_path opts, trace1))"
  have path: "ro_trace_path opts \<noteq> []" "trace1 = text" using c(2) assms(2) by (auto split: if_splits)
  obtain rs where rs: "steps (m_cpu m1) rs (m_cpu m2)" "text = jsonl_text rs"
    "length rs \<le> unat (ro_maximum_steps opts)"
    "halted (m_cpu m2) \<or> length rs = unat (ro_maximum_steps opts)"
    using run_records [OF r path(1)] path(2) by metis
  have code: "con_code c = (if \<not> halted (m_cpu m2) then 2
      else case terminal_trap (m_cpu m2) of None \<Rightarrow> 0 | Some t \<Rightarrow> if trap_cause t = Breakpoint then 0 else 3)"
    using exit_code_cases [OF r] c(1) by simp
  then have "con_code c = 2 \<longrightarrow> length rs = unat (ro_maximum_steps opts)"
    using rs(4) by (auto split: option.splits if_splits)
  then show ?thesis using opts make_machine_ok [OF m0] m1 rs code by blast
qed

definition test_host :: Host where
  "test_host = \<lparr>h_binary = (\<lambda>_. test_file (minimal_elf 0x80000000 16)), h_text = (\<lambda>_. None),
     h_creates = (\<lambda>_. True), h_good = (\<lambda>_. True)\<rparr>"

definition test_arguments :: "string list" where
  "test_arguments = [''northstar64'', ''run'', ''guest.elf'', ''--trace'', ''t.jsonl'', ''--max-steps'', ''4'']"

lemma test_options: "parse_run_options default_run_options (drop 3 test_arguments) =
    Inr \<lparr>ro_maximum_steps = 4, ro_trace_path = ''t.jsonl'', ro_trap_policy = Halt\<rparr>"
  by (simp add: test_arguments_def default_run_options_def parse_unsigned_def starts_with_def from_chars_def
      is_digit_def digit_value_def Let_def)

lemma test_run:
  assumes "3 \<le> length arguments" "parse_run_options default_run_options (drop 3 arguments) =
    Inr \<lparr>ro_maximum_steps = n, ro_trace_path = ''t.jsonl'', ro_trap_policy = Halt\<rparr>"
  shows "\<exists>c content. run_command (sort_key load_address) test_host arguments = Inr c \<and> con_trace c = Some (''t.jsonl'', content)"
proof -
  let ?m0 = "fresh_machine (default_cpu_config\<lparr>trap_policy := Halt\<rparr>) (Some [])"
  obtain m1 where m1: "machine_load (sort_key load_address) (arguments ! 2)
      (h_binary test_host (arguments ! 2)) ?m0 = (m1, Inr test_image)"
    using fresh_machine_loads [of "arguments ! 2"] by (auto simp: test_host_def)
  have ok: "cpu_ok (m_cpu m1)"
    using machine_load_ok [OF fresh_machine_ok m1] by (simp add: machine_ok_def)
  have "\<exists>t'. jsonl_append (@) (h_good test_host) t r = Inr t'" for t r
    by (simp add: jsonl_append_def test_host_def)
  then obtain cpu content k where
    "run_loop (jsonl_append (@) (h_good test_host)) (unat n) (m_cpu m1) [] 0 = Inr (cpu, content, k)"
    using run_loop_total [OF ok, of "jsonl_append (@) (h_good test_host)"] by metis
  then have "\<exists>m2 result. machine_run (trace_sink_of test_host ''t.jsonl'') m1 [] n = Inr (m2, content, result)"
    by (simp add: machine_run_def trace_sink_of_def run_def)
  then obtain m2 result where r: "machine_run (trace_sink_of test_host ''t.jsonl'') m1 [] n = Inr (m2, content, result)"
    by blast
  show ?thesis
    using make_default_machine [of "default_cpu_config\<lparr>trap_policy := Halt\<rparr>" "Some []"] assms(1)
    by (simp add: run_command_def assms(2) m1 r Let_def jsonl_flush_def open_trace_def)
      (simp add: test_host_def)
qed

theorem run_command_writes_trace_witness:
  "\<exists>c rs. run_command (sort_key load_address) test_host test_arguments = Inr c \<and>
     con_trace c = Some (''t.jsonl'', jsonl_text rs) \<and> length rs \<le> 4"
proof -
  obtain c content where c: "run_command (sort_key load_address) test_host test_arguments = Inr c"
    "con_trace c = Some (''t.jsonl'', content)"
    using test_run [OF _ test_options] by (auto simp: test_arguments_def)
  then show ?thesis using run_command_writes_trace [OF c] test_options by auto
qed

text \<open>
  C21: \<^verbatim>\<open>verify-trace\<close> on the traces of two executions decides whether they are the same execution:
  it succeeds exactly when the record sequences are equal, and otherwise reports the line after their
  longest common prefix.
\<close>

theorem verify_trace_decides:
  assumes "steps c rs c'" "cpu_ok c" "steps d ss d'" "cpu_ok d"
    and "h_text host left = Some (jsonl_text rs)" "h_text host right = Some (jsonl_text ss)"
  shows "\<exists>con. verify_trace_command host left right = Inr con \<and> (con_code con = 0 \<longleftrightarrow> rs = ss) \<and>
    (rs \<noteq> ss \<longrightarrow> (\<exists>l r. con_err con = ''trace divergence at line '' @
       show_dec (length (longest_common_prefix rs ss) + 1) @ [newline] @ ''left:  '' @ l @ [newline] @
       ''right: '' @ r @ [newline]))"
proof -
  have t: "\<forall>r\<in>set rs \<union> set ss. trap_at_pc r"
    using steps_trap_at_pc [OF assms(1,2)] steps_trap_at_pc [OF assms(3,4)] by blast
  let ?d = "first_difference 0 (map format_trace_record rs) (map format_trace_record ss)"
  have cmp: "compare_trace_files left (h_text host left) right (h_text host right) = Inr ?d"
    by (simp add: compare_trace_files_def assms(5,6) compare_loop_lines file_lines_jsonl)
  show ?thesis
  proof (cases ?d)
    case None
    then have "rs = ss" using map_format_inject [OF t] by (simp add: first_difference_None)
    then show ?thesis using None cmp by (simp add: verify_trace_command_def console_def EXIT_SUCCESS_def)
  next
    case (Some x)
    then have "rs \<noteq> ss" using first_difference_None [of 0 "map format_trace_record rs" "map format_trace_record ss"] by auto
    moreover have "td_line x = length (longest_common_prefix rs ss) + 1"
      using first_difference_line [OF Some] common_prefix_lines [OF t] by simp
    ultimately show ?thesis
      using Some cmp by (auto simp: verify_trace_command_def console_def EXIT_FAILURE_def)
  qed
qed

theorem verify_trace_decides_witness:
  "\<exists>con. verify_trace_command (test_host\<lparr>h_text := \<lambda>_. Some []\<rparr>) ''a'' ''b'' = Inr con \<and> con_code con = 0"
  using verify_trace_decides [OF steps_done fresh_cpu_ok steps_done fresh_cpu_ok,
      of "test_host\<lparr>h_text := \<lambda>_. Some []\<rparr>" "''a''" "''b''"]
  by (simp add: jsonl_text_def)

text \<open>
  The comparison is by lines, so two files that differ in the line break at their end are reported
  to be byte-for-byte identical.
\<close>

theorem verify_trace_ignores_last_line_break:
  assumes "h_text host left = Some s" "h_text host right = Some (s @ [newline])" "s \<noteq> []" "last s \<noteq> newline"
  shows "verify_trace_command host left right =
    Inr (console (''traces are byte-for-byte identical'' @ [newline]) [] 0)"
proof -
  have "first_difference 0 (file_lines s) (file_lines (s @ [newline])) = None"
    by (simp only: first_difference_None file_lines_last_break [OF assms(3,4)])
  then show ?thesis
    by (simp add: verify_trace_command_def compare_trace_files_def compare_loop_lines assms EXIT_SUCCESS_def)
qed

theorem verify_trace_ignores_last_line_break_witness:
  "verify_trace_command (test_host\<lparr>h_text := \<lambda>p. if p = ''a'' then Some ''{}'' else Some (''{}'' @ [newline])\<rparr>)
     ''a'' ''b'' = Inr (console (''traces are byte-for-byte identical'' @ [newline]) [] 0)"
  by (rule verify_trace_ignores_last_line_break [of _ _ "''{}''"]) (simp_all add: newline_def)

end
