(* ===== verification/Guests.thy ===== *)
theory Guests
  imports MachineLoad CliFacts IsaMachine
begin

text \<open>
  The machine, the command line and the instruction set together: a machine that has loaded an image runs it
  as the abstract machine of the instruction set runs the bytes of the image, and the command \<^verbatim>\<open>run\<close> writes
  the trace of that run.
\<close>

subsection \<open>The image as a state of the abstract machine\<close>

text \<open>
  The program counter is at the entry, the registers are zero, and memory holds the payloads of the
  segments followed by zeros. \<open>ram\<close> is the memory map.
\<close>

definition image_byte :: "u8 list \<Rightarrow> ElfSegment list \<Rightarrow> u64 \<Rightarrow> u8" where
  "image_byte bytes segs a =
     (case find (\<lambda>s. inside s a) segs of
        None \<Rightarrow> 0
      | Some s \<Rightarrow> segment_byte bytes s (unat a - unat (load_address s)))"

definition isa_image :: "(VirtualAccess \<Rightarrow> u64 \<Rightarrow> nat \<Rightarrow> bool) \<Rightarrow> u8 list \<Rightarrow> ElfImage \<Rightarrow> Isa" where
  "isa_image ram bytes img = \<lparr>isa_pc = entry img, isa_regs = (\<lambda>i. 0), isa_ram = ram,
     isa_mem = image_byte bytes (segments img)\<rparr>"

lemma find_inside: "find (\<lambda>s. inside s a) segs = Some s \<Longrightarrow> s \<in> set segs \<and> inside s a"
  by (auto simp: find_Some_iff)

lemma image_byte_memory:
  assumes "\<forall>s\<in>set segs. \<forall>i<unat (memory_size s). f (load_address s + of_nat i) =
      (if i < unat (file_size s) then bytes ! (unat (file_offset s) + i) else 0)"
    "\<forall>a. (\<forall>s\<in>set segs. \<not> inside s a) \<longrightarrow> f a = 0"
  shows "f = image_byte bytes segs"
proof
  fix a
  show "f a = image_byte bytes segs a"
  proof (cases "find (\<lambda>s. inside s a) segs")
    case None
    then have "\<forall>s\<in>set segs. \<not> inside s a" by (simp add: find_None_iff)
    then show ?thesis using None assms(2) by (simp add: image_byte_def)
  next
    case (Some s)
    from find_inside [OF this] have s: "s \<in> set segs" "inside s a" by auto
    let ?i = "unat a - unat (load_address s)"
    have i: "?i < unat (memory_size s)" "unat (load_address s) \<le> unat a" using s(2) by (auto simp: inside_def)
    have "of_nat ?i = a - load_address s" using i(2) by (simp add: of_nat_diff)
    then have "load_address s + of_nat ?i = a" by simp
    then show ?thesis using assms(1) s(1) i(1) Some by (simp add: image_byte_def segment_byte_def) metis
  qed
qed

lemma loaded_isa:
  assumes "machine_ok m" "sorts std_sort" "\<forall>bytes. hf_read f = Some bytes \<longrightarrow> length bytes < 2 ^ 64"
    "machine_load std_sort path f m = (m', Inr img)" "\<forall>s\<in>set (segments img). below_top s"
    "read_file path f = Inr bytes"
  shows "isa_of (m_cpu m') = isa_image (\<lambda>k. ram_accessible (bus (m_cpu m'))) bytes img" "isa_mode (m_cpu m')"
proof -
  note l = loaded_machine [OF assms(1-5)]
  then have bare: "bare (m_cpu m')" by (simp add: bare_def)
  from l obtain "pc (m_cpu m') = entry img" "registers (m_cpu m') = replicate 32 0"
    and mem: "\<forall>s\<in>set (segments img). \<forall>i<unat (memory_size s).
          bus_byte (bus (m_cpu m')) (load_address s + of_nat i) =
            (if i < unat (file_size s) then bytes ! (unat (file_offset s) + i) else 0)"
      "\<forall>a. (\<forall>s\<in>set (segments img). \<not> inside s a) \<longrightarrow> bus_byte (bus (m_cpu m')) a = 0"
    using assms(6) by auto
  then show "isa_of (m_cpu m') = isa_image (\<lambda>k. ram_accessible (bus (m_cpu m'))) bytes img"
    using image_byte_memory [OF mem] bare by (simp add: isa_of_def isa_image_def cong: if_cong)
  have "machine_ok m'" by (rule machine_load_ok [OF assms(1,4)])
  then show "isa_mode (m_cpu m')" using l bare by (simp add: isa_mode_def machine_ok_def private_space_def)
qed

text \<open>Loading does not change the memory map.\<close>

lemma ram_accessible_pristine: "ram_accessible (pristine b) = ram_accessible b"
proof (intro ext)
  fix a w
  have l: "map layout (devices (pristine b)) = map layout (devices b)" by (rule pristine_layout)
  have "find_device (devices (pristine b)) a w = find_device (devices b) a w" by (rule find_device_layout [OF l])
  moreover have "bus_ok (pristine b) = bus_ok b" by (rule bus_ok_layout [OF l])
  moreover have "accepts_image (devices (pristine b) ! i) = accepts_image (devices b ! i)" if "i < length (devices b)" for i
    using that by (cases "devices b ! i") (simp_all add: pristine_def)
  ultimately show "ram_accessible (pristine b) a w = ram_accessible b a w"
    using find_device_Some [of "devices b" a w] by (auto simp: ram_accessible_def split: option.splits)
qed

lemma machine_load_memory_map:
  "machine_ok m \<Longrightarrow> machine_load std_sort path f m = (m', result) \<Longrightarrow>
     ram_accessible (bus (m_cpu m')) = ram_accessible (bus (m_cpu m))"
  using machine_load_pristine(1) ram_accessible_pristine by metis

subsection \<open>Running it\<close>

lemma steps_run_loop:
  "steps cpu rs cpu' \<Longrightarrow> run_loop collect (length rs) cpu t k = Inr (cpu', t @ rs, k + of_nat (length rs))"
  by (induction arbitrary: t k rule: steps.induct) (simp_all add: collect_def)

lemma isa_machine_run:
  assumes "isa_mode (m_cpu m)" "iterate isa_step n (isa_of (m_cpu m)) = Some s" "n < 2 ^ 64"
  shows "\<exists>m' rs result. machine_run collect m [] (of_nat n) = Inr (m', rs, result) \<and> length rs = n \<and>
    isa_of (m_cpu m') = s \<and> rr_reason result = StepLimit \<and>
    (\<forall>i<n. \<exists>si. iterate isa_step i (isa_of (m_cpu m)) = Some si \<and> records_step si (rs ! i))"
proof -
  obtain rs cpu' where r: "steps (m_cpu m) rs cpu'" "length rs = n" "isa_of cpu' = s" "isa_mode cpu'"
    "\<forall>i<n. \<exists>si. iterate isa_step i (isa_of (m_cpu m)) = Some si \<and> records_step si (rs ! i)"
    using isa_runs [OF assms(1,2)] by blast
  have "run_loop collect (unat (of_nat n :: u64)) (m_cpu m) [] 0 = Inr (cpu', rs, of_nat n)"
    using steps_run_loop [OF r(1), of "[]" 0] r(2) unat_of_nat_u64 [OF assms(3)] by simp
  then show ?thesis using r by (auto simp: machine_run_def run_def and_then_def isa_mode_def)
qed

text \<open>
  C3: composition: a machine that has loaded an image performs on it every run of the machine of the
  instruction set that starts at the entry of the image with zero registers and a memory of the segments'
  payloads and zeros: the run of \<open>n\<close> steps returns \<open>n\<close> records, none with a trap and each at the
  program counter of the abstract run, and ends in the same program counter, registers and memory. The
  condition is that no segment of the image ends at the top of the address space (\<open>below_top\<close>): there the
  parser accepts segments that overlap, and a later payload overwrites an earlier one.
\<close>

theorem loaded_program_runs_as_isa:
  assumes ok: "machine_ok m" and sorts: "sorts std_sort"
    and len: "\<forall>bytes. hf_read f = Some bytes \<longrightarrow> length bytes < 2 ^ 64"
    and load: "machine_load std_sort path f m = (m1, Inr img)" and top: "\<forall>s\<in>set (segments img). below_top s"
    and read: "read_file path f = Inr bytes" and n: "n < 2 ^ 64"
    and start: "start = isa_image (\<lambda>k. ram_accessible (bus (m_cpu m))) bytes img"
    and run: "iterate isa_step n start = Some s"
  shows "\<exists>m2 rs result. machine_run collect m1 [] (of_nat n) = Inr (m2, rs, result) \<and> length rs = n \<and>
    isa_of (m_cpu m2) = s \<and> rr_reason result = StepLimit \<and>
    (\<forall>i<n. \<exists>si. iterate isa_step i start = Some si \<and> records_step si (rs ! i))"
  using isa_machine_run [of m1 n s] loaded_isa [OF ok sorts len load top read] run n
    machine_load_memory_map [OF ok load] by (simp add: start)

lemma test_ram: "ram_accessible (bus (m_cpu test_machine)) 0x80000000 4"
proof -
  let ?b = "bus (m_cpu test_machine)"
  have ok: "bus_ok ?b" using fresh_cpu_ok by (simp add: cpu_ok_def)
  have "device_contains (devices ?b ! 1) 0x80000000 4" "1 < length (devices ?b)" "accepts_image (devices ?b ! 1)"
    by (simp_all add: fresh_machine_def make_cpu_def cpu_reset_def contains_def valid_width_def)
  with find_device_eq [OF ok this(2,1)] ok show ?thesis by (simp add: ram_accessible_def valid_width_def)
qed

lemma test_image_bytes:
  assumes "i < 4"
  shows "image_byte (minimal_elf 0x80000000 16) (segments test_image) (0x80000000 + of_nat i) =
    ucast (drop_bit (8 * i) (0x13 :: u32))"
proof -
  have "minimal_elf 0x80000000 16 ! (0x100 + i) = ucast (drop_bit (8 * i) (0x13 :: u32))"
  proof -
    consider "i = 0" | "i = 1" | "i = 2" | "i = 3" using assms by linarith
    then show ?thesis by cases (simp_all add: minimal_elf_def)
  qed
  moreover have "unat (0x80000000 + of_nat i :: u64) = 0x80000000 + i"
    using assms by (simp add: unat_add_of_nat)
  ultimately show ?thesis
    using assms by (simp add: image_byte_def test_image_def first_segment_def inside_def segment_byte_def)
qed

lemma isa_of_pc: "isa_of cpu = s\<lparr>isa_pc := p\<rparr> \<Longrightarrow> pc cpu = p"
  by (drule arg_cong [of _ _ isa_pc]) simp

lemma nop:
  obtains ins where "decode 0x13 = Inr ins" "di_operation ins = Addi" "di_rd ins = 0"
proof -
  have "case decode 0x13 of Inl e \<Rightarrow> False | Inr ins \<Rightarrow> di_operation ins = Addi \<and> di_rd ins = 0" by code_simp
  then show thesis using that by (auto split: sum.splits)
qed

text \<open>The image of the tests holds \<^verbatim>\<open>addi x0, x0, 0\<close>.\<close>

lemma test_image_step:
  assumes "ram VirtualAccess.InstructionFetch 0x80000000 4" "start = isa_image ram (minimal_elf 0x80000000 16) test_image"
  shows "iterate isa_step 1 start = Some (start\<lparr>isa_pc := 0x80000004\<rparr>)"
proof -
  obtain ins where i: "decode 0x13 = Inr ins" "di_operation ins = Addi" "di_rd ins = 0" by (rule nop)
  have "word_of_int (isa_bytes (\<lambda>i. isa_mem start (0x80000000 + of_nat i)) 4) = (0x13 :: u32)"
    by (rule word_of_bytes(2)) (simp add: assms(2) isa_image_def test_image_bytes)
  then have "isa_fetch start = Some ins" using i(1) assms by (simp add: isa_fetch_def isa_image_def test_image_def)
  then show ?thesis
    by (simp add: assms(2) isa_step_def isa_execute_def i integer_operations_def alu_operations_def isa_set_def isa_image_def
        test_image_def)
qed

theorem loaded_program_runs_as_isa_witness:
  "\<exists>m1 m2 rs result. machine_load (sort_key load_address) ''guest.elf'' (test_file (minimal_elf 0x80000000 16)) test_machine =
       (m1, Inr test_image) \<and>
     machine_run collect m1 [] 1 = Inr (m2, rs, result) \<and> length rs = 1 \<and> pc (m_cpu m2) = 0x80000004"
proof -
  let ?s = "isa_image (\<lambda>k. ram_accessible (bus (m_cpu test_machine))) (minimal_elf 0x80000000 16) test_image"
  have run: "iterate isa_step 1 ?s = Some (?s\<lparr>isa_pc := 0x80000004\<rparr>)" 
    using test_ram by (intro test_image_step [OF _ refl])
  obtain m1 where m1: "machine_load (sort_key load_address) ''guest.elf'' (test_file (minimal_elf 0x80000000 16)) test_machine =
      (m1, Inr test_image)" using test_machine_loads by blast
  from loaded_program_runs_as_isa [OF test_machine_ok sorts_sort_key test_file_length m1 test_image_below_top read_test_file _ refl run]
  obtain m2 rs result where r: "machine_run collect m1 [] 1 = Inr (m2, rs, result)" "length rs = 1"
    "isa_of (m_cpu m2) = ?s\<lparr>isa_pc := 0x80000004\<rparr>" by auto
  from isa_of_pc [OF r(3)] have "pc (m_cpu m2) = 0x80000004" .
  with r(1,2) m1 show ?thesis by blast
qed

subsection \<open>The command line\<close>

text \<open>The memory map of the machine that \<^verbatim>\<open>run\<close> makes.\<close>

definition default_ram :: "VirtualAccess \<Rightarrow> u64 \<Rightarrow> nat \<Rightarrow> bool" where
  "default_ram k a w \<longleftrightarrow> valid_width w \<and> 0x80000000 \<le> unat a \<and> unat a + w \<le> 0x88000000"

lemma fresh_machine_ram: "(\<lambda>k. ram_accessible (bus (m_cpu (fresh_machine c out)))) = default_ram"
proof (intro ext)
  fix k a w
  let ?b = "bus (m_cpu (fresh_machine c out))"
  have ok: "bus_ok ?b" using fresh_cpu_ok by (simp add: cpu_ok_def)
  have ram: "1 < length (devices ?b)" "accepts_image (devices ?b ! 1)" "\<not> accepts_image (devices ?b ! 0)" "length (devices ?b) = 2"
    "device_contains (devices ?b ! 1) a w \<longleftrightarrow> default_ram k a w"
    unfolding device_contains_iff default_ram_def by (auto simp: fresh_machine_def make_cpu_def cpu_reset_def)
  show "ram_accessible ?b a w = default_ram k a w"
  proof
    assume "ram_accessible ?b a w"
    then obtain i where i: "find_device (devices ?b) a w = Some i" "accepts_image (devices ?b ! i)"
      by (auto simp: ram_accessible_def split: option.splits)
    then have "i = 1" using find_device_Some [OF i(1)] ram(3,4) by (auto simp: less_2_cases_iff)
    then show "default_ram k a w" using find_device_Some [OF i(1)] ram(5) by simp
  next
    assume *: "default_ram k a w"
    then show "ram_accessible ?b a w"
      using find_device_eq [OF ok ram(1)] ram(2,5) ok by (simp add: ram_accessible_def default_ram_def)
  qed
qed

lemma steps_prefix:
  "steps cpu rs c \<Longrightarrow> steps cpu ss d \<Longrightarrow> length rs \<le> length ss \<Longrightarrow> \<exists>ts. ss = rs @ ts \<and> steps c ts d"
proof (induction arbitrary: ss rule: steps.induct)
  case (steps_step cpu cpu1 r rs cpu')
  obtain r1 ss1 where ss: "ss = r1 # ss1" using steps_step.prems(2) by (cases ss) auto
  obtain cpu2 where "step cpu = Inr (cpu2, r1)" "steps cpu2 ss1 d"
    using steps_step.prems(1) unfolding ss by (rule steps_ConsE) blast
  then show ?case using steps_step.IH [of ss1] steps_step.hyps(2) steps_step.prems(2) ss by simp
qed simp

lemma steps_halted: "halted cpu \<Longrightarrow> steps cpu rs cpu' \<Longrightarrow> rs = []"
  by (auto elim: steps.cases)

lemma steps_same:
  assumes "steps cpu rs c" "length rs \<le> n" "halted c \<or> length rs = n" "steps cpu ss d" "length ss = n"
  shows "rs = ss \<and> c = d"
proof -
  obtain ts where ts: "ss = rs @ ts" "steps c ts d" using steps_prefix [OF assms(1,4)] assms(2,5) by auto
  moreover have "ts = []" using assms(3,5) steps_halted ts by auto
  ultimately show ?thesis by simp
qed

lemma machine_load_image:
  "machine_load std_sort path f m = (m', Inr img) \<Longrightarrow> read_file path f = Inr bytes \<Longrightarrow> parse std_sort bytes = Inr img"
  by (auto simp: machine_load_def load_elf_def Let_def split: prod.splits sum.splits option.splits)

text \<open>
  C4: composition: when the machine of the instruction set runs the maximum number of steps from an image,
  \<^verbatim>\<open>northstar64 run\<close> on the file of that image exits with code 2 and its trace file holds the records of
  that run: one line for each step, retired without a trap at the program counter of the abstract run.
\<close>

theorem run_command_follows_isa:
  assumes sorts: "sorts std_sort" and f: "f = h_binary host (argv ! 2)"
    and len: "\<forall>bytes. hf_read f = Some bytes \<longrightarrow> length bytes < 2 ^ 64"
    and c: "run_command std_sort host argv = Inr c" "con_trace c = Some (path, content)"
    and opts: "parse_run_options default_run_options (drop 3 argv) = Inr opts" "n = unat (ro_maximum_steps opts)"
    and img: "read_file (argv ! 2) f = Inr bytes" "parse std_sort bytes = Inr img" "\<forall>s\<in>set (segments img). below_top s"
    and run: "start = isa_image default_ram bytes img" "iterate isa_step n start = Some s"
  shows "con_code c = 2 \<and> (\<exists>rs. content = jsonl_text rs \<and> length rs = n \<and>
    (\<forall>i<n. \<exists>si. iterate isa_step i start = Some si \<and> records_step si (rs ! i)))"
  using c(1)
proof (rule run_command_cases)
  fix opts' m0 m1 img' trace1 m2 result
  assume "parse_run_options default_run_options (drop 3 argv) = Inr opts'"
    and m0: "make_machine (default_machine_config
       \<lparr>mc_cpu := default_cpu_config\<lparr>trap_policy := ro_trap_policy opts'\<rparr>\<rparr>) (Some []) = Inr m0"
    and m1: "machine_load std_sort (argv ! 2) (h_binary host (argv ! 2)) m0 = (m1, Inr img')"
    and "machine_run (trace_sink_of host (ro_trace_path opts')) m1 [] (ro_maximum_steps opts') = Inr (m2, trace1, result)"
    and code: "con_code c = exit_code result"
    and trace: "con_trace c = (if ro_trace_path opts' = [] then None else Some (ro_trace_path opts', trace1))"
  then have r: "machine_run (trace_sink_of host (ro_trace_path opts)) m1 [] (ro_maximum_steps opts) = Inr (m2, content, result)"
    "ro_trace_path opts \<noteq> []" using opts c(2) by (auto split: if_splits)
  have ok: "machine_ok m0" by (rule make_machine_ok [OF m0])
  have m0_eq: "m0 = fresh_machine (default_cpu_config\<lparr>trap_policy := ro_trap_policy opts'\<rparr>) (Some [])"
    using m0 make_default_machine by simp
  note load = m1 [folded f]
  have img': "img' = img" using machine_load_image [OF load img(1)] img(2) by simp
  have top: "\<forall>s\<in>set (segments img'). below_top s" using img(3) by (simp add: img')
  have "(\<lambda>k. ram_accessible (bus (m_cpu m1))) = default_ram"
    using machine_load_memory_map [OF ok load] fresh_machine_ram by (simp add: m0_eq)
  then have start: "isa_of (m_cpu m1) = start" "isa_mode (m_cpu m1)"
    using loaded_isa [OF ok sorts len load top img(1)] by (simp_all add: run(1) img')
  then obtain ss cpu where ss: "steps (m_cpu m1) ss cpu" "length ss = n" "isa_mode cpu"
    "\<forall>i<n. \<exists>si. iterate isa_step i start = Some si \<and> records_step si (ss ! i)"
    using isa_runs [of "m_cpu m1" n s] run(2) by auto
  obtain rs where rs: "steps (m_cpu m1) rs (m_cpu m2)" "content = jsonl_text rs" "length rs \<le> n"
    "halted (m_cpu m2) \<or> length rs = n" using run_records [OF r] opts(2) by metis
  have "rs = ss" "m_cpu m2 = cpu" using steps_same [OF rs(1,3,4) ss(1,2)] by simp_all
  moreover from this have "con_code c = 2" using exit_code_cases [OF r(1)] code ss(3) by (simp add: isa_mode_def)
  ultimately show ?thesis using rs(2) ss(2,4) by blast
qed

text \<open>One step of the image of the tests, from the command line to the trace.\<close>

definition step_arguments :: "string list" where
  "step_arguments = [''northstar64'', ''run'', ''guest.elf'', ''--trace'', ''t.jsonl'', ''--max-steps'', ''1'']"

lemma step_options: "parse_run_options default_run_options (drop 3 step_arguments) =
    Inr \<lparr>ro_maximum_steps = 1, ro_trace_path = ''t.jsonl'', ro_trap_policy = Halt\<rparr>"
  by (simp add: step_arguments_def default_run_options_def parse_unsigned_def starts_with_def from_chars_def
      is_digit_def digit_value_def Let_def)

theorem run_command_follows_isa_witness:
  "\<exists>c r. run_command (sort_key load_address) test_host step_arguments = Inr c \<and> con_code c = 2 \<and>
     con_trace c = Some (''t.jsonl'', jsonl_text [r]) \<and> sr_retired r \<and> sr_pc r = 0x80000000"
proof -
  let ?s = "isa_image default_ram (minimal_elf 0x80000000 16) test_image"
  obtain c content where c: "run_command (sort_key load_address) test_host step_arguments = Inr c"
    "con_trace c = Some (''t.jsonl'', content)"
    using test_run [OF _ step_options] by (auto simp: step_arguments_def)
  have run: "iterate isa_step 1 ?s = Some (?s\<lparr>isa_pc := 0x80000004\<rparr>)"
    by (rule test_image_step [OF _ refl]) (simp add: default_ram_def valid_width_def)
  have f: "h_binary test_host (step_arguments ! 2) = test_file (minimal_elf 0x80000000 16)" by (simp add: test_host_def)
  have p: "parse (sort_key load_address) (minimal_elf 0x80000000 16) = Inr test_image"
    using test_machine_loads machine_load_image read_test_file by blast
  from run_command_follows_isa [OF sorts_sort_key f [symmetric] test_file_length c step_options _ read_test_file p
      test_image_below_top refl run]
  obtain rs where rs: "con_code c = 2" "content = jsonl_text rs" "length rs = 1" "records_step ?s (rs ! 0)" by auto
  then obtain r where "rs = [r]" by (cases rs) auto
  then show ?thesis using c rs by (auto simp: records_step_def isa_image_def test_image_def)
qed

end
