(* ===== verification/Spec2Isabelle.thy ===== *)
theory Spec2Isabelle
  imports Encoding InstructionProperties UserPrograms PlatformProperties Guests CliFacts
begin

text \<open>
  A verification library of Northstar64, a deterministic RV64I machine emulator in C++20: machine,
  supervisor and user mode, Sv39 translation, a physical bus with one RAM and one UART, an ELF loader,
  JSONL execution traces, and a command-line tool.

  \<^bold>\<open>The program.\<close> The hart (\<^verbatim>\<open>src/cpu.cpp\<close>) fetches a word through the page walker (\<^verbatim>\<open>src/sv39.cpp\<close>)
  and the bus (\<^verbatim>\<open>src/memory.cpp\<close>), decodes it (\<^verbatim>\<open>src/decode.cpp\<close>), executes it on its registers and
  its control registers (\<^verbatim>\<open>src/csr.cpp\<close>), and describes the step in a record that a trace sink
  (\<^verbatim>\<open>src/trace.cpp\<close>) may write. The machine (\<^verbatim>\<open>src/machine.cpp\<close>) owns a bus with a sparse RAM and a
  UART (\<^verbatim>\<open>src/uart.cpp\<close>) and a hart on it, and loads ELF images (\<^verbatim>\<open>src/elf.cpp\<close>). The tool
  (\<^verbatim>\<open>src/main.cpp\<close>) parses options, runs a machine, and compares traces.

  \<^bold>\<open>The theories.\<close>
    \<^item> \<open>Prelude\<close>: the machine integers of \<^verbatim>\<open>types.hpp\<close>, the exceptions, and the lemmas on words, bits and
      little-endian values that the other theories share.
    \<^item> \<open>Arch\<close>: privilege levels and trap causes. \<open>Text\<close>: the number formatting of the streams.
    \<^item> \<open>Decode\<close>, \<open>Disasm\<close>, \<open>Encoding\<close>: \<^verbatim>\<open>decode\<close> with its opcode groups and \<^verbatim>\<open>disassemble\<close>; the encoders of
      \<^verbatim>\<open>tests/test_support.hpp\<close>, shown to be inverse to the decoder in both directions.
    \<^item> \<open>Memory\<close>, \<open>Uart\<close>, \<open>Bus\<close>: \<^verbatim>\<open>SparseRam\<close> as a map from page numbers to pages, \<^verbatim>\<open>Uart16550\<close>, and \<^verbatim>\<open>Bus\<close> as
      the ordered list of devices. The locale \<open>byte_store\<close> states what a memory of bytes promises; it is
      interpreted on the RAM (\<open>ram\<close>) and on the bus (\<open>bus\<close>). \<open>bus_ok\<close> is the mapping invariant: ranges
      are non-empty, inside the address space, sorted and disjoint.
    \<^item> \<open>Csr\<close>: \<^verbatim>\<open>CsrFile\<close> with access validation, legalising writes, trap entry and return. \<open>csr_ok\<close> says which
      values the registers can hold. The locale \<open>trap_stack\<close>, the contract of one trap bank, is interpreted
      on the machine's and on the supervisor's bank.
    \<^item> \<open>Sv39\<close>: \<^verbatim>\<open>walk_sv39\<close>; the relation \<open>maps_to\<close> and the predicate \<open>grants\<close> are its specification. The
      relation \<open>visits\<close> gives the entries a walk reads, and the reason of a failed walk is determined by an
      unreadable entry among them, by the leaf the tables lead to (\<open>leaf_reason\<close>), or by a malformed entry.
    \<^item> \<open>Trace\<close>, \<open>TraceFormat\<close>: records, their JSON lines, the sink and the comparison; the lines determine
      the records.
    \<^item> \<open>Cpu\<close>: \<^verbatim>\<open>Cpu\<close> with \<open>translate\<close>, \<open>load\<close>, \<open>store\<close>, \<open>raise_trap\<close>, the instruction groups of \<^verbatim>\<open>execute\<close>,
      \<open>step\<close> and \<open>run\<close>. \<open>Effects\<close>: every branch of \<open>execute\<close> has an \<open>outcome\<close>, a precise trap or an effect
      that the record describes. \<open>Runs\<close>: the step relation \<open>steps\<close>, its invariants, and \<open>run_loop\<close> as its
      prefix, for every sink (\<open>feed\<close> is what a sink makes of the records), with the locale \<open>trace_sink\<close>
      interpreted on the collecting and on the JSONL sink.
    \<^item> \<open>Isolation\<close>: what user mode can reach. \<open>Alu\<close>: the results of the integer instructions on integers.
      \<open>Instructions\<close>, \<open>SystemSteps\<close>: a step whose fetch succeeds (\<open>fetches\<close>) is the execution of the fetched
      instruction (\<open>executes\<close>), for each class of instructions that execution is what the instruction set
      says, and a step whose fetch fails traps. An access that cannot be performed has one cause
      (\<open>access_cause\<close>), where \<open>unreadable_tables\<close> separates access faults from page faults.
    \<^item> \<open>AddressSpace\<close>: the virtual bytes a program sees through the translation; a space is \<open>private_space\<close> when
      stores through it reach neither its page tables (\<open>visits\<close>) nor a byte under two addresses, and such a
      space behaves as a flat memory; trap-free runs in user mode cannot leave it. \<open>IsaMachine\<close>: the
      abstract machine \<open>isa_step\<close> of the instruction set on a flat memory, and the locale \<open>forward_simulation\<close> interpreted on it and the hart. \<open>UserPrograms\<close>: the
      refinement and the confinement of user-mode runs, with a program under Sv39 as their example.
    \<^item> \<open>Loops\<close>: the loops of \<^verbatim>\<open>Cpu::run\<close> and of the zero fill as the code writes them, which may a priori not
      return, and that they do.
    \<^item> \<open>Elf\<close>, \<open>ElfLoad\<close>: \<^verbatim>\<open>parse\<close> and \<^verbatim>\<open>load_elf\<close>; what an accepted image satisfies and the memory after a load.
    \<^item> \<open>MachineModel\<close>, \<open>MachineLoad\<close>, \<open>Quiet\<close>: \<^verbatim>\<open>Machine\<close>, its invariant, the state after a load, reproducible
      runs, and the independence of executions from the text on the host stream.
    \<^item> \<open>Cli\<close>, \<open>CliFacts\<close>: \<^verbatim>\<open>main.cpp\<close>; numbers, exit codes, traces of runs, and what \<^verbatim>\<open>verify-trace\<close> decides.
    \<^item> \<open>Guests\<close>: the composition: a machine that has loaded an image runs it as \<open>isa_step\<close> runs its bytes, and
      the command \<^verbatim>\<open>run\<close> writes the trace of that run.
    \<^item> \<open>InstructionProperties\<close>, \<open>HartProperties\<close>, \<open>PlatformProperties\<close>: the properties of whole steps by
      instruction class, of the hart's state, records and runs, and of the components below the hart.

  \<^bold>\<open>State and errors.\<close> A C++ class is a record, a derived class a record extension, a reference a field
  of the state. The bus the hart refers to is a field of the hart's state, and the machine's device
  pointers are base addresses. A \<^verbatim>\<open>std::variant\<close> result is a sum, a \<^verbatim>\<open>std::optional\<close> an option; a C++
  exception is an \<open>exn\<close> in an \<open>Inl\<close>. Operations that change state before they fail return the state
  beside the error.

  \<^bold>\<open>Bounds and fuel.\<close> Integers keep their width and wrap. The walk recurses on the level (three levels);
  the first argument of \<open>run_loop\<close> is the number of steps left, and the last one of \<open>zero_fill\<close> the number
  of bytes left; \<open>Loops\<close> shows that the loops of the code, which carry neither, return the same. File
  reading and comparison recurse on the rest of the text.

  \<^bold>\<open>What is assumed.\<close> \<^verbatim>\<open>std::sort\<close> is an argument of the parser, because the standard leaves the order of
  equal keys open; \<open>sorts\<close> states that its result is a sorted permutation. Host files, what opening and
  reading them yields, and whether an output stream is still good are arguments. Bytes of a file are
  fewer than \<open>2 ^ 64\<close>, the range of \<^verbatim>\<open>std::size_t\<close>.

  \<^bold>\<open>What the properties show.\<close> The documented invariants of \<^verbatim>\<open>docs/architecture.md\<close>: x0 and record
  completeness, unique devices, retirement, one trap bank per trap, failed loads, determinism, no
  delegation from machine mode, and the walker as a pure function of memory. Beyond them: the walk
  computes the Sv39 mapping, user mode writes only pages mapped for it, a whole step of an instruction of
  each class is what the instruction set defines on integers and bytes, with the traps of the other
  cases, every run of the abstract machine of the instruction set is a run of the hart, on physical memory
  and on a private virtual address space alike, down to the trace that the command line writes, and the
  trace tool decides equality of executions.

  \<^bold>\<open>What the model showed.\<close> The overlap check of the parser wraps at the top of the address space
  (\<open>overlap_at_top_accepted\<close>), so what a load leaves in memory is stated for images none of whose segments
  ends there (\<open>below_top\<close>); the acceptance of an empty segment depends on the sort
  (\<open>empty_segment_order\<close>); contrary to
  invariant 5 of \<^verbatim>\<open>docs/architecture.md\<close>, a rejected image still clears the machine's RAM
  (\<open>failed_machine_load_clears_memory\<close>); \<^verbatim>\<open>verify-trace\<close> reports files as byte-for-byte identical that
  differ in the last line break (\<open>verify_trace_ignores_last_line_break\<close>).

  \<^bold>\<open>Not modelled.\<close> The flushing of the UART's stream; the text on standard output before an exception
  ends a command; \<^verbatim>\<open>read_file\<close>'s seek and read beyond their results; other subclasses of \<^verbatim>\<open>MappedDevice\<close> than
  the two in the repository; the test programs, guests, build files and documents.
\<close>

end
